(* ===== verification/Prelude.thy ===== *)
theory Prelude
  imports Complex_Main "HOL-Library.AList"
begin

text \<open>
  Shared material of the SiteWatch development: the named theorem collections, the types that
  stand for Go's scalar types (64-bit signed integers, instants, durations), reading a Go map
  with its zero value, generic lemmas on lists and maps, and the interface of a state machine
  with an invariant, which the concurrent parts of both services instantiate.
\<close>

named_theorems go_simps \<open>characteristic equations of the modelled Go standard library\<close>
named_theorems pg_simps \<open>equations of the SQL statements of the two services\<close>
named_theorems http_simps \<open>equations of response writers and handlers\<close>

subsection \<open>Go scalars\<close>

text \<open>
  An instant (\<open>time.Time\<close>) is a number of nanoseconds since the epoch and a duration
  (\<open>time.Duration\<close>) a number of nanoseconds. Strings are byte strings.
\<close>

type_synonym time = int
type_synonym duration = int

abbreviation millisecond :: duration where "millisecond \<equiv> 1000000"
abbreviation second :: duration where "second \<equiv> 1000000000"
abbreviation minute :: duration where "minute \<equiv> 60000000000"

abbreviation max_int64 :: int where "max_int64 \<equiv> 9223372036854775807"
abbreviation min_int64 :: int where "min_int64 \<equiv> - 9223372036854775808"

text \<open>Go's \<open>int\<close> is 64 bits wide here; its arithmetic wraps around.\<close>

definition int64_wrap :: "int \<Rightarrow> int" where
  "int64_wrap x = (x + 2 ^ 63) mod 2 ^ 64 - 2 ^ 63"

text \<open>\<open>Time.Sub\<close> saturates at the bounds of a duration instead of wrapping around.\<close>

definition time_Sub :: "time \<Rightarrow> time \<Rightarrow> duration" where
  "time_Sub t u = max min_int64 (min max_int64 (t - u))"

text \<open>Reading a missing key of a Go map gives the zero value \<open>z\<close> of the element type.\<close>

definition map_get :: "'v \<Rightarrow> ('k \<Rightarrow> 'v option) \<Rightarrow> 'k \<Rightarrow> 'v" where
  "map_get z m k = (case m k of None \<Rightarrow> z | Some v \<Rightarrow> v)"

subsection \<open>Lemmas on the scalars\<close>

lemma int64_wrap_id [simp]: "min_int64 \<le> x \<Longrightarrow> x \<le> max_int64 \<Longrightarrow> int64_wrap x = x"
  by (simp add: int64_wrap_def)

lemma int64_wrap_bounds: "min_int64 \<le> int64_wrap x \<and> int64_wrap x \<le> max_int64"
proof -
  have "0 \<le> (x + 2 ^ 63) mod 2 ^ 64" "(x + 2 ^ 63) mod 2 ^ 64 < (2 ^ 64 :: int)"
    by simp_all
  then show ?thesis by (simp add: int64_wrap_def)
qed

lemma time_Sub_ge_iff:
  "min_int64 < d \<Longrightarrow> d \<le> max_int64 \<Longrightarrow> d \<le> time_Sub t u \<longleftrightarrow> d \<le> t - u"
  by (auto simp: time_Sub_def)

lemma time_Sub_gt_iff:
  "min_int64 \<le> d \<Longrightarrow> d < max_int64 \<Longrightarrow> d < time_Sub t u \<longleftrightarrow> d < t - u"
  by (auto simp: time_Sub_def)

lemma map_get_upd [simp]: "map_get z (m(k \<mapsto> v)) k' = (if k' = k then v else map_get z m k')"
  by (simp add: map_get_def)

lemma map_get_cong: "m k = m' k \<Longrightarrow> map_get z m k = map_get z m' k"
  by (simp add: map_get_def)

lemma map_get_empty [simp]: "map_get z Map.empty k = z"
  by (simp add: map_get_def)

subsection \<open>Generic lemmas\<close>

lemma length_filter_le_1_iff:
  assumes "distinct xs"
  shows "length (filter P xs) \<le> 1 \<longleftrightarrow>
    (\<forall>x \<in> set xs. \<forall>y \<in> set xs. P x \<longrightarrow> P y \<longrightarrow> x = y)"
proof -
  have "length (filter P xs) = card {x \<in> set xs. P x}"
    using distinct_card [of "filter P xs"] assms by simp
  moreover have "card {x \<in> set xs. P x} \<le> Suc 0 \<longleftrightarrow>
    (\<forall>x \<in> {x \<in> set xs. P x}. \<forall>y \<in> {x \<in> set xs. P x}. x = y)"
    by (rule card_le_Suc0_iff_eq) simp
  ultimately show ?thesis by auto
qed

lemma distinct_map_eqD:
  "distinct (map f xs) \<Longrightarrow> x \<in> set xs \<Longrightarrow> y \<in> set xs \<Longrightarrow> f x = f y \<Longrightarrow> x = y"
  by (simp add: distinct_map inj_on_def)

lemma distinct_map_ConsD: "distinct (map f (x # xs)) \<Longrightarrow> y \<in> set xs \<Longrightarrow> f y \<noteq> f x"
  by (metis distinct.simps(2) image_eqI list.set_map list.simps(9))

lemma map_of_map_keys_Some:
  "distinct (map f xs) \<Longrightarrow> x \<in> set xs \<Longrightarrow> map_of (map (\<lambda>x. (f x, x)) xs) (f x) = Some x"
  by (induction xs) (auto simp: image_iff)

lemma find_in_set: "List.find P xs = Some x \<Longrightarrow> x \<in> set xs \<and> P x"
  by (auto simp: find_Some_iff)

lemma alist_update_new: "k \<notin> fst ` set m \<Longrightarrow> AList.update k x m = m @ [(k, x)]"
  by (induction m) auto

subsection \<open>State machines with an invariant\<close>

text \<open>
  The interface every reachability argument of the development goes through: initial states,
  a step relation, and an invariant that holds initially and is kept by every step.
\<close>

inductive run :: "('s \<Rightarrow> 's \<Rightarrow> bool) \<Rightarrow> 's \<Rightarrow> 's \<Rightarrow> bool" for step where
  run_refl: "run step s s"
| run_step: "run step s t \<Longrightarrow> step t u \<Longrightarrow> run step s u"

inductive_cases run_stepE: "run step s u"

lemma run_one: "step s t \<Longrightarrow> run step s t"
  by (rule run_step [OF run_refl])

lemma run_trans: "run step t u \<Longrightarrow> run step s t \<Longrightarrow> run step s u"
  by (induction rule: run.induct) (auto intro: run.intros)

locale invariant_system =
  fixes init :: "'s \<Rightarrow> bool"
    and step :: "'s \<Rightarrow> 's \<Rightarrow> bool"
    and inv :: "'s \<Rightarrow> bool"
  assumes init_inv: "init s \<Longrightarrow> inv s"
    and step_inv: "step s t \<Longrightarrow> inv s \<Longrightarrow> inv t"
begin

lemma run_inv: "run step s t \<Longrightarrow> inv s \<Longrightarrow> inv t"
  by (induction rule: run.induct) (auto intro: step_inv)

lemma reachable_inv: "init s \<Longrightarrow> run step s t \<Longrightarrow> inv t"
  using init_inv run_inv by blast

end

text \<open>A quantity that no step decreases: \<open>le\<close> is a preorder the steps respect.\<close>

locale monotone_system =
  fixes step :: "'s \<Rightarrow> 's \<Rightarrow> bool"
    and le :: "'s \<Rightarrow> 's \<Rightarrow> bool"
  assumes le_refl: "le s s"
    and le_trans: "le s t \<Longrightarrow> le t u \<Longrightarrow> le s u"
    and step_le: "step s t \<Longrightarrow> le s t"
begin

lemma run_le: "run step s t \<Longrightarrow> le s t"
  by (induction rule: run.induct) (auto intro: le_refl le_trans step_le)

end

end
