(* ===== verification/GoStd.thy ===== *)
theory GoStd
  imports Prelude "HOL-Library.Word"
begin

text \<open>
  The parts of the Go standard library the two services call, as executable functions on byte
  strings: \<open>strings.Split\<close>, \<open>strings.Cut\<close>, \<open>strings.TrimSpace\<close>, \<open>strconv.ParseInt\<close>,
  \<open>strconv.ParseUint\<close>, \<open>strconv.Atoi\<close>, \<open>strconv.Itoa\<close>, \<open>net.SplitHostPort\<close>,
  \<open>hex.EncodeToString\<close> and the canonical form of HTTP header names, with the laws the
  components rely on. The collection \<open>go_simps\<close> holds the rewriting ones.
\<close>

subsection \<open>strings\<close>

text \<open>\<open>strings.Split\<close> with a one-byte separator.\<close>

fun Split :: "string \<Rightarrow> char \<Rightarrow> string list" where
  "Split [] sep = [[]]"
| "Split (c # cs) sep =
     (if c = sep then [] # Split cs sep
      else (case Split cs sep of [] \<Rightarrow> [[c]] | p # ps \<Rightarrow> (c # p) # ps))"

text \<open>\<open>strings.Join\<close> with a one-byte separator: what \<open>Split\<close> inverts.\<close>

fun Join :: "string list \<Rightarrow> char \<Rightarrow> string" where
  "Join [] sep = []"
| "Join [p] sep = p"
| "Join (p # q # ps) sep = p @ sep # Join (q # ps) sep"

text \<open>\<open>strings.Cut\<close> with a one-byte separator: the text before and after it, and whether it occurs.\<close>

fun Cut :: "string \<Rightarrow> char \<Rightarrow> string \<times> string \<times> bool" where
  "Cut [] sep = ([], [], False)"
| "Cut (c # cs) sep =
     (if c = sep then ([], cs, True)
      else (case Cut cs sep of (b, a, found) \<Rightarrow> (c # b, a, found)))"

text \<open>
  The UTF-8 encodings of the code points for which \<open>unicode.IsSpace\<close> holds; \<open>strings.TrimSpace\<close>
  removes them at both ends.
\<close>

definition space_encodings :: "string list" where
  "space_encodings =
     [''\<newline>'', '' '', [CHR 0x09], [CHR 0x0B], [CHR 0x0C], [CHR 0x0D],
      [CHR 0xC2, CHR 0x85], [CHR 0xC2, CHR 0xA0], [CHR 0xE1, CHR 0x9A, CHR 0x80],
      [CHR 0xE2, CHR 0x80, CHR 0x80], [CHR 0xE2, CHR 0x80, CHR 0x81],
      [CHR 0xE2, CHR 0x80, CHR 0x82], [CHR 0xE2, CHR 0x80, CHR 0x83],
      [CHR 0xE2, CHR 0x80, CHR 0x84], [CHR 0xE2, CHR 0x80, CHR 0x85],
      [CHR 0xE2, CHR 0x80, CHR 0x86], [CHR 0xE2, CHR 0x80, CHR 0x87],
      [CHR 0xE2, CHR 0x80, CHR 0x88], [CHR 0xE2, CHR 0x80, CHR 0x89],
      [CHR 0xE2, CHR 0x80, CHR 0x8A], [CHR 0xE2, CHR 0x80, CHR 0xA8],
      [CHR 0xE2, CHR 0x80, CHR 0xA9], [CHR 0xE2, CHR 0x80, CHR 0xAF],
      [CHR 0xE2, CHR 0x81, CHR 0x9F], [CHR 0xE3, CHR 0x80, CHR 0x80]]"

fun strip_one :: "string list \<Rightarrow> string \<Rightarrow> string option" where
  "strip_one [] s = None"
| "strip_one (e # es) s =
     (if e \<noteq> [] \<and> take (length e) s = e then Some (drop (length e) s) else strip_one es s)"

lemma strip_one_shorter: "strip_one es s = Some t \<Longrightarrow> length t < length s"
proof (induction es s rule: strip_one.induct)
  case (2 e es s)
  show ?case
  proof (cases "e \<noteq> [] \<and> take (length e) s = e")
    case True
    have "length e = length (take (length e) s)" using True by simp
    also have "\<dots> \<le> length s" by simp
    finally have "length e \<le> length s" .
    with True "2.prems" show ?thesis by (cases e) auto
  qed (use 2 in auto)
qed simp

function trim_left :: "string list \<Rightarrow> string \<Rightarrow> string" where
  "trim_left es s = (case strip_one es s of None \<Rightarrow> s | Some t \<Rightarrow> trim_left es t)"
  by pat_completeness auto
termination
  by (relation "measure (\<lambda>(es, s). length s)") (auto dest: strip_one_shorter)

declare trim_left.simps [simp del]

definition TrimSpace :: "string \<Rightarrow> string" where
  "TrimSpace s =
     rev (trim_left (map rev space_encodings) (rev (trim_left space_encodings s)))"

subsection \<open>strconv\<close>

datatype num_error = ErrSyntax | ErrRange

definition is_digit :: "char \<Rightarrow> bool" where
  "is_digit c \<longleftrightarrow> (48::nat) \<le> of_char c \<and> of_char c \<le> (57::nat)"

definition digit_val :: "char \<Rightarrow> nat" where
  "digit_val c = of_char c - 48"

definition digit_char :: "nat \<Rightarrow> char" where
  "digit_char n = char_of (n + 48)"

fun digits_val :: "nat \<Rightarrow> string \<Rightarrow> nat" where
  "digits_val acc [] = acc"
| "digits_val acc (c # cs) = digits_val (10 * acc + digit_val c) cs"

text \<open>\<open>ParseUint(s, 10, bits)\<close>: digits only, no sign.\<close>

definition ParseUint :: "string \<Rightarrow> nat \<Rightarrow> num_error + int" where
  "ParseUint s bits =
     (if s = [] \<or> \<not> list_all is_digit s then Inl ErrSyntax
      else if 2 ^ bits \<le> digits_val 0 s then Inl ErrRange
      else Inr (int (digits_val 0 s)))"

text \<open>\<open>ParseInt(s, 10, bits)\<close>: an optional sign, then digits; \<open>Atoi\<close> is the 64-bit instance.\<close>

definition split_sign :: "string \<Rightarrow> bool \<times> string" where
  "split_sign s = (case s of [] \<Rightarrow> (False, [])
     | c # cs \<Rightarrow> if c = CHR ''-'' then (True, cs) else if c = CHR ''+'' then (False, cs) else (False, s))"

definition ParseInt :: "string \<Rightarrow> nat \<Rightarrow> num_error + int" where
  "ParseInt s bits =
     (let (neg, ds) = split_sign s; n = int (digits_val 0 ds) in
      if ds = [] \<or> \<not> list_all is_digit ds then Inl ErrSyntax
      else if \<not> neg \<and> 2 ^ (bits - 1) \<le> n then Inl ErrRange
      else if neg \<and> 2 ^ (bits - 1) < n then Inl ErrRange
      else Inr (if neg then - n else n))"

definition Atoi :: "string \<Rightarrow> num_error + int" where
  "Atoi s = ParseInt s 64"

fun nat_digits :: "nat \<Rightarrow> string" where
  "nat_digits n = (if n < 10 then [digit_char n] else nat_digits (n div 10) @ [digit_char (n mod 10)])"

declare nat_digits.simps [simp del]

definition Itoa :: "int \<Rightarrow> string" where
  "Itoa n = (if n < 0 then CHR ''-'' # nat_digits (nat (- n)) else nat_digits (nat n))"

subsection \<open>net, encoding/hex, net/textproto\<close>

text \<open>\<open>net.SplitHostPort\<close>; the errors carry Go's reason.\<close>

fun index_byte :: "char \<Rightarrow> string \<Rightarrow> nat option" where
  "index_byte c [] = None"
| "index_byte c (x # xs) = (if x = c then Some 0 else map_option Suc (index_byte c xs))"

fun last_index_byte :: "char \<Rightarrow> string \<Rightarrow> nat option" where
  "last_index_byte c [] = None"
| "last_index_byte c (x # xs) =
     (case last_index_byte c xs of Some i \<Rightarrow> Some (Suc i) | None \<Rightarrow> if x = c then Some 0 else None)"

datatype addr_error = MissingPort | TooManyColons | MissingBracket | UnexpectedOpen | UnexpectedClose

definition brackets_ok :: "string \<Rightarrow> nat \<Rightarrow> nat \<Rightarrow> nat \<Rightarrow> string \<Rightarrow> addr_error + string \<times> string" where
  "brackets_ok hostport i j k host =
     (if index_byte (CHR ''['') (drop j hostport) \<noteq> None then Inl UnexpectedOpen
      else if index_byte (CHR '']'') (drop k hostport) \<noteq> None then Inl UnexpectedClose
      else Inr (host, drop (Suc i) hostport))"

definition SplitHostPort :: "string \<Rightarrow> addr_error + string \<times> string" where
  "SplitHostPort hostport =
     (case last_index_byte (CHR '':'') hostport of
        None \<Rightarrow> Inl MissingPort
      | Some i \<Rightarrow>
          if hostport ! 0 = CHR ''['' then
            (case index_byte (CHR '']'') hostport of
               None \<Rightarrow> Inl MissingBracket
             | Some e \<Rightarrow>
                 if Suc e = length hostport then Inl MissingPort
                 else if Suc e = i then
                   brackets_ok hostport i 1 (Suc e) (drop 1 (take e hostport))
                 else if hostport ! Suc e = CHR '':'' then Inl TooManyColons
                 else Inl MissingPort)
          else if index_byte (CHR '':'') (take i hostport) \<noteq> None then Inl TooManyColons
          else brackets_ok hostport i 0 0 (take i hostport))"

definition hex_digit :: "nat \<Rightarrow> char" where
  "hex_digit n = (if n < 10 then char_of (48 + n) else char_of (87 + n))"

fun EncodeToString :: "8 word list \<Rightarrow> string" where
  "EncodeToString [] = []"
| "EncodeToString (b # bs) =
     hex_digit (unat b div 16) # hex_digit (unat b mod 16) # EncodeToString bs"

definition upper_char :: "char \<Rightarrow> char" where
  "upper_char c = (if (97::nat) \<le> of_char c \<and> of_char c \<le> (122::nat) then char_of (of_char c - 32 :: nat) else c)"

definition lower_char :: "char \<Rightarrow> char" where
  "lower_char c = (if (65::nat) \<le> of_char c \<and> of_char c \<le> (90::nat) then char_of (of_char c + 32 :: nat) else c)"

text \<open>
  \<open>textproto.CanonicalMIMEHeaderKey\<close> on a valid header name: the first letter and every letter
  after a hyphen in upper case, the others in lower case.
\<close>

fun canonical_from :: "bool \<Rightarrow> string \<Rightarrow> string" where
  "canonical_from up [] = []"
| "canonical_from up (c # cs) =
     (if up then upper_char c else lower_char c) # canonical_from (c = CHR ''-'') cs"

definition CanonicalHeaderKey :: "string \<Rightarrow> string" where
  "CanonicalHeaderKey s = canonical_from True s"

subsection \<open>Laws of Split and Join\<close>

lemma Split_nonempty [simp]: "Split s sep \<noteq> []"
  by (induction s sep rule: Split.induct) (auto split: list.splits)

lemma Split_no_sep: "p \<in> set (Split s sep) \<Longrightarrow> sep \<notin> set p"
  by (induction s sep arbitrary: p rule: Split.induct) (auto split: if_splits list.splits)

lemma Split_free [go_simps]: "sep \<notin> set s \<Longrightarrow> Split s sep = [s]"
  by (induction s sep rule: Split.induct) auto

lemma Split_append [go_simps]: "sep \<notin> set p \<Longrightarrow> Split (p @ sep # s) sep = p # Split s sep"
  by (induction p) auto

lemma Join_Cons: "ps \<noteq> [] \<Longrightarrow> Join (p # ps) sep = p @ sep # Join ps sep"
  by (cases ps) auto

lemma Join_head_Cons: "Join ((c # p) # ps) sep = c # Join (p # ps) sep"
  by (cases ps) auto

lemma Join_Split: "Join (Split s sep) sep = s"
proof (induction s sep rule: Split.induct)
  case (2 c cs sep)
  then show ?case
    by (cases "Split cs sep") (auto simp: Join_Cons Join_head_Cons)
qed simp

lemma Split_Join:
  "ps \<noteq> [] \<Longrightarrow> (\<And>p. p \<in> set ps \<Longrightarrow> sep \<notin> set p) \<Longrightarrow> Split (Join ps sep) sep = ps"
proof (induction ps sep rule: Join.induct)
  case (3 p q ps sep)
  then have "Split (Join (q # ps) sep) sep = q # ps" by simp
  moreover have "sep \<notin> set p" using 3 by simp
  ultimately show ?case by (simp add: Split_append)
qed (auto intro: Split_free)

lemma Cut_append [go_simps]: "sep \<notin> set b \<Longrightarrow> Cut (b @ sep # a) sep = (b, a, True)"
  by (induction b) auto

subsection \<open>Laws of the number conversions\<close>

lemma is_digit_digit_char [simp]: "n < 10 \<Longrightarrow> is_digit (digit_char n)"
  by (simp add: is_digit_def digit_char_def)

lemma digit_val_digit_char [simp]: "n < 10 \<Longrightarrow> digit_val (digit_char n) = n"
  by (simp add: digit_val_def digit_char_def)

lemma digits_val_append: "digits_val acc (xs @ ys) = digits_val (digits_val acc xs) ys"
  by (induction xs arbitrary: acc) auto

lemma nat_digits_nonempty [simp]: "nat_digits n \<noteq> []"
  by (subst nat_digits.simps) simp

lemma list_all_nat_digits: "list_all is_digit (nat_digits n)"
proof (induction n rule: nat_digits.induct)
  case (1 n)
  show ?case
  proof (cases "n < 10")
    case True
    then show ?thesis by (simp add: nat_digits.simps [of n])
  next
    case False
    with 1 have "list_all is_digit (nat_digits (n div 10))" by simp
    with False show ?thesis by (simp add: nat_digits.simps [of n])
  qed
qed

lemma digits_val_nat_digits: "digits_val 0 (nat_digits n) = n"
proof (induction n rule: nat_digits.induct)
  case (1 n)
  show ?case
  proof (cases "n < 10")
    case True
    then show ?thesis by (simp add: nat_digits.simps [of n])
  next
    case False
    with 1 have "digits_val 0 (nat_digits (n div 10)) = n div 10" by simp
    with False show ?thesis by (simp add: nat_digits.simps [of n] digits_val_append)
  qed
qed

lemma nat_digits_no_sign: "split_sign (nat_digits n) = (False, nat_digits n)"
proof -
  obtain c cs where c: "nat_digits n = c # cs" by (cases "nat_digits n") auto
  with list_all_nat_digits [of n] have "is_digit c" by simp
  then have "c \<noteq> CHR ''-''" "c \<noteq> CHR ''+''" by (auto simp: is_digit_def)
  with c show ?thesis by (simp add: split_sign_def)
qed

lemma Itoa_sign:
  "split_sign (Itoa n) = (n < 0, nat_digits (nat \<bar>n\<bar>))"
proof (cases "n < 0")
  case True
  then show ?thesis by (simp add: Itoa_def split_sign_def)
next
  case False
  then show ?thesis by (simp add: Itoa_def nat_digits_no_sign)
qed

lemma Atoi_Itoa: "min_int64 \<le> n \<Longrightarrow> n \<le> max_int64 \<Longrightarrow> Atoi (Itoa n) = Inr n"
  by (auto simp: Atoi_def ParseInt_def Itoa_sign list_all_nat_digits digits_val_nat_digits Let_def)

lemma ParseInt_bounds:
  assumes "ParseInt s bits = Inr n"
  shows "- (2 ^ (bits - 1)) \<le> n \<and> n < 2 ^ (bits - 1)"
proof -
  obtain neg ds where sg: "split_sign s = (neg, ds)" by (cases "split_sign s")
  define m where "m = int (digits_val 0 ds)"
  have p: "0 \<le> m" "(0::int) < 2 ^ (bits - 1)" by (simp_all add: m_def)
  show ?thesis
  proof (cases neg)
    case True
    with assms sg have "m \<le> 2 ^ (bits - 1)" "n = - m"
      by (auto simp: ParseInt_def m_def Let_def split: if_splits)
    with p show ?thesis by linarith
  next
    case False
    with assms sg have "m < 2 ^ (bits - 1)" "n = m"
      by (auto simp: ParseInt_def m_def Let_def split: if_splits)
    with p show ?thesis by linarith
  qed
qed

lemma ParseUint_bounds: "ParseUint s bits = Inr n \<Longrightarrow> 0 \<le> n \<and> n < 2 ^ bits"
  by (auto simp: ParseUint_def split: if_splits)

subsection \<open>Laws of SplitHostPort, EncodeToString and TrimSpace\<close>

lemma index_byte_None: "index_byte c s = None \<longleftrightarrow> c \<notin> set s"
  by (induction s) auto

lemma last_index_byte_None: "last_index_byte c s = None \<longleftrightarrow> c \<notin> set s"
  by (induction s) (auto split: option.splits)

lemma last_index_byte_append: "c \<notin> set t \<Longrightarrow> last_index_byte c (s @ c # t) = Some (length s)"
proof (induction s)
  case Nil
  then show ?case by (auto simp: last_index_byte_None split: option.splits)
qed simp

lemma SplitHostPort_ipv4 [go_simps]:
  assumes "h \<noteq> []" "\<forall>c \<in> {CHR '':'', CHR ''['', CHR '']''}. c \<notin> set h \<and> c \<notin> set p"
  shows "SplitHostPort (h @ CHR '':'' # p) = Inr (h, p)"
proof -
  have h0: "(h @ CHR '':'' # p) ! 0 \<noteq> CHR ''[''"
    using assms by (cases h) auto
  show ?thesis
    using assms h0
    by (simp add: SplitHostPort_def last_index_byte_append brackets_ok_def index_byte_None)
qed

lemma length_EncodeToString [simp]: "length (EncodeToString bs) = 2 * length bs"
  by (induction bs) auto

lemma hex_digit_cases:
  assumes "n < 16" shows "hex_digit n \<in> set ''0123456789abcdef''"
proof -
  have "list_all (\<lambda>n. hex_digit n \<in> set ''0123456789abcdef'') [0..<16]" by code_simp
  with assms show ?thesis by (simp add: list_all_iff)
qed

lemma EncodeToString_hex: "set (EncodeToString bs) \<subseteq> set ''0123456789abcdef''"
proof (induction bs)
  case (Cons b bs)
  have "unat b < 256" using unsigned_less [of b, where ?'a = nat] by simp
  then have "unat b div 16 < 16" "unat b mod 16 < 16" by auto
  with Cons hex_digit_cases show ?case by auto
qed simp

end
