(* ===== verification/Float64.thy ===== *)
theory Float64
  imports Prelude
begin

text \<open>
  Go's \<open>float64\<close> as far as the services use it: values are stored, passed on and compared, and
  nothing is computed with them. A finite double is a rational number (both zeros are \<open>0\<close>, which
  they equal in every comparison); the infinities and NaN are separate, since a \<open>NUMERIC\<close> column
  can hold them. The order is IEEE's: every comparison with NaN is false, so it is no linear order.
\<close>

datatype float64 = Finite rat | PosInf | NegInf | NaN

fun float64_less :: "float64 \<Rightarrow> float64 \<Rightarrow> bool" where
  "float64_less NaN _ = False"
| "float64_less _ NaN = False"
| "float64_less (Finite x) (Finite y) = (x < y)"
| "float64_less PosInf _ = False"
| "float64_less _ PosInf = True"
| "float64_less _ NegInf = False"
| "float64_less NegInf _ = True"

fun float64_eq :: "float64 \<Rightarrow> float64 \<Rightarrow> bool" where
  "float64_eq NaN _ = False"
| "float64_eq x y = (x = y)"

instantiation float64 :: ord
begin

definition less_float64_def: "x < y = float64_less x y"

definition less_eq_float64_def: "x \<le> y = (float64_less x y \<or> float64_eq x y)"

instance ..

end

definition is_NaN :: "float64 \<Rightarrow> bool" where
  "is_NaN x \<longleftrightarrow> x = NaN"

lemma float64_finite_order [simp]:
  "Finite x < Finite y \<longleftrightarrow> x < y" "Finite x \<le> Finite y \<longleftrightarrow> x \<le> y"
  by (auto simp: less_float64_def less_eq_float64_def)

lemma float64_NaN_order [simp]:
  "\<not> NaN < x" "\<not> x < NaN" "\<not> NaN \<le> x" "\<not> x \<le> NaN"
  by (cases x; simp add: less_float64_def less_eq_float64_def)+

lemma float64_le_iff_not_less: "\<not> is_NaN x \<Longrightarrow> \<not> is_NaN y \<Longrightarrow> x \<le> y \<longleftrightarrow> \<not> y < x"
  by (cases x; cases y) (auto simp: less_float64_def less_eq_float64_def is_NaN_def)

lemma float64_less_iff_not_le:
  "x < y \<longleftrightarrow> \<not> is_NaN x \<and> \<not> is_NaN y \<and> \<not> y \<le> x"
  by (cases x; cases y) (auto simp: less_float64_def less_eq_float64_def is_NaN_def)

lemma float64_le_not_NaN: "x \<le> y \<Longrightarrow> \<not> is_NaN x \<and> \<not> is_NaN y"
  by (auto simp: is_NaN_def)

lemma float64_less_trans: "x < y \<Longrightarrow> y < z \<Longrightarrow> x < (z :: float64)"
  by (cases x; cases y; cases z) (auto simp: less_float64_def)

lemma float64_le_less_trans: "x \<le> y \<Longrightarrow> y < z \<Longrightarrow> x < (z :: float64)"
  by (cases x; cases y; cases z) (auto simp: less_float64_def less_eq_float64_def)

end
