(* ===== verification/Json.thy ===== *)
theory Json
  imports GoStd Float64
begin

text \<open>
  JSON values and how \<open>encoding/json\<close> stores one into a Go struct. The text layer (scanning
  bytes into a value, rounding a number literal to a \<open>float64\<close>, reading RFC 3339 timestamps and
  decimal floats) is the parameter \<open>codec\<close>; the mapping of a value onto struct fields is modelled:
  fields are found by exact or case-folded name, a missing field keeps its zero value, \<open>null\<close>
  leaves a scalar unchanged and empties a map, a value of the wrong type is an error, later
  duplicates of a key overwrite earlier ones.
\<close>

datatype json =
    JNull
  | JBool bool
  | JNum "float64 option" \<comment> \<open>\<open>None\<close>: a literal outside the range of \<open>float64\<close>\<close>
  | JStr string
  | JArr "json list"
  | JObj "(string \<times> json) list"

text \<open>
  \<open>parse_all\<close> is the syntax pass of \<open>json.Unmarshal\<close> over the whole input, \<open>parse_first\<close> that of
  \<open>Decoder.Decode\<close> for the first value of a stream, \<open>strict_RFC3339\<close> what
  \<open>Time.UnmarshalJSON\<close> accepts, \<open>parse_RFC3339\<close> \<open>time.Parse(time.RFC3339, s)\<close>, \<open>ParseFloat\<close>
  \<open>strconv.ParseFloat(s, 64)\<close>; \<open>None\<close> is an error.
\<close>

record codec =
  parse_all :: "string \<Rightarrow> json option"
  parse_first :: "string \<Rightarrow> json option"
  strict_RFC3339 :: "string \<Rightarrow> time option"
  parse_RFC3339 :: "string \<Rightarrow> time option"
  ParseFloat :: "string \<Rightarrow> float64 option"

subsection \<open>Decoding into fields\<close>

text \<open>
  The case folding of field names: ASCII letters to upper case, and the two non-ASCII code points
  that fold to ASCII letters (U+017F to S and U+212A to K, in UTF-8).
\<close>

fun foldName :: "string \<Rightarrow> string" where
  "foldName [] = []"
| "foldName (c # cs) =
     (if c = CHR 0xC5 \<and> take 1 cs = [CHR 0xBF] then CHR ''S'' # foldName (drop 1 cs)
      else if c = CHR 0xE2 \<and> take 2 cs = [CHR 0x84, CHR 0xAA] then CHR ''K'' # foldName (drop 2 cs)
      else upper_char c # foldName cs)"

text \<open>
  The struct field a key denotes: the field of exactly that name, otherwise the first one whose
  name agrees up to case.
\<close>

definition field_for :: "string list \<Rightarrow> string \<Rightarrow> string option" where
  "field_for names key =
     (if key \<in> set names then Some key else List.find (\<lambda>n. foldName n = foldName key) names)"

definition decode_string :: "json \<Rightarrow> string \<Rightarrow> string option" where
  "decode_string j old = (case j of JStr s \<Rightarrow> Some s | JNull \<Rightarrow> Some old | _ \<Rightarrow> None)"

definition decode_float :: "json \<Rightarrow> float64 \<Rightarrow> float64 option" where
  "decode_float j old = (case j of JNum x \<Rightarrow> x | JNull \<Rightarrow> Some old | _ \<Rightarrow> None)"

definition decode_bool_ptr :: "json \<Rightarrow> bool option \<Rightarrow> bool option option" where
  "decode_bool_ptr j old = (case j of JBool b \<Rightarrow> Some (Some b) | JNull \<Rightarrow> Some None | _ \<Rightarrow> None)"

definition decode_time :: "codec \<Rightarrow> json \<Rightarrow> time \<Rightarrow> time option" where
  "decode_time cd j old = (case j of JStr s \<Rightarrow> strict_RFC3339 cd s | JNull \<Rightarrow> Some old | _ \<Rightarrow> None)"

text \<open>A \<open>map[string]float64\<close>: an element that is \<open>null\<close> is stored as the zero value.\<close>

fun decode_float_map :: "(string \<times> json) list \<Rightarrow> (string \<times> float64) list \<Rightarrow> (string \<times> float64) list option" where
  "decode_float_map [] m = Some m"
| "decode_float_map ((k, j) # kvs) m =
     (case decode_float j (Finite 0) of None \<Rightarrow> None | Some x \<Rightarrow> decode_float_map kvs (AList.update k x m))"

definition decode_readings :: "json \<Rightarrow> (string \<times> float64) list \<Rightarrow> (string \<times> float64) list option" where
  "decode_readings j old =
     (case j of JNull \<Rightarrow> Some [] | JObj kvs \<Rightarrow> decode_float_map kvs old | _ \<Rightarrow> None)"

text \<open>Decoding an object into a struct: \<open>set\<close> stores the value of one known field.\<close>

fun decode_fields :: "string list \<Rightarrow> (string \<Rightarrow> json \<Rightarrow> 's \<Rightarrow> 's option) \<Rightarrow> (string \<times> json) list \<Rightarrow> 's \<Rightarrow> 's option" where
  "decode_fields names setf [] s = Some s"
| "decode_fields names setf ((k, j) # kvs) s =
     (case field_for names k of
        None \<Rightarrow> decode_fields names setf kvs s
      | Some f \<Rightarrow> (case setf f j s of None \<Rightarrow> None | Some s' \<Rightarrow> decode_fields names setf kvs s'))"

definition decode_struct :: "string list \<Rightarrow> (string \<Rightarrow> json \<Rightarrow> 's \<Rightarrow> 's option) \<Rightarrow> json \<Rightarrow> 's \<Rightarrow> 's option" where
  "decode_struct names setf j s =
     (case j of JNull \<Rightarrow> Some s | JObj kvs \<Rightarrow> decode_fields names setf kvs s | _ \<Rightarrow> None)"

subsection \<open>Laws\<close>

lemma field_for_exact [simp]: "key \<in> set names \<Longrightarrow> field_for names key = Some key"
  by (simp add: field_for_def)

lemma field_for_Some: "field_for names key = Some f \<Longrightarrow> f \<in> set names"
  by (auto simp: field_for_def find_Some_iff split: if_splits)

lemma decode_float_map_keys_distinct:
  "decode_float_map kvs m = Some m' \<Longrightarrow> distinct (map fst m) \<Longrightarrow> distinct (map fst m')"
  by (induction kvs m rule: decode_float_map.induct) (auto split: option.splits simp: distinct_update)

lemma decode_float_map_lookup:
  "decode_float_map kvs m = Some m' \<Longrightarrow> map_of m' k =
     (case map_of (rev kvs) k of Some j \<Rightarrow> decode_float j (Finite 0) | None \<Rightarrow> map_of m k)"
proof (induction kvs m rule: decode_float_map.induct)
  case (2 k' j kvs m)
  then show ?case by (auto split: option.splits simp: update_conv' map_add_def)
qed simp

text \<open>An object with distinct keys is read back as it was written.\<close>

lemma decode_float_map_roundtrip:
  "distinct (map fst (m @ kvs)) \<Longrightarrow>
   decode_float_map (map (\<lambda>(k, x). (k, JNum (Some x))) kvs) m = Some (m @ kvs)"
proof (induction kvs arbitrary: m)
  case (Cons p kvs)
  obtain k x where p: "p = (k, x)" by (cases p)
  with Cons.prems have "k \<notin> fst ` set m" by auto
  then have "AList.update k x m = m @ [(k, x)]" by (simp add: alist_update_new)
  with Cons p show ?case by (simp add: decode_float_def)
qed simp

end
