(* ===== verification/Models.thy ===== *)
theory Models
  imports Float64
begin

text \<open>
  The data of the platform: the structs of \<open>api/models.go\<close> (which are also the columns of the
  tables \<open>devices\<close>, \<open>alert_rules\<close> and \<open>alerts\<close> of \<open>infra/postgres/init.sql\<close>) and the order in
  which an alert moves through its statuses.
\<close>

record Site =
  site_ID :: string
  site_Name :: string
  site_Type :: string
  site_Location :: string

record Device =
  dev_ID :: string
  dev_SiteID :: string
  dev_Name :: string
  dev_Type :: string
  dev_LastSeenAt :: "time option"

record TelemetryPoint =
  tp_DeviceID :: string
  tp_Readings :: "(string \<times> float64) list"
  tp_Ts :: time
  tp_ReceivedAt :: time

record AlertRule =
  ar_ID :: string
  ar_DeviceID :: string
  ar_Metric :: string
  ar_Operator :: string
  ar_Threshold :: float64
  ar_Severity :: string
  ar_Enabled :: bool

record AlertRuleInput =
  in_DeviceID :: string
  in_Metric :: string
  in_Operator :: string
  in_Threshold :: float64
  in_Severity :: string
  in_Enabled :: "bool option"

record Alert =
  al_ID :: string
  al_AlertRuleID :: string
  al_DeviceID :: string
  al_TriggeredValue :: float64
  al_Severity :: string
  al_Status :: string
  al_TriggeredAt :: time
  al_AcknowledgedAt :: "time option"
  al_AcknowledgedBy :: "string option"
  al_ResolvedAt :: "time option"
  al_ResolvedBy :: "string option"

record AckInput =
  ack_UserID :: string

subsection \<open>The life cycle of an alert\<close>

datatype alert_phase = Open | Acknowledged | Resolved

instantiation alert_phase :: linorder
begin

fun phase_rank :: "alert_phase \<Rightarrow> nat" where
  "phase_rank Open = 0"
| "phase_rank Acknowledged = 1"
| "phase_rank Resolved = 2"

definition less_eq_alert_phase_def: "p \<le> q \<longleftrightarrow> phase_rank p \<le> phase_rank q"

definition less_alert_phase_def: "p < q \<longleftrightarrow> phase_rank p < phase_rank q"

instance
proof
  fix p q :: alert_phase
  show "p \<le> q \<Longrightarrow> q \<le> p \<Longrightarrow> p = q"
    by (cases p; cases q) (simp_all add: less_eq_alert_phase_def)
qed (auto simp: less_eq_alert_phase_def less_alert_phase_def)

end

definition phase_of :: "Alert \<Rightarrow> alert_phase" where
  "phase_of a = (if al_Status a = ''open'' then Open
     else if al_Status a = ''acknowledged'' then Acknowledged else Resolved)"

definition is_active :: "Alert \<Rightarrow> bool" where
  "is_active a \<longleftrightarrow> al_Status a \<in> {''open'', ''acknowledged''}"

text \<open>
  The timestamps and users an alert carries agree with its status: they are filled in by the
  transition that reaches the status and not before.
\<close>

definition lifecycle_ok :: "Alert \<Rightarrow> bool" where
  "lifecycle_ok a \<longleftrightarrow>
     al_Status a \<in> {''open'', ''acknowledged'', ''resolved''} \<and>
     (al_Status a = ''open'' \<longrightarrow> al_AcknowledgedAt a = None \<and> al_AcknowledgedBy a = None) \<and>
     (al_Status a = ''acknowledged'' \<longrightarrow> al_AcknowledgedAt a \<noteq> None \<and> al_AcknowledgedBy a \<noteq> None) \<and>
     (al_Status a = ''resolved'' \<longleftrightarrow> al_ResolvedAt a \<noteq> None) \<and>
     (al_ResolvedBy a \<noteq> None \<longrightarrow> al_Status a = ''resolved'')"

text \<open>How an alert may change: what it is about is fixed, its phase only advances, a resolved alert
  never changes again, and a recorded acknowledgement is never lost.\<close>

definition alert_evolves :: "Alert \<Rightarrow> Alert \<Rightarrow> bool" where
  "alert_evolves a b \<longleftrightarrow>
     al_ID b = al_ID a \<and> al_AlertRuleID b = al_AlertRuleID a \<and> al_DeviceID b = al_DeviceID a \<and>
     al_TriggeredValue b = al_TriggeredValue a \<and> al_Severity b = al_Severity a \<and>
     al_TriggeredAt b = al_TriggeredAt a \<and> phase_of a \<le> phase_of b \<and>
     (phase_of a = Resolved \<longrightarrow> b = a) \<and>
     (phase_of a \<noteq> Open \<longrightarrow>
        al_AcknowledgedAt b = al_AcknowledgedAt a \<and> al_AcknowledgedBy b = al_AcknowledgedBy a)"

lemma alert_evolves_refl [simp]: "alert_evolves a a"
  by (simp add: alert_evolves_def)

lemma alert_evolves_trans: "alert_evolves a b \<Longrightarrow> alert_evolves b c \<Longrightarrow> alert_evolves a c"
  unfolding alert_evolves_def by (cases "phase_of a"; cases "phase_of b") (auto simp: less_eq_alert_phase_def)

lemma is_active_phase: "lifecycle_ok a \<Longrightarrow> is_active a \<longleftrightarrow> phase_of a < Resolved"
  by (auto simp: is_active_def phase_of_def lifecycle_ok_def less_alert_phase_def)

end
