(* ===== verification/Postgres.thy ===== *)
theory Postgres
  imports Models "HOL-Library.List_Lexorder" "HOL-Library.Multiset"
begin

text \<open>
  The PostgreSQL side: the tables of \<open>infra/postgres/init.sql\<close> with their constraints, and how a
  statement or query of the services runs against them. What the server and the driver decide is
  a parameter: \<open>pgenv\<close> (reading a UUID argument, which byte strings are valid text,
  \<open>gen_random_uuid()\<close>, the collation behind \<open>ORDER BY\<close> on text, the order of unordered rows) and, per statement, a \<open>fault\<close>: none, a failure
  before the statement took effect, a failure reported after it took effect, a row stream that
  breaks off, or a row that cannot be scanned. Faults are consumed from a list, so a statement
  about every list covers every pattern of failures; an exhausted list means no further faults.
\<close>

subsection \<open>Parameters\<close>

record pgenv =
  uuid_parse :: "string \<Rightarrow> string option"
  text_valid :: "string \<Rightarrow> bool"
  gen_random_uuid :: "nat \<Rightarrow> string"
  collation_key :: "string \<Rightarrow> nat list"
  scan_order :: "nat \<Rightarrow> nat list"

text \<open>
  What the services rely on: the server maps every accepted UUID text to one canonical text, the
  generated ids are such texts, and rows come back in some order, each once.
\<close>

definition pgenv_ok :: "pgenv \<Rightarrow> bool" where
  "pgenv_ok E \<longleftrightarrow>
     (\<forall>s u. uuid_parse E s = Some u \<longrightarrow> uuid_parse E u = Some u) \<and>
     (\<forall>n. uuid_parse E (gen_random_uuid E n) = Some (gen_random_uuid E n)) \<and>
     (\<forall>n. mset (scan_order E n) = mset [0..<n])"

definition in_scan_order :: "pgenv \<Rightarrow> 'a list \<Rightarrow> 'a list" where
  "in_scan_order E xs = map (\<lambda>i. xs ! i) (scan_order E (length xs))"

datatype fault = Ok | Fail string | Lost string | Cut nat string | BadScan nat string

datatype pgerr = ErrNoRows | PgError string | ClientErr string

abbreviation check_violation :: pgerr where "check_violation \<equiv> PgError ''23514''"
abbreviation unique_violation :: pgerr where "unique_violation \<equiv> PgError ''23505''"
abbreviation foreign_key_violation :: pgerr where "foreign_key_violation \<equiv> PgError ''23503''"
abbreviation invalid_uuid :: pgerr where "invalid_uuid \<equiv> PgError ''22P02''"
abbreviation invalid_text :: pgerr where "invalid_text \<equiv> PgError ''22021''"

subsection \<open>Tables\<close>

record SiteRow =
  sr_id :: string
  sr_name :: string
  sr_type :: string
  sr_location :: "string option"

record pgdb =
  sites :: "SiteRow list"
  devices :: "Device list"
  alert_rules :: "AlertRule list"
  users :: "string list"
  alerts :: "Alert list"
  uuids_drawn :: nat

text \<open>A \<open>TIMESTAMPTZ\<close> column has microsecond resolution.\<close>

definition timestamptz :: "time \<Rightarrow> time" where
  "timestamptz t = t div 1000 * 1000"

definition site_types :: "string list" where
  "site_types = [''data_center'', ''building'', ''factory'']"

definition device_types :: "string list" where
  "device_types = [''smart_meter'', ''temp_sensor'', ''humidity_sensor'', ''ups'', ''hvac'']"

definition operators :: "string list" where
  "operators = [''gt'', ''gte'', ''lt'', ''lte'']"

definition severities :: "string list" where
  "severities = [''warning'', ''critical'']"

definition statuses :: "string list" where
  "statuses = [''open'', ''acknowledged'', ''resolved'']"

text \<open>The row constraints of the tables: foreign keys and \<open>CHECK\<close>s.\<close>

definition device_row_ok :: "SiteRow list \<Rightarrow> Device \<Rightarrow> bool" where
  "device_row_ok ss d \<longleftrightarrow> dev_SiteID d \<in> sr_id ` set ss \<and> dev_Type d \<in> set device_types"

definition rule_row_ok :: "pgdb \<Rightarrow> AlertRule \<Rightarrow> bool" where
  "rule_row_ok db r \<longleftrightarrow> ar_DeviceID r \<in> dev_ID ` set (devices db) \<and>
     ar_Operator r \<in> set operators \<and> ar_Severity r \<in> set severities"

definition alert_row_ok :: "pgdb \<Rightarrow> Alert \<Rightarrow> bool" where
  "alert_row_ok db a \<longleftrightarrow>
     al_AlertRuleID a \<in> ar_ID ` set (alert_rules db) \<and> al_DeviceID a \<in> dev_ID ` set (devices db) \<and>
     al_Severity a \<in> set severities \<and> al_Status a \<in> set statuses \<and>
     set_option (al_AcknowledgedBy a) \<subseteq> set (users db) \<and> set_option (al_ResolvedBy a) \<subseteq> set (users db)"

definition all_ids :: "pgdb \<Rightarrow> string list" where
  "all_ids db = map sr_id (sites db) @ map dev_ID (devices db) @ map ar_ID (alert_rules db) @
     users db @ map al_ID (alerts db)"

definition schema_ok :: "pgenv \<Rightarrow> pgdb \<Rightarrow> bool" where
  "schema_ok E db \<longleftrightarrow>
     distinct (map sr_id (sites db)) \<and> distinct (map dev_ID (devices db)) \<and>
     distinct (map ar_ID (alert_rules db)) \<and> distinct (users db) \<and> distinct (map al_ID (alerts db)) \<and>
     list_all (\<lambda>s. sr_type s \<in> set site_types) (sites db) \<and> list_all (device_row_ok (sites db)) (devices db) \<and>
     list_all (rule_row_ok db) (alert_rules db) \<and> list_all (alert_row_ok db) (alerts db) \<and>
     list_all (\<lambda>i. uuid_parse E i = Some i) (all_ids db)"

subsection \<open>Running statements and queries\<close>

record TelemetryDoc =
  td_device_id :: string
  td_site_id :: string
  td_device_type :: string
  td_readings :: "(string \<times> float64) list"
  td_ts :: time
  td_received_at :: time

text \<open>
  The outside world of a service: both databases, the faults still to come and the time the
  process has slept, in order.
\<close>

record world =
  w_db :: pgdb
  w_telemetry :: "TelemetryDoc list"
  w_faults :: "fault list"
  w_slept :: "duration list"

definition next_fault :: "world \<Rightarrow> fault \<times> world" where
  "next_fault w = (case w_faults w of [] \<Rightarrow> (Ok, w) | f # fs \<Rightarrow> (f, w\<lparr>w_faults := fs\<rparr>))"

text \<open>
  \<open>Exec\<close> and \<open>QueryRow(...).Scan\<close>: one statement, committed on its own. A lost reply hides the
  server's answer, error or not; a row that cannot be scanned needs a row.
\<close>

definition run_stmt :: "(pgdb \<Rightarrow> pgerr + 'a \<times> pgdb) \<Rightarrow> world \<Rightarrow> (pgerr + 'a) \<times> world" where
  "run_stmt f w0 =
     (let (ft, w) = next_fault w0 in
      case ft of
        Fail m \<Rightarrow> (Inl (ClientErr m), w)
      | _ \<Rightarrow>
        (case f (w_db w) of
           Inl e \<Rightarrow> (Inl (case ft of Lost m \<Rightarrow> ClientErr m | Cut _ m \<Rightarrow> ClientErr m | _ \<Rightarrow> e), w)
         | Inr (x, db') \<Rightarrow>
             ((case ft of Ok \<Rightarrow> Inr x | Lost m \<Rightarrow> Inl (ClientErr m) | Cut _ m \<Rightarrow> Inl (ClientErr m)
               | BadScan _ m \<Rightarrow> Inl (ClientErr m) | Fail m \<Rightarrow> Inl (ClientErr m)),
              w\<lparr>w_db := db'\<rparr>)))"

text \<open>
  \<open>Query\<close>: a stream of rows that ends normally, with a stream error, or at a failing \<open>Scan\<close>. As the
  driver documents, \<open>Query\<close> itself returns only errors of sending; an error of the server in
  executing the statement ends the stream and is reported by \<open>Rows.Err\<close>.
\<close>

datatype rows_end = RowsDone | RowsErr pgerr | ScanErr pgerr

record 'a rows =
  row_items :: "'a list"
  row_end :: rows_end

definition run_query :: "(pgdb \<Rightarrow> pgerr + 'a list) \<Rightarrow> world \<Rightarrow> (pgerr + 'a rows) \<times> world" where
  "run_query q w0 =
     (let (ft, w) = next_fault w0 in
      case ft of
        Fail m \<Rightarrow> (Inl (ClientErr m), w)
      | Lost m \<Rightarrow> (Inl (ClientErr m), w)
      | _ \<Rightarrow>
        (case q (w_db w) of
           Inl e \<Rightarrow> (Inr \<lparr>row_items = [], row_end = RowsErr e\<rparr>, w)
         | Inr xs \<Rightarrow>
             (Inr (case ft of
                Cut n m \<Rightarrow> \<lparr>row_items = take n xs, row_end = RowsErr (ClientErr m)\<rparr>
              | BadScan n m \<Rightarrow>
                  if n < length xs then \<lparr>row_items = take n xs, row_end = ScanErr (ClientErr m)\<rparr>
                  else \<lparr>row_items = xs, row_end = RowsDone\<rparr>
              | _ \<Rightarrow> \<lparr>row_items = xs, row_end = RowsDone\<rparr>), w)))"

text \<open>The loop \<open>for rows.Next() { rows.Scan ... }\<close>, and \<open>rows.Err()\<close> after it.\<close>

definition scan_rows :: "'a rows \<Rightarrow> pgerr + 'a list" where
  "scan_rows rs = (case row_end rs of ScanErr e \<Rightarrow> Inl e | _ \<Rightarrow> Inr (row_items rs))"

definition rows_Err :: "'a rows \<Rightarrow> pgerr option" where
  "rows_Err rs = (case row_end rs of RowsErr e \<Rightarrow> Some e | _ \<Rightarrow> None)"

text \<open>A statement that rewrites the alerts that satisfy a condition (\<open>UPDATE alerts SET ... WHERE\<close>).\<close>

definition update_alerts :: "(Alert \<Rightarrow> bool) \<Rightarrow> (Alert \<Rightarrow> Alert) \<Rightarrow> pgdb \<Rightarrow> pgdb" where
  "update_alerts P f db = db\<lparr>alerts := map (\<lambda>a. if P a then f a else a) (alerts db)\<rparr>"

subsection \<open>The application's own invariants\<close>

definition active_count :: "string \<Rightarrow> pgdb \<Rightarrow> nat" where
  "active_count i db = length (filter (\<lambda>a. al_AlertRuleID a = i \<and> is_active a) (alerts db))"

definition one_active :: "pgdb \<Rightarrow> bool" where
  "one_active db \<longleftrightarrow> (\<forall>i. active_count i db \<le> 1)"

definition alert_devices_ok :: "pgdb \<Rightarrow> bool" where
  "alert_devices_ok db \<longleftrightarrow>
     (\<forall>a \<in> set (alerts db). \<forall>r \<in> set (alert_rules db). ar_ID r = al_AlertRuleID a \<longrightarrow> ar_DeviceID r = al_DeviceID a)"

definition db_ok :: "pgenv \<Rightarrow> pgdb \<Rightarrow> bool" where
  "db_ok E db \<longleftrightarrow> schema_ok E db \<and> alert_devices_ok db \<and> list_all lifecycle_ok (alerts db)"

text \<open>\<open>gen_random_uuid()\<close> never repeats itself or hits an id in use.\<close>

definition ids_fresh :: "pgenv \<Rightarrow> pgdb \<Rightarrow> bool" where
  "ids_fresh E db \<longleftrightarrow> inj (gen_random_uuid E) \<and>
     (\<forall>n \<ge> uuids_drawn db. gen_random_uuid E n \<notin> al_ID ` set (alerts db) \<union> ar_ID ` set (alert_rules db))"

text \<open>How the database may change: no alert disappears or moves, each only evolves.\<close>

definition db_evolves :: "pgdb \<Rightarrow> pgdb \<Rightarrow> bool" where
  "db_evolves db db' \<longleftrightarrow>
     length (alerts db) \<le> length (alerts db') \<and>
     (\<forall>k < length (alerts db). alert_evolves (alerts db ! k) (alerts db' ! k))"

subsection \<open>Lemmas: the parameters\<close>

lemma mset_in_scan_order: "pgenv_ok E \<Longrightarrow> mset (in_scan_order E xs) = mset xs"
proof -
  assume "pgenv_ok E"
  then have "mset (scan_order E (length xs)) = mset [0..<length xs]" by (simp add: pgenv_ok_def)
  then have "mset (in_scan_order E xs) = mset (map (\<lambda>i. xs ! i) [0..<length xs])"
    by (simp only: in_scan_order_def mset_map)
  then show ?thesis by (simp add: map_nth)
qed

lemma set_in_scan_order [simp]: "pgenv_ok E \<Longrightarrow> set (in_scan_order E xs) = set xs"
  by (metis mset_in_scan_order set_mset_mset)

lemma length_in_scan_order [simp]: "pgenv_ok E \<Longrightarrow> length (in_scan_order E xs) = length xs"
  by (metis mset_in_scan_order size_mset)

lemma distinct_map_in_scan_order:
  "pgenv_ok E \<Longrightarrow> distinct (map f (in_scan_order E xs)) \<longleftrightarrow> distinct (map f xs)"
  by (metis mset_in_scan_order mset_map mset_eq_imp_distinct_iff)

lemma mset_filter_in_scan_order:
  "pgenv_ok E \<Longrightarrow> mset (filter P (in_scan_order E xs)) = mset (filter P xs)"
  by (simp add: mset_in_scan_order)

lemma uuid_parse_idem: "pgenv_ok E \<Longrightarrow> uuid_parse E s = Some u \<Longrightarrow> uuid_parse E u = Some u"
  by (auto simp: pgenv_ok_def)

lemma uuid_parse_gen: "pgenv_ok E \<Longrightarrow> uuid_parse E (gen_random_uuid E n) = Some (gen_random_uuid E n)"
  by (simp add: pgenv_ok_def)

subsection \<open>Lemmas: running statements\<close>

lemma next_fault_frame [simp]:
  "w_db (snd (next_fault w)) = w_db w" "w_telemetry (snd (next_fault w)) = w_telemetry w"
  "w_slept (snd (next_fault w)) = w_slept w"
  by (simp_all add: next_fault_def split: list.split)

lemma next_faultD:
  "next_fault w = (ft, w') \<Longrightarrow> w_db w' = w_db w \<and> w_telemetry w' = w_telemetry w \<and> w_slept w' = w_slept w"
  by (metis next_fault_frame snd_conv)

lemma next_fault_none [simp]: "w_faults w = [] \<Longrightarrow> next_fault w = (Ok, w)"
  by (simp add: next_fault_def)

lemma run_stmt_frame [simp]:
  "w_telemetry (snd (run_stmt f w)) = w_telemetry w" "w_slept (snd (run_stmt f w)) = w_slept w"
  by (auto dest!: next_faultD simp: run_stmt_def Let_def split: prod.splits fault.splits sum.splits)

lemma run_stmt_db:
  "w_db (snd (run_stmt f w)) = w_db w \<or> (\<exists>x. f (w_db w) = Inr (x, w_db (snd (run_stmt f w))))"
  by (auto dest!: next_faultD simp: run_stmt_def Let_def split: prod.splits fault.splits sum.splits)

lemma run_stmt_Inr:
  "fst (run_stmt f w) = Inr x \<Longrightarrow> f (w_db w) = Inr (x, w_db (snd (run_stmt f w)))"
  by (auto dest!: next_faultD simp: run_stmt_def Let_def split: prod.splits fault.splits sum.splits)

lemma run_stmt_no_fault [pg_simps]:
  "w_faults w = [] \<Longrightarrow> run_stmt f w =
     (case f (w_db w) of Inl e \<Rightarrow> (Inl e, w) | Inr (x, d) \<Rightarrow> (Inr x, w\<lparr>w_db := d\<rparr>))"
  by (simp add: run_stmt_def split: sum.split)

lemma run_stmt_faults_nil: "w_faults w = [] \<Longrightarrow> w_faults (snd (run_stmt f w)) = []"
  by (simp add: run_stmt_no_fault split: sum.split prod.split)

lemma run_query_frame [simp]:
  "w_db (snd (run_query q w)) = w_db w" "w_telemetry (snd (run_query q w)) = w_telemetry w"
  "w_slept (snd (run_query q w)) = w_slept w"
  by (auto dest!: next_faultD simp: run_query_def Let_def split: prod.splits fault.splits sum.splits)

lemma run_query_no_fault [pg_simps]:
  "w_faults w = [] \<Longrightarrow> run_query q w =
     (case q (w_db w) of Inl e \<Rightarrow> (Inr \<lparr>row_items = [], row_end = RowsErr e\<rparr>, w)
      | Inr xs \<Rightarrow> (Inr \<lparr>row_items = xs, row_end = RowsDone\<rparr>, w))"
  by (simp add: run_query_def split: sum.split)

lemma run_query_complete:
  "fst (run_query q w) = Inr rs \<Longrightarrow> row_end rs = RowsDone \<Longrightarrow> q (w_db w) = Inr (row_items rs)"
  by (auto dest!: next_faultD simp: run_query_def Let_def split: prod.splits fault.splits sum.splits if_splits)

lemma run_query_prefix:
  "fst (run_query q w) = Inr rs \<Longrightarrow>
   row_items rs = [] \<or> (\<exists>xs. q (w_db w) = Inr xs \<and> row_items rs = take (length (row_items rs)) xs)"
  by (auto dest!: next_faultD simp: run_query_def Let_def min_def
      split: prod.splits fault.splits sum.splits if_splits)

lemma scan_rows_done [simp]:
  "scan_rows \<lparr>row_items = xs, row_end = RowsDone\<rparr> = Inr xs"
  "rows_Err \<lparr>row_items = xs, row_end = RowsDone\<rparr> = None"
  "scan_rows \<lparr>row_items = xs, row_end = RowsErr e\<rparr> = Inr xs"
  "rows_Err \<lparr>row_items = xs, row_end = RowsErr e\<rparr> = Some e"
  by (simp_all add: scan_rows_def rows_Err_def)

lemma scan_rows_complete:
  "scan_rows rs = Inr xs \<Longrightarrow> rows_Err rs = None \<Longrightarrow> row_end rs = RowsDone \<and> row_items rs = xs"
  by (auto simp: scan_rows_def rows_Err_def split: rows_end.splits)

subsection \<open>Lemmas: the invariants\<close>

lemma update_alerts_sel [simp]:
  "sites (update_alerts P f db) = sites db" "devices (update_alerts P f db) = devices db"
  "alert_rules (update_alerts P f db) = alert_rules db" "users (update_alerts P f db) = users db"
  "alerts (update_alerts P f db) = map (\<lambda>a. if P a then f a else a) (alerts db)"
  "uuids_drawn (update_alerts P f db) = uuids_drawn db"
  by (simp_all add: update_alerts_def)

lemma db_evolves_refl [simp]: "db_evolves db db"
  by (simp add: db_evolves_def)

lemma db_evolves_trans: "db_evolves a b \<Longrightarrow> db_evolves b c \<Longrightarrow> db_evolves a c"
  unfolding db_evolves_def by (meson alert_evolves_trans order_trans less_le_trans)

lemma db_evolves_same_alerts: "alerts db' = alerts db \<Longrightarrow> db_evolves db db'"
  by (simp add: db_evolves_def)

lemma db_evolves_append: "alerts db' = alerts db @ as \<Longrightarrow> db_evolves db db'"
  by (simp add: db_evolves_def nth_append)

lemma db_evolves_update:
  "(\<And>a. a \<in> set (alerts db) \<Longrightarrow> P a \<Longrightarrow> alert_evolves a (f a)) \<Longrightarrow> db_evolves db (update_alerts P f db)"
  by (simp add: db_evolves_def)

lemma alert_row_ok_cong:
  "alert_rules db' = alert_rules db \<Longrightarrow> devices db' = devices db \<Longrightarrow> users db' = users db \<Longrightarrow>
   alert_row_ok db' = alert_row_ok db"
  by (intro ext) (simp add: alert_row_ok_def)

lemma rule_row_ok_cong: "devices db' = devices db \<Longrightarrow> rule_row_ok db' = rule_row_ok db"
  by (intro ext) (simp add: rule_row_ok_def)

lemma lifecycle_status: "lifecycle_ok a \<Longrightarrow> al_Status a \<in> set statuses"
  by (cases "al_Status a = ''resolved''") (auto simp: lifecycle_ok_def statuses_def)

lemma ids_fresh_update_alerts:
  "(\<And>a. al_ID (f a) = al_ID a) \<Longrightarrow> ids_fresh E (update_alerts P f db) \<longleftrightarrow> ids_fresh E db"
proof -
  assume "\<And>a. al_ID (f a) = al_ID a"
  then have "map al_ID (alerts (update_alerts P f db)) = map al_ID (alerts db)" by simp
  then have "al_ID ` set (alerts (update_alerts P f db)) = al_ID ` set (alerts db)" by (metis list.set_map)
  then show ?thesis by (simp add: ids_fresh_def del: update_alerts_sel(5))
qed

text \<open>An update that lets alerts evolve and names existing users only keeps the database well formed.\<close>

lemma db_ok_update_alerts:
  assumes db: "db_ok E db"
    and f: "\<And>a. a \<in> set (alerts db) \<Longrightarrow> P a \<Longrightarrow> alert_evolves a (f a) \<and> lifecycle_ok (f a) \<and>
      set_option (al_AcknowledgedBy (f a)) \<subseteq> set (users db) \<and> set_option (al_ResolvedBy (f a)) \<subseteq> set (users db)"
  shows "db_ok E (update_alerts P f db)"
proof -
  let ?g = "\<lambda>a. if P a then f a else a" and ?db = "update_alerts P f db"
  have ids: "map al_ID (alerts ?db) = map al_ID (alerts db)"
    using f by (auto simp: alert_evolves_def)
  have rows: "alert_row_ok ?db (?g a) \<and> lifecycle_ok (?g a)" if a: "a \<in> set (alerts db)" for a
  proof -
    from db a have "alert_row_ok db a" "lifecycle_ok a"
      by (auto simp: db_ok_def schema_ok_def list_all_iff)
    with f [OF a] show ?thesis
      by (auto simp: alert_row_ok_def alert_evolves_def dest: lifecycle_status)
  qed
  have "alert_devices_ok ?db"
    using db f by (fastforce simp: db_ok_def alert_devices_ok_def alert_evolves_def)
  moreover have "all_ids ?db = all_ids db" unfolding all_ids_def ids by simp
  moreover have "rule_row_ok ?db = rule_row_ok db" by (rule rule_row_ok_cong) simp
  moreover have "list_all (alert_row_ok ?db) (alerts ?db)" "list_all lifecycle_ok (alerts ?db)"
    unfolding update_alerts_sel list_all_iff set_map using rows by blast+
  ultimately show ?thesis
    using db unfolding db_ok_def schema_ok_def ids by (simp del: update_alerts_sel(5))
qed

lemma active_count_update:
  assumes "\<And>a. a \<in> set (alerts db) \<Longrightarrow> P a \<Longrightarrow> al_AlertRuleID (f a) = al_AlertRuleID a \<and> (is_active (f a) \<longrightarrow> is_active a)"
  shows "active_count i (update_alerts P f db) \<le> active_count i db"
proof -
  let ?g = "\<lambda>a. if P a then f a else a"
  let ?A = "\<lambda>a. al_AlertRuleID a = i \<and> is_active a"
  have "length (filter (\<lambda>a. ?A (?g a)) xs) \<le> length (filter ?A xs)" if "set xs \<subseteq> set (alerts db)" for xs
    using that assms by (induction xs) auto
  then show ?thesis by (simp add: active_count_def filter_map comp_def)
qed

lemma active_count_append:
  "alerts db' = alerts db @ [a] \<Longrightarrow>
   active_count i db' = active_count i db + (if al_AlertRuleID a = i \<and> is_active a then 1 else 0)"
  by (simp add: active_count_def)

lemma active_count_pos: "0 < active_count i db \<longleftrightarrow> (\<exists>a \<in> set (alerts db). al_AlertRuleID a = i \<and> is_active a)"
  by (auto simp: active_count_def filter_empty_conv)

end
