(* ===== verification/Shared.thy ===== *)
theory Shared
  imports GoStd
begin

text \<open>
  The module \<open>shared/\<close> both services use: correlation ids (\<open>correlation.go\<close>), connection pools and
  the telemetry index (\<open>db.go\<close>), and the Prometheus collector for pool statistics (\<open>metrics.go\<close>).
  The drivers (pgxpool, the MongoDB driver, the operating system's random source) are parameters.
\<close>

text \<open>\<open>os.Getenv\<close>: an unset variable reads as the empty string.\<close>

type_synonym env = "string \<Rightarrow> string"

subsection \<open>Correlation ids\<close>

text \<open>What \<open>rand.Read\<close> delivers for a buffer of the given length; \<open>None\<close> is its error.\<close>

type_synonym rand_source = "nat \<Rightarrow> 8 word list option"

definition NewCorrelationID :: "rand_source \<Rightarrow> string" where
  "NewCorrelationID rand_Read =
     (case rand_Read 8 of None \<Rightarrow> ''unavailable'' | Some buf \<Rightarrow> EncodeToString buf)"

subsection \<open>Connection pools\<close>

definition defaultMaxConns :: "32 word" where
  "defaultMaxConns = 10"

definition defaultMongoMaxPoolSize :: "64 word" where
  "defaultMongoMaxPoolSize = 20"

record pgx_config =
  cfg_conn :: string
  cfg_MaxConns :: "32 word"

datatype startup_error =
    ParsePostgresURL string
  | ConnectPostgres string
  | ConnectMongo string
  | EnsureIndex string

definition postgres_max_conns :: "env \<Rightarrow> 32 word" where
  "postgres_max_conns getenv =
     (let raw = getenv ''POSTGRES_MAX_CONNS'' in
      if raw \<noteq> [] then
        (case ParseInt raw 32 of
           Inr n \<Rightarrow> if n > 0 then word_of_int n else defaultMaxConns
         | Inl _ \<Rightarrow> defaultMaxConns)
      else defaultMaxConns)"

definition NewPostgresPool ::
  "(string \<Rightarrow> string + pgx_config) \<Rightarrow> (pgx_config \<Rightarrow> string + 'pool) \<Rightarrow> env \<Rightarrow> startup_error + 'pool" where
  "NewPostgresPool ParseConfig NewWithConfig getenv =
     (case ParseConfig (getenv ''POSTGRES_URL'') of
        Inl e \<Rightarrow> Inl (ParsePostgresURL e)
      | Inr cfg \<Rightarrow>
          (case NewWithConfig (cfg\<lparr>cfg_MaxConns := postgres_max_conns getenv\<rparr>) of
             Inl e \<Rightarrow> Inl (ConnectPostgres e)
           | Inr pool \<Rightarrow> Inr pool))"

definition mongo_pool_size :: "env \<Rightarrow> 64 word" where
  "mongo_pool_size getenv =
     (let raw = getenv ''MONGO_MAX_POOL_SIZE'' in
      if raw \<noteq> [] then
        (case ParseUint raw 32 of
           Inr n \<Rightarrow> if n > 0 then word_of_int n else defaultMongoMaxPoolSize
         | Inl _ \<Rightarrow> defaultMongoMaxPoolSize)
      else defaultMongoMaxPoolSize)"

definition NewMongoClient ::
  "(string \<Rightarrow> 64 word \<Rightarrow> string + 'client) \<Rightarrow> env \<Rightarrow> startup_error + 'client" where
  "NewMongoClient mongo_Connect getenv =
     (case mongo_Connect (getenv ''MONGO_URL'') (mongo_pool_size getenv) of
        Inl e \<Rightarrow> Inl (ConnectMongo e)
      | Inr client \<Rightarrow> Inr client)"

record index_model =
  ix_keys :: "(string \<times> int) list"
  ix_name :: string

definition telemetry_index :: index_model where
  "telemetry_index = \<lparr>ix_keys = [(''device_id'', 1), (''ts'', -1)], ix_name = ''device_id_ts''\<rparr>"

definition EnsureTelemetryIndexes ::
  "(string \<Rightarrow> string \<Rightarrow> index_model \<Rightarrow> 'm \<Rightarrow> string option \<times> 'm) \<Rightarrow> string \<Rightarrow> 'm \<Rightarrow> startup_error option \<times> 'm" where
  "EnsureTelemetryIndexes CreateOne dbName m =
     (case CreateOne dbName ''telemetry_raw'' telemetry_index m of
        (Some e, m') \<Rightarrow> (Some (EnsureIndex e), m')
      | (None, m') \<Rightarrow> (None, m'))"

subsection \<open>The pool collector\<close>

record pool_stat =
  AcquiredConns :: int
  IdleConns :: int
  TotalConns :: int
  MaxConns :: int
  NewConnsCount :: int
  AcquireCount :: int

datatype metric_type = GaugeValue | CounterValue

record prom_desc =
  desc_name :: string
  desc_help :: string
  desc_labels :: "(string \<times> string) list"

record PostgresPoolCollector =
  pc_subsystem :: string
  pc_acquired :: prom_desc
  pc_idle :: prom_desc
  pc_total :: prom_desc
  pc_maxConns :: prom_desc
  pc_newConns :: prom_desc
  pc_acquireCt :: prom_desc

definition pool_desc :: "string \<Rightarrow> string \<Rightarrow> string \<Rightarrow> prom_desc" where
  "pool_desc subsystem name help =
     \<lparr>desc_name = ''sitewatch_postgres_pool_'' @ name, desc_help = help, desc_labels = [(''service'', subsystem)]\<rparr>"

definition NewPostgresPoolCollector :: "string \<Rightarrow> PostgresPoolCollector" where
  "NewPostgresPoolCollector subsystem =
     \<lparr>pc_subsystem = subsystem,
      pc_acquired = pool_desc subsystem ''acquired_conns'' ''Connections currently checked out by the application'',
      pc_idle = pool_desc subsystem ''idle_conns'' ''Connections idle in the pool'',
      pc_total = pool_desc subsystem ''total_conns'' ''Total connections currently open (acquired + idle)'',
      pc_maxConns = pool_desc subsystem ''max_conns'' ''Configured maximum pool size'',
      pc_newConns = pool_desc subsystem ''new_conns_total'' ''Cumulative connections established since pool creation'',
      pc_acquireCt = pool_desc subsystem ''acquires_total'' ''Cumulative successful Acquire() calls''\<rparr>"

definition Describe :: "PostgresPoolCollector \<Rightarrow> prom_desc list" where
  "Describe c = [pc_acquired c, pc_idle c, pc_total c, pc_maxConns c, pc_newConns c, pc_acquireCt c]"

definition Collect :: "PostgresPoolCollector \<Rightarrow> pool_stat \<Rightarrow> (prom_desc \<times> metric_type \<times> int) list" where
  "Collect c stat =
     [(pc_acquired c, GaugeValue, AcquiredConns stat), (pc_idle c, GaugeValue, IdleConns stat),
      (pc_total c, GaugeValue, TotalConns stat), (pc_maxConns c, GaugeValue, MaxConns stat),
      (pc_newConns c, CounterValue, NewConnsCount stat), (pc_acquireCt c, CounterValue, AcquireCount stat)]"

subsection \<open>Properties\<close>

definition rand_ok :: "rand_source \<Rightarrow> bool" where
  "rand_ok rand_Read \<longleftrightarrow> (\<forall>n buf. rand_Read n = Some buf \<longrightarrow> length buf = n)"

lemma NewCorrelationID_nonempty: "rand_ok rnd \<Longrightarrow> NewCorrelationID rnd \<noteq> []"
proof (cases "rnd 8")
  case (Some buf)
  assume "rand_ok rnd"
  with Some have "length (EncodeToString buf) = 16" by (simp add: rand_ok_def)
  then have "EncodeToString buf \<noteq> []" by (metis list.size(3) zero_neq_numeral)
  with Some show ?thesis by (simp add: NewCorrelationID_def)
qed (simp add: NewCorrelationID_def)

text \<open>A correlation id is sixteen lower-case hexadecimal characters, or the literal
  \<open>unavailable\<close> when the random source fails, and never empty.\<close>

theorem correlation_id_format:
  assumes "rand_ok rnd"
  shows "case rnd 8 of
      None \<Rightarrow> NewCorrelationID rnd = ''unavailable''
    | Some buf \<Rightarrow> length (NewCorrelationID rnd) = 16 \<and> set (NewCorrelationID rnd) \<subseteq> set ''0123456789abcdef''"
  using assms EncodeToString_hex by (auto simp: NewCorrelationID_def rand_ok_def length_EncodeToString split: option.split)

theorem correlation_id_format_witness:
  "NewCorrelationID (\<lambda>n. Some (replicate n 0xAB)) = ''abababababababab'' \<and>
   length (NewCorrelationID (\<lambda>n. Some (replicate n 0xAB))) = 16"
proof -
  have "NewCorrelationID (\<lambda>n. Some (replicate n 0xAB)) = ''abababababababab''" by code_simp
  with correlation_id_format [of "\<lambda>n. Some (replicate n 0xAB)"] show ?thesis by (simp add: rand_ok_def)
qed

text \<open>Both pools are bounded by configuration: the PostgreSQL pool gets the value of
  \<open>POSTGRES_MAX_CONNS\<close> when it is a positive 32-bit integer and 10 otherwise, without wrap-around in
  the conversion to \<open>int32\<close>, and the MongoDB pool gets \<open>MONGO_MAX_POOL_SIZE\<close> when it is a positive
  number below 2 to the 32 and 20 otherwise; neither size is ever zero (which the MongoDB driver
  reads as unlimited) or negative.\<close>

theorem pool_sizes_bounded:
  "sint (postgres_max_conns getenv) =
     (case ParseInt (getenv ''POSTGRES_MAX_CONNS'') 32 of Inr n \<Rightarrow> if n > 0 then n else 10 | Inl _ \<Rightarrow> 10) \<and>
   1 \<le> sint (postgres_max_conns getenv) \<and> sint (postgres_max_conns getenv) < 2 ^ 31 \<and>
   uint (mongo_pool_size getenv) =
     (case ParseUint (getenv ''MONGO_MAX_POOL_SIZE'') 32 of Inr n \<Rightarrow> if n > 0 then n else 20 | Inl _ \<Rightarrow> 20) \<and>
   1 \<le> uint (mongo_pool_size getenv) \<and> uint (mongo_pool_size getenv) < 2 ^ 32"
proof -
  have pg: "sint (word_of_int n :: 32 word) = n" if "- (2 ^ 31) \<le> n" "n < 2 ^ 31" for n :: int
    using that by (simp add: signed_of_int signed_take_bit_int_eq_self)
  have mg: "uint (word_of_int n :: 64 word) = n" if "0 \<le> n" "n < 2 ^ 32" for n :: int
    using that by (simp add: unsigned_of_int take_bit_int_eq_self)
  have "ParseInt [] 32 = Inl ErrSyntax" "ParseUint [] 32 = Inl ErrSyntax"
    by (simp_all add: ParseInt_def ParseUint_def split_sign_def)
  then show ?thesis
    using pg mg ParseInt_bounds [of _ 32] ParseUint_bounds [of _ 32]
    by (auto simp: postgres_max_conns_def mongo_pool_size_def defaultMaxConns_def defaultMongoMaxPoolSize_def Let_def
        split: sum.split)
qed

text \<open>The collector is consistent: a scrape delivers exactly one sample for each described
  metric, in the described order, the six metric names are distinct, and the collectors of
  different services never share a metric with equal labels.\<close>

theorem collector_consistent:
  "map fst (Collect (NewPostgresPoolCollector svc) stat) = Describe (NewPostgresPoolCollector svc) \<and>
   distinct (map desc_name (Describe (NewPostgresPoolCollector svc))) \<and>
   (svc \<noteq> svc' \<longrightarrow>
      set (Describe (NewPostgresPoolCollector svc)) \<inter> set (Describe (NewPostgresPoolCollector svc')) = {})"
  by (auto simp: Collect_def Describe_def NewPostgresPoolCollector_def pool_desc_def)

theorem collector_consistent_witness:
  "set (Describe (NewPostgresPoolCollector ''api'')) \<inter> set (Describe (NewPostgresPoolCollector ''ingestion'')) = {}"
  using collector_consistent [of "''api''" _ "''ingestion''"] by simp

end
