(* ===== verification/Api_Core.thy ===== *)
theory Api_Core
  imports Json Postgres Shared
begin

text \<open>
  What the handlers of the API share: requests and response writers of \<open>net/http\<close>, the \<open>App\<close>
  struct with \<open>writeJSON\<close> and \<open>writeError\<close> (\<open>api/db.go\<close>), the status-capturing writer and the
  per-request logger of \<open>api/metrics.go\<close>, and the contract every handler is proved to meet.
\<close>

subsection \<open>Requests\<close>

text \<open>
  A request after \<open>net/http\<close> parsed it: header values by canonical name, the decoded query
  parameters, the path values of the matched pattern, and the correlation id carried by the logger
  in its context, if any.
\<close>

record request =
  rq_Method :: string
  rq_Path :: string
  rq_Header :: "(string \<times> string) list"
  rq_Query :: "(string \<times> string list) list"
  rq_PathValue :: "(string \<times> string) list"
  rq_Body :: string
  rq_RemoteAddr :: string
  rq_logger :: "string option"

definition header_Get :: "request \<Rightarrow> string \<Rightarrow> string" where
  "header_Get r k = (case map_of (rq_Header r) (CanonicalHeaderKey k) of None \<Rightarrow> [] | Some v \<Rightarrow> v)"

definition query_Get :: "request \<Rightarrow> string \<Rightarrow> string" where
  "query_Get r k = (case map_of (rq_Query r) k of Some (v # _) \<Rightarrow> v | _ \<Rightarrow> [])"

definition path_value :: "request \<Rightarrow> string \<Rightarrow> string" where
  "path_value r k = (case map_of (rq_PathValue r) k of None \<Rightarrow> [] | Some v \<Rightarrow> v)"

subsection \<open>Responses\<close>

text \<open>The values the handlers write: each is encoded as the JSON of its Go value, \<open>VText\<close> verbatim.\<close>

datatype payload =
    VStatus string
  | VError string
  | VSites "Site list"
  | VDevices "Device list"
  | VDevice Device
  | VPoints "TelemetryPoint list"
  | VAlerts "Alert list"
  | VAlert Alert
  | VRules "AlertRule list"
  | VRule AlertRule
  | VText string

text \<open>\<open>encoding/json\<close> refuses infinities and NaN.\<close>

fun finite64 :: "float64 \<Rightarrow> bool" where
  "finite64 (Finite x) = True"
| "finite64 _ = False"

fun encodable :: "payload \<Rightarrow> bool" where
  "encodable (VPoints ps) = list_all (\<lambda>p. list_all (\<lambda>(k, x). finite64 x) (tp_Readings p)) ps"
| "encodable (VAlerts as) = list_all (\<lambda>a. finite64 (al_TriggeredValue a)) as"
| "encodable (VAlert a) = finite64 (al_TriggeredValue a)"
| "encodable (VRules rs) = list_all (\<lambda>r. finite64 (ar_Threshold r)) rs"
| "encodable (VRule r) = finite64 (ar_Threshold r)"
| "encodable _ = True"

text \<open>
  A response writer: the header map, what was sent with the first \<open>WriteHeader\<close> (status and
  headers as they were then), the body written so far, and the \<open>status\<close> field of the
  \<open>statusWriter\<close> around it when \<open>instrument\<close> has put one there.
\<close>

record rwriter =
  rw_header :: "(string \<times> string) list"
  rw_sent :: "(int \<times> (string \<times> string) list) option"
  rw_body :: "payload list"
  rw_sw :: "int option"

definition new_writer :: rwriter where
  "new_writer = \<lparr>rw_header = [], rw_sent = None, rw_body = [], rw_sw = None\<rparr>"

definition Header_Set :: "string \<Rightarrow> string \<Rightarrow> rwriter \<Rightarrow> rwriter" where
  "Header_Set k v w = w\<lparr>rw_header := AList.update (CanonicalHeaderKey k) v (rw_header w)\<rparr>"

definition base_WriteHeader :: "int \<Rightarrow> rwriter \<Rightarrow> rwriter" where
  "base_WriteHeader st w =
     (case rw_sent w of None \<Rightarrow> w\<lparr>rw_sent := Some (st, rw_header w)\<rparr> | Some _ \<Rightarrow> w)"

text \<open>\<open>statusWriter.WriteHeader\<close> records the status and passes it on.\<close>

definition WriteHeader :: "int \<Rightarrow> rwriter \<Rightarrow> rwriter" where
  "WriteHeader st w = base_WriteHeader st (w\<lparr>rw_sw := map_option (\<lambda>_. st) (rw_sw w)\<rparr>)"

definition Write :: "payload \<Rightarrow> rwriter \<Rightarrow> rwriter" where
  "Write p w = (let w1 = base_WriteHeader 200 w in w1\<lparr>rw_body := rw_body w1 @ [p]\<rparr>)"

text \<open>The response the client sees: status, headers, body.\<close>

definition status_of :: "rwriter \<Rightarrow> int" where
  "status_of w = (case rw_sent w of None \<Rightarrow> 200 | Some (st, _) \<Rightarrow> st)"

definition headers_of :: "rwriter \<Rightarrow> (string \<times> string) list" where
  "headers_of w = (case rw_sent w of None \<Rightarrow> rw_header w | Some (_, hs) \<Rightarrow> hs)"

subsection \<open>The application\<close>

text \<open>
  The \<open>App\<close>: the two databases, the transaction clock \<open>now()\<close> of the statements of this request,
  and the log (correlation id of the logger used, message).
\<close>

record App =
  app_world :: world
  app_now :: time
  app_log :: "(string option \<times> string) list"

type_synonym handler = "request \<Rightarrow> rwriter \<times> App \<Rightarrow> rwriter \<times> App"

definition app_logged :: "string option \<Rightarrow> string \<Rightarrow> App \<Rightarrow> App" where
  "app_logged cid m a = a\<lparr>app_log := app_log a @ [(cid, m)]\<rparr>"

text \<open>\<open>App.log\<close>: the logger of the request's context, otherwise the application's own.\<close>

definition app_Log :: "request \<Rightarrow> string \<Rightarrow> App \<Rightarrow> App" where
  "app_Log r m a = app_logged (rq_logger r) m a"

definition writeJSON :: "int \<Rightarrow> payload option \<Rightarrow> rwriter \<times> App \<Rightarrow> rwriter \<times> App" where
  "writeJSON st v wa =
     (case wa of (w, a) \<Rightarrow>
       let w1 = WriteHeader st (Header_Set ''Content-Type'' ''application/json'' w) in
       (case v of
          None \<Rightarrow> (w1, a)
        | Some p \<Rightarrow> if encodable p then (Write p w1, a) else (w1, app_logged None ''encode response'' a)))"

definition writeError :: "int \<Rightarrow> string \<Rightarrow> rwriter \<times> App \<Rightarrow> rwriter \<times> App" where
  "writeError st message wa = writeJSON st (Some (VError message)) wa"

text \<open>Running a statement or query of the request on the application's database.\<close>

definition app_stmt :: "(pgdb \<Rightarrow> pgerr + 'a \<times> pgdb) \<Rightarrow> App \<Rightarrow> (pgerr + 'a) \<times> App" where
  "app_stmt f a = (case run_stmt f (app_world a) of (r, w) \<Rightarrow> (r, a\<lparr>app_world := w\<rparr>))"

definition app_query :: "(pgdb \<Rightarrow> pgerr + 'a list) \<Rightarrow> App \<Rightarrow> (pgerr + 'a rows) \<times> App" where
  "app_query q a = (case run_query q (app_world a) of (r, w) \<Rightarrow> (r, a\<lparr>app_world := w\<rparr>))"

text \<open>
  The body the list handlers share: on a query error 500, on a row that cannot be scanned 500,
  otherwise 200 with the rows read; \<open>rows.Err()\<close> is not consulted.
\<close>

definition list_response ::
  "request \<Rightarrow> string \<Rightarrow> string \<Rightarrow> string \<Rightarrow> ('a list \<Rightarrow> payload) \<Rightarrow> (pgdb \<Rightarrow> pgerr + 'a list) \<Rightarrow>
   rwriter \<times> App \<Rightarrow> rwriter \<times> App" where
  "list_response r qmsg smsg emsg v q wa =
     (case wa of (w, a) \<Rightarrow>
       (case app_query q a of
          (Inl e, a1) \<Rightarrow> writeError 500 emsg (w, app_Log r qmsg a1)
        | (Inr rows, a1) \<Rightarrow>
            (case scan_rows rows of
               Inl e \<Rightarrow> writeError 500 emsg (w, app_Log r smsg a1)
             | Inr items \<Rightarrow> writeJSON 200 (Some (v items)) (w, a1))))"

subsection \<open>Lemmas: writers\<close>

lemma WriteHeader_sel [http_simps]:
  "rw_sent (WriteHeader st w) = (case rw_sent w of None \<Rightarrow> Some (st, rw_header w) | Some x \<Rightarrow> Some x)"
  "rw_sw (WriteHeader st w) = map_option (\<lambda>_. st) (rw_sw w)" "rw_body (WriteHeader st w) = rw_body w"
  "rw_header (WriteHeader st w) = rw_header w"
  by (simp_all add: WriteHeader_def base_WriteHeader_def split: option.split)

lemma Header_Set_sel [http_simps]:
  "rw_sent (Header_Set k v w) = rw_sent w" "rw_sw (Header_Set k v w) = rw_sw w" "rw_body (Header_Set k v w) = rw_body w"
  "rw_header (Header_Set k v w) = AList.update (CanonicalHeaderKey k) v (rw_header w)"
  by (simp_all add: Header_Set_def)

lemma Write_sel [http_simps]:
  "rw_sent w = Some x \<Longrightarrow> rw_sent (Write p w) = Some x" "rw_sw (Write p w) = rw_sw w"
  "rw_body (Write p w) = rw_body w @ [p]" "rw_header (Write p w) = rw_header w"
  by (simp_all add: Write_def base_WriteHeader_def split: option.split)

text \<open>What a first \<open>writeJSON\<close> leaves in the writer and in the application.\<close>

lemma writeJSON_fresh:
  assumes "rw_sent w = None"
  shows "rw_sent (fst (writeJSON st v (w, a))) =
      Some (st, AList.update ''Content-Type'' ''application/json'' (rw_header w))"
    "rw_sw (fst (writeJSON st v (w, a))) = map_option (\<lambda>_. st) (rw_sw w)"
    "rw_body (fst (writeJSON st v (w, a))) = rw_body w @ (case v of Some p \<Rightarrow> if encodable p then [p] else [] | None \<Rightarrow> [])"
proof -
  have c: "CanonicalHeaderKey ''Content-Type'' = ''Content-Type''" by code_simp
  show "rw_sent (fst (writeJSON st v (w, a))) =
      Some (st, AList.update ''Content-Type'' ''application/json'' (rw_header w))"
    "rw_sw (fst (writeJSON st v (w, a))) = map_option (\<lambda>_. st) (rw_sw w)"
    "rw_body (fst (writeJSON st v (w, a))) = rw_body w @ (case v of Some p \<Rightarrow> if encodable p then [p] else [] | None \<Rightarrow> [])"
    using assms c by (auto simp: writeJSON_def http_simps Let_def option.map_comp comp_def split: option.split)
qed

lemma writeJSON_world [simp]: "app_world (snd (writeJSON st v wa)) = app_world (snd wa)"
  by (simp add: writeJSON_def Let_def app_logged_def split: prod.split option.split)

lemma writeError_world [simp]: "app_world (snd (writeError st m wa)) = app_world (snd wa)"
  by (simp add: writeError_def)

lemma app_Log_world [simp]: "app_world (app_Log r m a) = app_world a"
  by (simp add: app_Log_def app_logged_def)

subsection \<open>The contract of a handler\<close>

abbreviation app_db :: "App \<Rightarrow> pgdb" where
  "app_db a \<equiv> w_db (app_world a)"

text \<open>A handler answered: one status, recorded by the status writer too, a JSON content type beside
  the headers set before, and at most one value.\<close>

definition answered :: "int set \<Rightarrow> rwriter \<Rightarrow> rwriter \<Rightarrow> bool" where
  "answered codes w w' \<longleftrightarrow>
     (\<exists>st. rw_sent w' = Some (st, AList.update ''Content-Type'' ''application/json'' (rw_header w)) \<and> st \<in> codes \<and>
        rw_sw w' = map_option (\<lambda>_. st) (rw_sw w)) \<and>
     (rw_body w' = rw_body w \<or> (\<exists>p. rw_body w' = rw_body w @ [p]))"

lemma answered_writeJSON [intro]: "rw_sent w = None \<Longrightarrow> st \<in> codes \<Longrightarrow> answered codes w (fst (writeJSON st v (w, a)))"
  unfolding answered_def by (simp add: writeJSON_fresh split: option.split)

lemma answered_writeError [intro]: "rw_sent w = None \<Longrightarrow> st \<in> codes \<Longrightarrow> answered codes w (fst (writeError st m (w, a)))"
  unfolding writeError_def by (rule answered_writeJSON)

text \<open>
  What a request may do to the databases: alerts only evolve and none is opened, a well-formed
  PostgreSQL database stays well formed, telemetry is not touched.
\<close>

definition safe_db :: "pgenv \<Rightarrow> pgdb \<Rightarrow> pgdb \<Rightarrow> bool" where
  "safe_db E db db' \<longleftrightarrow> db_evolves db db' \<and> (\<forall>i. active_count i db' \<le> active_count i db) \<and>
     (pgenv_ok E \<longrightarrow> (db_ok E db \<longrightarrow> db_ok E db') \<and> (ids_fresh E db \<longrightarrow> ids_fresh E db'))"

definition safe_stmt :: "pgenv \<Rightarrow> (pgdb \<Rightarrow> pgerr + 'a \<times> pgdb) \<Rightarrow> bool" where
  "safe_stmt E f \<longleftrightarrow> (\<forall>db x db'. f db = Inr (x, db') \<longrightarrow> safe_db E db db')"

definition safe_change :: "pgenv \<Rightarrow> App \<Rightarrow> App \<Rightarrow> bool" where
  "safe_change E a a' \<longleftrightarrow> safe_db E (app_db a) (app_db a') \<and> w_telemetry (app_world a') = w_telemetry (app_world a)"

lemma safe_db_refl [simp]: "safe_db E db db"
  by (simp add: safe_db_def)

lemma safe_db_trans: "safe_db E a b \<Longrightarrow> safe_db E b c \<Longrightarrow> safe_db E a c"
  unfolding safe_db_def by (meson db_evolves_trans order_trans)

lemma safe_change_same_world: "app_world a' = app_world a \<Longrightarrow> safe_change E a a'"
  by (simp add: safe_change_def)

lemma safe_change_trans: "safe_change E a b \<Longrightarrow> safe_change E b c \<Longrightarrow> safe_change E a c"
  unfolding safe_change_def using safe_db_trans by metis

lemma safe_change_writers [intro]:
  "safe_change E a a' \<Longrightarrow> safe_change E a (snd (writeJSON st v (w, a')))"
  "safe_change E a a' \<Longrightarrow> safe_change E a (snd (writeError st m (w, a')))"
  "safe_change E a a' \<Longrightarrow> safe_change E a (app_Log r m a')"
  by (simp_all add: safe_change_def)

lemma app_stmt_safe: "safe_stmt E f \<Longrightarrow> app_stmt f a = (r, a') \<Longrightarrow> safe_change E a a'"
  using run_stmt_db [of f "app_world a"]
  by (auto simp: app_stmt_def safe_change_def safe_stmt_def split_beta)

lemma app_query_safe: "app_query q a = (r, a') \<Longrightarrow> safe_change E a a'"
  by (auto simp: app_query_def safe_change_def split_beta)

text \<open>
  The log of a request: every line goes through the logger of the request, except the one of
  \<open>writeJSON\<close>, which reports a value it cannot encode through the global logger.
\<close>

definition logs_for :: "request \<Rightarrow> App \<Rightarrow> App \<Rightarrow> bool" where
  "logs_for r a a' \<longleftrightarrow> (\<exists>ls. app_log a' = app_log a @ ls \<and>
     list_all (\<lambda>l. fst l = rq_logger r \<or> l = (None, ''encode response'')) ls)"

lemma logs_for_refl [intro]: "app_log a' = app_log a \<Longrightarrow> logs_for r a a'"
  by (simp add: logs_for_def)

lemma logs_for_world [simp]: "logs_for r a (a\<lparr>app_world := x\<rparr>)"
  by (rule logs_for_refl) simp

lemma logs_for_trans: "logs_for r a b \<Longrightarrow> logs_for r b c \<Longrightarrow> logs_for r a c"
  unfolding logs_for_def by fastforce

lemma logs_for_writeJSON [intro!]: "logs_for r a a' \<Longrightarrow> logs_for r a (snd (writeJSON st v (w, a')))"
  by (rule logs_for_trans [of r a a'])
    (auto simp: logs_for_def writeJSON_def Let_def app_logged_def split: option.split)

lemma logs_for_writeError [intro!]: "logs_for r a a' \<Longrightarrow> logs_for r a (snd (writeError st m (w, a')))"
  unfolding writeError_def by (rule logs_for_writeJSON)

lemma logs_for_app_Log [intro!]: "logs_for r a a' \<Longrightarrow> logs_for r a (app_Log r m a')"
  by (rule logs_for_trans [of r a a']) (auto simp: logs_for_def app_Log_def app_logged_def)

lemma app_stmt_log: "app_stmt f a = (x, a') \<Longrightarrow> app_log a' = app_log a"
  by (auto simp: app_stmt_def split: prod.splits)

lemma app_query_log: "app_query q a = (x, a') \<Longrightarrow> app_log a' = app_log a"
  by (auto simp: app_query_def split: prod.splits)

lemma list_response_logs: "logs_for r a (snd (list_response r qm sm em v q (w, a)))"
  by (auto simp: list_response_def dest: app_query_log split: prod.split sum.split)

locale api_handler =
  fixes E :: pgenv
    and codes :: "int set"
    and h :: handler
  assumes answers: "rw_sent w = None \<Longrightarrow> answered codes w (fst (h r (w, a)))"
    and safe: "safe_change E a (snd (h r (w, a)))"
begin

text \<open>Serving a sequence of requests, each with a fresh writer.\<close>

lemma serve_safe: "safe_change E a (fold (\<lambda>r a. snd (h r (new_writer, a))) rs a)"
  by (induction rs arbitrary: a) (auto intro: safe_change_trans safe safe_change_same_world)

end

lemma list_response_handler:
  "api_handler E {200, 500} (\<lambda>r. list_response r (qm r) (sm r) (em r) (v r) (q r))"
proof
  show "answered {200, 500} w (fst (list_response r (qm r) (sm r) (em r) (v r) (q r) (w, a)))" if "rw_sent w = None" for w r a
    using that by (auto simp: list_response_def split: prod.split sum.split)
  show "safe_change E a (snd (list_response r (qm r) (sm r) (em r) (v r) (q r) (w, a)))" for a r w
    by (auto simp: list_response_def dest: app_query_safe split: prod.split sum.split)
qed

text \<open>Without faults a list handler answers with exactly the rows of its query.\<close>

lemma list_response_no_fault:
  assumes "w_faults (app_world a) = []" "q (app_db a) = Inr xs"
  shows "list_response r qm sm em v q (w, a) = writeJSON 200 (Some (v xs)) (w, a)"
  using assms by (simp add: list_response_def app_query_def run_query_no_fault)

text \<open>The rows of a broken stream are presented as the complete answer.\<close>

lemma list_response_broken:
  assumes "w_faults (app_world a) = Cut k m # fs" "q (app_db a) = Inr xs"
  shows "list_response r qm sm em v q (w, a) =
    writeJSON 200 (Some (v (take k xs))) (w, a\<lparr>app_world := (app_world a)\<lparr>w_faults := fs\<rparr>\<rparr>)"
  using assms by (simp add: list_response_def app_query_def run_query_def next_fault_def)

lemma list_response_server_error:
  assumes "w_faults (app_world a) = []" "q (app_db a) = Inl e"
  shows "list_response r qm sm em v q (w, a) = writeJSON 200 (Some (v [])) (w, a)"
  using assms by (simp add: list_response_def app_query_def run_query_no_fault)

subsection \<open>The outcome of a request\<close>

text \<open>
  The fate of the n-th statement a request sends; one that is not delivered has no effect, a lost
  reply hides an effect.
\<close>

definition fault_at :: "fault list \<Rightarrow> nat \<Rightarrow> fault" where
  "fault_at fs n = (if n < length fs then fs ! n else Ok)"

fun unsent :: "fault \<Rightarrow> bool" where
  "unsent (Fail m) = True"
| "unsent _ = False"

fun reply_lost :: "fault \<Rightarrow> bool" where
  "reply_lost (Lost m) = True"
| "reply_lost (Cut k m) = True"
| "reply_lost _ = False"

text \<open>What a request comes to: the status and the values it answered with, and the database it left.\<close>

definition answer :: "rwriter \<Rightarrow> rwriter \<times> App \<Rightarrow> int \<times> payload list \<times> pgdb" where
  "answer w wa = (status_of (fst wa), drop (length (rw_body w)) (rw_body (fst wa)), app_db (snd wa))"

definition as_answer :: "int \<times> payload \<times> pgdb \<Rightarrow> int \<times> payload list \<times> pgdb" where
  "as_answer t = (case t of (st, p, db) \<Rightarrow> (st, if encodable p then [p] else [], db))"

lemma answer_writeJSON:
  "rw_sent w = None \<Longrightarrow> answer w (writeJSON st (Some p) (w, a)) = as_answer (st, p, app_db a)"
  by (simp add: answer_def as_answer_def writeJSON_fresh status_of_def)

lemma answer_writeError:
  "rw_sent w = None \<Longrightarrow> answer w (writeError st m (w, a)) = as_answer (st, VError m, app_db a)"
  by (simp add: writeError_def answer_writeJSON)

lemma next_fault_at: "next_fault w = (fault_at (w_faults w) 0, w\<lparr>w_faults := tl (w_faults w)\<rparr>)"
  by (cases "w_faults w") (simp_all add: next_fault_def fault_at_def)

lemma fault_at_tl: "fault_at (tl fs) 0 = fault_at fs 1"
  by (cases fs) (simp_all add: fault_at_def)

end
