(* ===== verification/Demo_Data.thy ===== *)
theory Demo_Data
  imports Postgres
begin

text \<open>
  A small site for the witnesses of both services: one site with one device, two rules on its
  metric \<open>t\<close>, one user, and concrete choices for the parameters of the database model.
\<close>

definition demo_env :: pgenv where
  "demo_env = \<lparr>uuid_parse = (\<lambda>s. if s = [] \<or> hd s = CHR ''!'' then None else Some s), text_valid = (\<lambda>s. True),
     gen_random_uuid = (\<lambda>n. CHR ''u'' # replicate n (CHR ''0'')),
     collation_key = map of_char, scan_order = (\<lambda>n. [0..<n])\<rparr>"

definition demo_rule_row :: "string \<Rightarrow> AlertRule" where
  "demo_rule_row i = \<lparr>ar_ID = i, ar_DeviceID = ''d1'', ar_Metric = ''t'', ar_Operator = ''gt'',
     ar_Threshold = Finite 30, ar_Severity = ''warning'', ar_Enabled = True\<rparr>"

definition demo_db :: pgdb where
  "demo_db = \<lparr>sites = [\<lparr>sr_id = ''s1'', sr_name = ''Bangkok'', sr_type = ''data_center'', sr_location = None\<rparr>],
     devices = [\<lparr>dev_ID = ''d1'', dev_SiteID = ''s1'', dev_Name = ''temp'', dev_Type = ''temp_sensor'', dev_LastSeenAt = None\<rparr>],
     alert_rules = [demo_rule_row ''r1'', demo_rule_row ''r2''], users = [''op''], alerts = [], uuids_drawn = 0\<rparr>"

lemma demo_env_ok: "pgenv_ok demo_env"
  by (simp add: pgenv_ok_def demo_env_def)

lemma demo_db_ok: "db_ok demo_env demo_db"
  by (simp add: db_ok_def schema_ok_def alert_devices_ok_def device_row_ok_def site_types_def device_types_def demo_db_def demo_env_def demo_rule_row_def
      rule_row_ok_def operators_def severities_def all_ids_def)

lemma demo_one_active: "one_active demo_db"
  by (simp add: one_active_def active_count_def demo_db_def)

definition demo_open_alert :: Alert where
  "demo_open_alert = \<lparr>al_ID = ''a1'', al_AlertRuleID = ''r1'', al_DeviceID = ''d1'', al_TriggeredValue = Finite 33,
     al_Severity = ''warning'', al_Status = ''open'', al_TriggeredAt = 1000, al_AcknowledgedAt = None,
     al_AcknowledgedBy = None, al_ResolvedAt = None, al_ResolvedBy = None\<rparr>"

definition demo_alert_db :: pgdb where
  "demo_alert_db = demo_db\<lparr>alerts := [demo_open_alert]\<rparr>"

lemma demo_alert_db_ok: "db_ok demo_env demo_alert_db"
  by (simp add: db_ok_def schema_ok_def alert_devices_ok_def device_row_ok_def site_types_def device_types_def demo_db_def demo_env_def demo_rule_row_def
      rule_row_ok_def operators_def severities_def all_ids_def demo_alert_db_def demo_open_alert_def alert_row_ok_def
      statuses_def lifecycle_ok_def)

end
