(* ===== verification/Api_Alerts.thy ===== *)
theory Api_Alerts
  imports Api_Core Demo_Data
begin

text \<open>
  \<open>api/alerts.go\<close>: listing alerts with the query builder and its numbered placeholders, and the
  two transitions acknowledge and resolve.
\<close>

subsection \<open>Listing\<close>

definition parseIntParam :: "(string \<times> string list) list \<Rightarrow> string \<Rightarrow> int \<Rightarrow> int \<Rightarrow> int" where
  "parseIntParam q key dflt mx =
     (case map_of q key of
        None \<Rightarrow> dflt
      | Some [] \<Rightarrow> dflt
      | Some (raw # _) \<Rightarrow>
          if raw = [] then dflt
          else (case Atoi raw of
                  Inl _ \<Rightarrow> dflt
                | Inr n \<Rightarrow> if n < 0 then dflt else if n > mx then mx else n))"

text \<open>
  The statement the handler builds: its text and, beside it, the arguments its placeholders refer
  to. Joins and conditions are collected first; a condition is the text \<open>Sprintf\<close> made of it, with
  the number of arguments at that moment as the placeholder.
\<close>

datatype sql_arg = ArgStr string | ArgInt int

definition line_break :: string where
  "line_break = [CHR 0x0A, CHR 0x09, CHR 0x09]"

definition alert_select :: string where
  "alert_select =
     line_break @ ''SELECT a.id, a.alert_rule_id, a.device_id, a.triggered_value, a.severity, a.status,'' @
     line_break @ ''       a.triggered_at, a.acknowledged_at, a.acknowledged_by, a.resolved_at, a.resolved_by'' @
     line_break @ ''FROM alerts a''"

definition alert_filters :: "request \<Rightarrow> string list \<times> string list \<times> sql_arg list" where
  "alert_filters r =
     (let (joins, conditions, args) = ([], [], []);
          siteID = query_Get r ''site_id'';
          (joins, conditions, args) =
            (if siteID \<noteq> [] then
               let joins = joins @ [''JOIN devices d ON d.id = a.device_id''];
                   args = args @ [ArgStr siteID]
               in (joins, conditions @ [''d.site_id = $'' @ Itoa (int (length args))], args)
             else (joins, conditions, args));
          status = query_Get r ''status'';
          (conditions, args) =
            (if status \<noteq> [] then
               let args = args @ [ArgStr status] in (conditions @ [''a.status = $'' @ Itoa (int (length args))], args)
             else (conditions, args));
          deviceID = query_Get r ''device_id'';
          (conditions, args) =
            (if deviceID \<noteq> [] then
               let args = args @ [ArgStr deviceID] in (conditions @ [''a.device_id = $'' @ Itoa (int (length args))], args)
             else (conditions, args))
      in (joins, conditions, args))"

definition build_alert_query :: "request \<Rightarrow> string \<times> sql_arg list" where
  "build_alert_query r =
     (let query = alert_select;
          (joins, conditions, args) = alert_filters r;
          query = fold (\<lambda>j query. query @ '' '' @ j) joins query;
          query = fold (\<lambda>(i, c) query. if i = 0 then query @ '' WHERE '' @ c else query @ '' AND '' @ c)
            (List.enumerate 0 conditions) query;
          query = query @ '' ORDER BY a.triggered_at DESC'';
          limit = parseIntParam (rq_Query r) ''limit'' 50 500;
          offset = parseIntParam (rq_Query r) ''offset'' 0 1000000;
          args = args @ [ArgInt limit];
          query = query @ '' LIMIT $'' @ Itoa (int (length args));
          args = args @ [ArgInt offset];
          query = query @ '' OFFSET $'' @ Itoa (int (length args))
      in (query, args))"

text \<open>
  What the server makes of it. The text is read word by word: the \<open>SELECT\<close> of this handler, an
  optional join with the devices, comparisons of the three columns with a placeholder, the order,
  \<open>LIMIT\<close> and \<open>OFFSET\<close>. A text outside this fragment is a syntax error here.
\<close>

datatype alert_cond = SiteEq nat | StatusEq nat | DeviceEq nat

record alert_query =
  aq_join :: bool
  aq_conds :: "alert_cond list"
  aq_limit :: nat
  aq_offset :: nat

fun sql_words :: "string \<Rightarrow> string \<Rightarrow> string list" where
  "sql_words acc [] = (if acc = [] then [] else [rev acc])"
| "sql_words acc (c # cs) =
     (if c \<in> {CHR '' '', CHR 0x09, CHR 0x0A}
      then if acc = [] then sql_words [] cs else rev acc # sql_words [] cs
      else sql_words (c # acc) cs)"

fun placeholder :: "string \<Rightarrow> nat option" where
  "placeholder [] = None"
| "placeholder (c # ds) = (if c = CHR ''$'' \<and> ds \<noteq> [] \<and> list_all is_digit ds then Some (digits_val 0 ds) else None)"

definition parse_cond :: "string \<Rightarrow> string \<Rightarrow> string \<Rightarrow> alert_cond option" where
  "parse_cond col cmp arg =
     (case placeholder arg of
        None \<Rightarrow> None
      | Some k \<Rightarrow> if cmp \<noteq> ''='' then None
                  else if col = ''d.site_id'' then Some (SiteEq k)
                  else if col = ''a.status'' then Some (StatusEq k)
                  else if col = ''a.device_id'' then Some (DeviceEq k) else None)"

fun parse_conds :: "string \<Rightarrow> string list \<Rightarrow> (alert_cond list \<times> string list) option" where
  "parse_conds kw (w # col # cmp # arg # ts) =
     (if w \<noteq> kw then Some ([], w # col # cmp # arg # ts)
      else case parse_cond col cmp arg of
             None \<Rightarrow> None
           | Some c \<Rightarrow> map_option (\<lambda>(cs, rest). (c # cs, rest)) (parse_conds ''AND'' ts))"
| "parse_conds kw ts = Some ([], ts)"

definition parse_alert_query :: "string \<Rightarrow> alert_query option" where
  "parse_alert_query text =
     (let ts = sql_words [] text; sel = sql_words [] alert_select; n = length sel;
          join = sql_words [] ''JOIN devices d ON d.id = a.device_id''; k = length join in
      if take n ts \<noteq> sel then None
      else
        let rest = drop n ts; joined = (take k rest = join) in
        case parse_conds ''WHERE'' (if joined then drop k rest else rest) of
          Some (cs, [w1, w2, w3, w4, w5, l, w6, off]) \<Rightarrow>
            (case (placeholder l, placeholder off) of
               (Some lk, Some ok) \<Rightarrow>
                 if [w1, w2, w3, w4, w5, w6] = [''ORDER'', ''BY'', ''a.triggered_at'', ''DESC'', ''LIMIT'', ''OFFSET'']
                 then Some \<lparr>aq_join = joined, aq_conds = cs, aq_limit = lk, aq_offset = ok\<rparr> else None
             | _ \<Rightarrow> None)
        | _ \<Rightarrow> None)"

text \<open>
  Placeholders are looked up by number in the arguments; a join pairs every alert with the devices
  whose id it carries.
\<close>

definition arg_at :: "sql_arg list \<Rightarrow> nat \<Rightarrow> sql_arg option" where
  "arg_at args k = (if 1 \<le> k \<and> k \<le> length args then Some (args ! (k - 1)) else None)"

abbreviation bad_parameter :: pgerr where "bad_parameter \<equiv> PgError ''08P01''"
abbreviation syntax_error :: pgerr where "syntax_error \<equiv> PgError ''42601''"

fun cond_pred :: "pgenv \<Rightarrow> sql_arg list \<Rightarrow> alert_cond \<Rightarrow> pgerr + (Alert \<times> Device option \<Rightarrow> bool)" where
  "cond_pred E args (SiteEq k) =
     (case arg_at args k of
        Some (ArgStr s) \<Rightarrow> (case uuid_parse E s of None \<Rightarrow> Inl invalid_uuid
          | Some u \<Rightarrow> Inr (\<lambda>(a, d). case d of None \<Rightarrow> False | Some d \<Rightarrow> dev_SiteID d = u))
      | _ \<Rightarrow> Inl bad_parameter)"
| "cond_pred E args (StatusEq k) =
     (case arg_at args k of
        Some (ArgStr s) \<Rightarrow> if text_valid E s then Inr (\<lambda>(a, d). al_Status a = s) else Inl invalid_text
      | _ \<Rightarrow> Inl bad_parameter)"
| "cond_pred E args (DeviceEq k) =
     (case arg_at args k of
        Some (ArgStr s) \<Rightarrow> (case uuid_parse E s of None \<Rightarrow> Inl invalid_uuid | Some u \<Rightarrow> Inr (\<lambda>(a, d). al_DeviceID a = u))
      | _ \<Rightarrow> Inl bad_parameter)"

fun cond_preds :: "pgenv \<Rightarrow> sql_arg list \<Rightarrow> alert_cond list \<Rightarrow> pgerr + (Alert \<times> Device option \<Rightarrow> bool)" where
  "cond_preds E args [] = Inr (\<lambda>_. True)"
| "cond_preds E args (c # cs) =
     (case cond_pred E args c of Inl e \<Rightarrow> Inl e
      | Inr P \<Rightarrow> (case cond_preds E args cs of Inl e \<Rightarrow> Inl e | Inr Q \<Rightarrow> Inr (\<lambda>x. P x \<and> Q x)))"

definition alert_rows :: "alert_query \<Rightarrow> pgdb \<Rightarrow> (Alert \<times> Device option) list" where
  "alert_rows q db =
     (if \<not> aq_join q then map (\<lambda>a. (a, None)) (alerts db)
      else concat (map (\<lambda>a. map (\<lambda>d. (a, Some d)) (filter (\<lambda>d. dev_ID d = al_DeviceID a) (devices db))) (alerts db)))"

definition run_alert_query :: "pgenv \<Rightarrow> alert_query \<Rightarrow> sql_arg list \<Rightarrow> pgdb \<Rightarrow> pgerr + Alert list" where
  "run_alert_query E q args db =
     (case cond_preds E args (aq_conds q) of
        Inl e \<Rightarrow> Inl e
      | Inr P \<Rightarrow>
          (case (arg_at args (aq_limit q), arg_at args (aq_offset q)) of
             (Some (ArgInt l), Some (ArgInt off)) \<Rightarrow>
               Inr (take (nat l) (drop (nat off)
                 (sort_key (\<lambda>a. - al_TriggeredAt a) (map fst (filter P (in_scan_order E (alert_rows q db)))))))
           | _ \<Rightarrow> Inl bad_parameter))"

definition eval_alert_query :: "pgenv \<Rightarrow> string \<Rightarrow> sql_arg list \<Rightarrow> pgdb \<Rightarrow> pgerr + Alert list" where
  "eval_alert_query E query args db =
     (case parse_alert_query query of None \<Rightarrow> Inl syntax_error | Some q \<Rightarrow> run_alert_query E q args db)"

definition listAlerts :: "pgenv \<Rightarrow> handler" where
  "listAlerts E r wa =
     (let (query, args) = build_alert_query r in
      list_response r ''query alerts'' ''scan alert'' ''failed to list alerts'' VAlerts (eval_alert_query E query args) wa)"

subsection \<open>Transitions\<close>

definition AckInput_zero :: AckInput where
  "AckInput_zero = \<lparr>ack_UserID = []\<rparr>"

definition decode_ack :: "codec \<Rightarrow> string \<Rightarrow> AckInput option" where
  "decode_ack cd raw =
     (case parse_first cd raw of None \<Rightarrow> None
      | Some j \<Rightarrow> decode_struct [''user_id'']
          (\<lambda>f j b. map_option (\<lambda>s. b\<lparr>ack_UserID := s\<rparr>) (decode_string j (ack_UserID b))) j AckInput_zero)"

text \<open>\<open>UPDATE alerts SET ... WHERE id = $1 AND status IN (...) RETURNING ...\<close>\<close>

definition stmt_transition ::
  "pgenv \<Rightarrow> string list \<Rightarrow> (string \<Rightarrow> Alert \<Rightarrow> Alert) \<Rightarrow> string \<Rightarrow> string \<Rightarrow> pgdb \<Rightarrow> pgerr + Alert \<times> pgdb" where
  "stmt_transition E from f i user db =
     (case (uuid_parse E i, uuid_parse E user) of
        (Some u, Some v) \<Rightarrow>
          (let P = (\<lambda>a. al_ID a = u \<and> al_Status a \<in> set from) in
           case filter P (alerts db) of
             [] \<Rightarrow> Inl ErrNoRows
           | a # _ \<Rightarrow> if v \<notin> set (users db) then Inl foreign_key_violation
                      else Inr (f v a, update_alerts P (f v) db))
      | _ \<Rightarrow> Inl invalid_uuid)"

definition acknowledged_by :: "time \<Rightarrow> string \<Rightarrow> Alert \<Rightarrow> Alert" where
  "acknowledged_by now user a =
     a\<lparr>al_Status := ''acknowledged'', al_AcknowledgedAt := Some (timestamptz now), al_AcknowledgedBy := Some user\<rparr>"

definition resolved_by :: "time \<Rightarrow> string \<Rightarrow> Alert \<Rightarrow> Alert" where
  "resolved_by now user a =
     a\<lparr>al_Status := ''resolved'', al_ResolvedAt := Some (timestamptz now), al_ResolvedBy := Some user\<rparr>"

text \<open>\<open>fromStatuses\<close> is documentation: the statuses that count are those in the statement.\<close>

record transitionSpec =
  ts_fromStatuses :: "string list"
  ts_conflictMsg :: string
  ts_query :: "pgenv \<Rightarrow> time \<Rightarrow> string \<Rightarrow> string \<Rightarrow> pgdb \<Rightarrow> pgerr + Alert \<times> pgdb"

definition acknowledge_spec :: transitionSpec where
  "acknowledge_spec = \<lparr>ts_fromStatuses = [''open''],
     ts_conflictMsg = ''alert is not open (already acknowledged or resolved)'',
     ts_query = (\<lambda>E now. stmt_transition E [''open''] (acknowledged_by now))\<rparr>"

definition resolve_spec :: transitionSpec where
  "resolve_spec = \<lparr>ts_fromStatuses = [''open'', ''acknowledged''],
     ts_conflictMsg = ''alert is already resolved'',
     ts_query = (\<lambda>E now. stmt_transition E [''open'', ''acknowledged''] (resolved_by now))\<rparr>"

definition stmt_exists :: "pgenv \<Rightarrow> string \<Rightarrow> pgdb \<Rightarrow> pgerr + bool \<times> pgdb" where
  "stmt_exists E i db =
     (case uuid_parse E i of None \<Rightarrow> Inl invalid_uuid
      | Some u \<Rightarrow> if u \<in> al_ID ` set (alerts db) then Inr (True, db) else Inl ErrNoRows)"

definition transitionAlert :: "codec \<Rightarrow> pgenv \<Rightarrow> transitionSpec \<Rightarrow> handler" where
  "transitionAlert cd E spec r wa =
     (case wa of (w, a) \<Rightarrow>
       let i = path_value r ''id'' in
       case decode_ack cd (rq_Body r) of
         None \<Rightarrow> writeError 400 ''user_id is required'' (w, a)
       | Some body \<Rightarrow>
           if ack_UserID body = [] then writeError 400 ''user_id is required'' (w, a)
           else
             (case app_stmt (ts_query spec E (app_now a) i (ack_UserID body)) a of
                (Inl ErrNoRows, a1) \<Rightarrow>
                  (case app_stmt (stmt_exists E i) a1 of
                     (ex, a2) \<Rightarrow>
                       let exists = (case ex of Inr b \<Rightarrow> b | Inl _ \<Rightarrow> False) in
                       if \<not> exists then writeError 404 ''alert not found'' (w, a2)
                       else writeError 409 (ts_conflictMsg spec) (w, a2))
              | (Inl _, a1) \<Rightarrow> writeError 500 ''failed to update alert'' (w, app_Log r ''transition alert'' a1)
              | (Inr al, a1) \<Rightarrow> writeJSON 200 (Some (VAlert al)) (w, a1)))"

definition acknowledgeAlert :: "codec \<Rightarrow> pgenv \<Rightarrow> handler" where
  "acknowledgeAlert cd E = transitionAlert cd E acknowledge_spec"

definition resolveAlert :: "codec \<Rightarrow> pgenv \<Rightarrow> handler" where
  "resolveAlert cd E = transitionAlert cd E resolve_spec"

subsection \<open>Lemmas: transitions\<close>

lemma stmt_transition_Inr:
  "stmt_transition E from f i user db = Inr (al, db') \<longleftrightarrow>
     (\<exists>u v a as. uuid_parse E i = Some u \<and> uuid_parse E user = Some v \<and> v \<in> set (users db) \<and>
        filter (\<lambda>a. al_ID a = u \<and> al_Status a \<in> set from) (alerts db) = a # as \<and> al = f v a \<and>
        db' = update_alerts (\<lambda>a. al_ID a = u \<and> al_Status a \<in> set from) (f v) db)"
  by (auto simp: stmt_transition_def Let_def split: option.splits list.splits if_splits)

text \<open>A change of an active alert that a user makes.\<close>

definition user_change :: "string list \<Rightarrow> (string \<Rightarrow> Alert \<Rightarrow> Alert) \<Rightarrow> bool" where
  "user_change from f \<longleftrightarrow> (\<forall>a v. al_Status a \<in> set from \<longrightarrow>
     alert_evolves a (f v a) \<and> (lifecycle_ok a \<longrightarrow> lifecycle_ok (f v a)) \<and> (is_active (f v a) \<longrightarrow> is_active a) \<and>
     set_option (al_AcknowledgedBy (f v a)) \<subseteq> insert v (set_option (al_AcknowledgedBy a)) \<and>
     set_option (al_ResolvedBy (f v a)) \<subseteq> insert v (set_option (al_ResolvedBy a)))"

lemma user_change_acknowledge: "user_change [''open''] (acknowledged_by now)"
  by (auto simp: user_change_def acknowledged_by_def alert_evolves_def lifecycle_ok_def is_active_def phase_of_def
      less_eq_alert_phase_def)

lemma user_change_resolve: "user_change [''open'', ''acknowledged''] (resolved_by now)"
  by (auto simp: user_change_def resolved_by_def alert_evolves_def lifecycle_ok_def is_active_def phase_of_def
      less_eq_alert_phase_def)

lemma stmt_transition_safe:
  assumes "user_change from f" and "\<And>v a. al_ID (f v a) = al_ID a"
  shows "safe_stmt E (stmt_transition E from f i user)"
  unfolding safe_stmt_def
proof (intro allI impI)
  fix db al db' assume "stmt_transition E from f i user db = Inr (al, db')"
  then obtain u v where v: "v \<in> set (users db)"
    and db': "db' = update_alerts (\<lambda>a. al_ID a = u \<and> al_Status a \<in> set from) (f v) db" by (auto simp: stmt_transition_Inr)
  have ok: "db_ok E db'" if db: "db_ok E db"
    unfolding db'
  proof (rule db_ok_update_alerts [OF db])
    fix a assume a: "a \<in> set (alerts db)" "al_ID a = u \<and> al_Status a \<in> set from"
    with db have "alert_row_ok db a" "lifecycle_ok a" by (auto simp: db_ok_def schema_ok_def list_all_iff)
    with a assms(1) v show "alert_evolves a (f v a) \<and> lifecycle_ok (f v a) \<and>
        set_option (al_AcknowledgedBy (f v a)) \<subseteq> set (users db) \<and> set_option (al_ResolvedBy (f v a)) \<subseteq> set (users db)"
      unfolding user_change_def alert_row_ok_def by blast
  qed
  have ev: "db_evolves db db'"
    unfolding db' by (rule db_evolves_update) (use assms(1) in \<open>simp add: user_change_def\<close>)
  have "active_count j db' \<le> active_count j db" for j
    unfolding db' by (rule active_count_update) (use assms(1) in \<open>auto simp: user_change_def alert_evolves_def\<close>)
  with ok ev ids_fresh_update_alerts [of "f v" E] assms(2) show "safe_db E db db'"
    by (simp add: safe_db_def db')
qed

lemma stmt_exists_safe: "safe_stmt E (stmt_exists E i)"
  by (auto simp: safe_stmt_def stmt_exists_def split: option.splits if_splits)

lemma spec_queries_safe:
  "safe_stmt E (ts_query acknowledge_spec E now i user)" "safe_stmt E (ts_query resolve_spec E now i user)"
  by (simp_all add: acknowledge_spec_def resolve_spec_def stmt_transition_safe user_change_acknowledge user_change_resolve)
    (simp_all add: acknowledged_by_def resolved_by_def stmt_transition_safe user_change_acknowledge user_change_resolve)

lemma transition_handler:
  assumes "\<And>now i user. safe_stmt E (ts_query spec E now i user)"
  shows "api_handler E {200, 400, 404, 409, 500} (transitionAlert cd E spec)"
proof
  fix r w a
  obtain q a1 where 1: "app_stmt (ts_query spec E (app_now a) (path_value r ''id'') user) a = (q user, a1 user)" for user
    by (meson surj_pair)
  obtain ex a2 where 2: "app_stmt (stmt_exists E (path_value r ''id'')) (a1 user) = (ex user, a2 user)" for user
    by (meson surj_pair)
  note S1 = app_stmt_safe [OF assms 1]
  note S2 = safe_change_trans [OF S1 app_stmt_safe [OF stmt_exists_safe 2]]
  show "safe_change E a (snd (transitionAlert cd E spec r (w, a)))"
    using S1 S2 by (auto simp: transitionAlert_def 1 2 safe_change_same_world Let_def split: option.split sum.split pgerr.split)
  show "answered {200, 400, 404, 409, 500} w (fst (transitionAlert cd E spec r (w, a)))" if "rw_sent w = None"
    using that by (auto simp: transitionAlert_def 1 2 Let_def split: option.split sum.split pgerr.split)
qed

interpretation list_alerts: api_handler E "{200, 500}" "listAlerts E" for E
proof -
  have "listAlerts E = (\<lambda>r. list_response r ''query alerts'' ''scan alert'' ''failed to list alerts'' VAlerts
      (case build_alert_query r of (q, args) \<Rightarrow> eval_alert_query E q args))"
    by (intro ext) (simp add: listAlerts_def split: prod.split)
  then show "api_handler E {200, 500} (listAlerts E)" by (simp add: list_response_handler)
qed

interpretation acknowledge: api_handler E "{200, 400, 404, 409, 500}" "acknowledgeAlert cd E" for cd E
  unfolding acknowledgeAlert_def by (rule transition_handler) (rule spec_queries_safe)

interpretation resolve: api_handler E "{200, 400, 404, 409, 500}" "resolveAlert cd E" for cd E
  unfolding resolveAlert_def by (rule transition_handler) (rule spec_queries_safe)

subsection \<open>Lemmas: the outcome of a transition\<close>

text \<open>The statuses and the effect of the two transitions.\<close>

definition is_transition :: "transitionSpec \<Rightarrow> bool" where
  "is_transition spec \<longleftrightarrow> spec = acknowledge_spec \<or> spec = resolve_spec"

definition transition_effect :: "transitionSpec \<Rightarrow> time \<Rightarrow> string \<Rightarrow> Alert \<Rightarrow> Alert" where
  "transition_effect spec = (if spec = acknowledge_spec then acknowledged_by else resolved_by)"

lemma specs_differ: "resolve_spec \<noteq> acknowledge_spec"
  by (simp add: resolve_spec_def acknowledge_spec_def)

lemma ts_query_eq:
  "is_transition spec \<Longrightarrow> ts_query spec E now = stmt_transition E (ts_fromStatuses spec) (transition_effect spec now)"
  using specs_differ by (auto simp: is_transition_def transition_effect_def) (simp_all add: acknowledge_spec_def resolve_spec_def)

text \<open>The status a transition answers with, as a function of the request and the database.\<close>

definition transition_status :: "codec \<Rightarrow> pgenv \<Rightarrow> transitionSpec \<Rightarrow> request \<Rightarrow> pgdb \<Rightarrow> int" where
  "transition_status cd E spec r db =
     (case decode_ack cd (rq_Body r) of
        None \<Rightarrow> 400
      | Some b \<Rightarrow>
          if ack_UserID b = [] then 400
          else (case (uuid_parse E (path_value r ''id''), uuid_parse E (ack_UserID b)) of
              (Some u, Some v) \<Rightarrow>
                (case List.find (\<lambda>x. al_ID x = u) (alerts db) of
                   None \<Rightarrow> 404
                 | Some x \<Rightarrow> if al_Status x \<notin> set (ts_fromStatuses spec) then 409
                             else if v \<notin> set (users db) then 500 else 200)
            | _ \<Rightarrow> 500))"

lemma filter_unique:
  assumes "distinct (map f xs)"
  shows "filter (\<lambda>x. f x = u \<and> P x) xs = (case List.find (\<lambda>x. f x = u) xs of None \<Rightarrow> [] | Some x \<Rightarrow> if P x then [x] else [])"
  using assms
proof (induction xs)
  case (Cons x xs)
  show ?case
  proof (cases "f x = u")
    case True
    with Cons.prems have "filter (\<lambda>x. f x = u \<and> P x) xs = []"
      using distinct_map_ConsD [OF Cons.prems] by (auto simp: filter_empty_conv)
    with True show ?thesis by simp
  qed (use Cons in simp)
qed simp

lemma stmt_transition_eq:
  assumes "distinct (map al_ID (alerts db))"
  shows "stmt_transition E from f i user db =
    (case (uuid_parse E i, uuid_parse E user) of
       (Some u, Some v) \<Rightarrow>
         (case List.find (\<lambda>x. al_ID x = u) (alerts db) of
            None \<Rightarrow> Inl ErrNoRows
          | Some x \<Rightarrow> if al_Status x \<notin> set from then Inl ErrNoRows
                      else if v \<notin> set (users db) then Inl foreign_key_violation
                      else Inr (f v x, update_alerts (\<lambda>a. al_ID a = u) (f v) db))
     | _ \<Rightarrow> Inl invalid_uuid)"
proof -
  have upd: "update_alerts (\<lambda>a. al_ID a = u \<and> al_Status a \<in> set from) g db = update_alerts (\<lambda>a. al_ID a = u) g db"
    if "List.find (\<lambda>x. al_ID x = u) (alerts db) = Some x" "al_Status x \<in> set from" for u x g
  proof -
    from that(1) have x: "x \<in> set (alerts db)" "al_ID x = u" by (auto simp: find_Some_iff)
    then have "a = x" if "a \<in> set (alerts db)" "al_ID a = u" for a using distinct_map_eqD [OF assms] that by blast
    with that(2) have "map (\<lambda>a. if al_ID a = u \<and> al_Status a \<in> set from then g a else a) (alerts db) =
        map (\<lambda>a. if al_ID a = u then g a else a) (alerts db)" by (intro map_cong) auto
    then show ?thesis by (simp add: update_alerts_def)
  qed
  show ?thesis
    unfolding stmt_transition_def Let_def filter_unique [OF assms]
    by (auto simp: upd split: option.split)
qed

lemma find_None_ids: "List.find (\<lambda>x. al_ID x = u) xs = None \<longleftrightarrow> u \<notin> al_ID ` set xs"
  by (auto simp: find_None_iff)

lemma transition_no_fault:
  assumes spec: "is_transition spec" and nf: "w_faults (app_world a) = []" and db: "db_ok E (app_db a)" and w: "rw_sent w = None"
  shows "status_of (fst (transitionAlert cd E spec r (w, a))) = transition_status cd E spec r (app_db a)"
    "app_db (snd (transitionAlert cd E spec r (w, a))) =
      (if transition_status cd E spec r (app_db a) = 200
       then update_alerts (\<lambda>x. al_ID x = the (uuid_parse E (path_value r ''id'')))
         (transition_effect spec (app_now a) (the (uuid_parse E (ack_UserID (the (decode_ack cd (rq_Body r))))))) (app_db a)
       else app_db a)"
proof -
  from db have dist: "distinct (map al_ID (alerts (app_db a)))" by (simp add: db_ok_def schema_ok_def)
  have st: "rw_sent (fst (writeJSON st v (w, b))) = Some (st, AList.update ''Content-Type'' ''application/json'' (rw_header w))" for st v b
    using w by (rule writeJSON_fresh)
  have none: "u \<in> al_ID ` set (alerts (app_db a))" if "List.find (\<lambda>x. al_ID x = u) (alerts (app_db a)) = Some x" for u x
    using that by (auto simp: find_Some_iff)
  have miss: "u \<notin> al_ID ` set (alerts (app_db a))" if "List.find (\<lambda>x. al_ID x = u) (alerts (app_db a)) = None" for u
    using that by (simp add: find_None_ids)
  show "status_of (fst (transitionAlert cd E spec r (w, a))) = transition_status cd E spec r (app_db a)"
    using nf none miss
    by (auto simp: transitionAlert_def transition_status_def ts_query_eq [OF spec] app_stmt_def run_stmt_no_fault
        stmt_transition_eq [OF dist] stmt_exists_def Let_def status_of_def writeError_def st
        split: option.split)
  show "app_db (snd (transitionAlert cd E spec r (w, a))) =
      (if transition_status cd E spec r (app_db a) = 200
       then update_alerts (\<lambda>x. al_ID x = the (uuid_parse E (path_value r ''id'')))
         (transition_effect spec (app_now a) (the (uuid_parse E (ack_UserID (the (decode_ack cd (rq_Body r))))))) (app_db a)
       else app_db a)"
    using nf none miss
    by (auto simp: transitionAlert_def transition_status_def ts_query_eq [OF spec] app_stmt_def run_stmt_no_fault
        stmt_transition_eq [OF dist] stmt_exists_def Let_def split: option.split)
qed

subsection \<open>Properties: transitions\<close>

text \<open>
  What a transition is to answer and to store, as a table over the request, the stored alert and
  the fates of the two statements it may send: \<open>from\<close> are the statuses it starts from, \<open>upd\<close> the
  columns it sets, \<open>msg\<close> the message of a conflict.
\<close>

definition transition_table ::
  "codec \<Rightarrow> pgenv \<Rightarrow> string list \<Rightarrow> (string \<Rightarrow> Alert \<Rightarrow> Alert) \<Rightarrow> string \<Rightarrow> request \<Rightarrow> fault list \<Rightarrow> pgdb \<Rightarrow>
   int \<times> payload \<times> pgdb" where
  "transition_table cd E from upd msg r fs db =
     (case decode_ack cd (rq_Body r) of
        None \<Rightarrow> (400, VError ''user_id is required'', db)
      | Some b \<Rightarrow>
          if ack_UserID b = [] then (400, VError ''user_id is required'', db)
          else if unsent (fault_at fs 0) then (500, VError ''failed to update alert'', db)
          else
            let (st, p, db') =
              (case (uuid_parse E (path_value r ''id''), uuid_parse E (ack_UserID b)) of
                 (Some u, Some v) \<Rightarrow>
                   (case List.find (\<lambda>x. al_ID x = u) (alerts db) of
                      None \<Rightarrow> (404, VError ''alert not found'', db)
                    | Some x \<Rightarrow>
                        if al_Status x \<notin> set from
                        then if fault_at fs 1 = Ok then (409, VError msg, db) else (404, VError ''alert not found'', db)
                        else if v \<notin> set (users db) then (500, VError ''failed to update alert'', db)
                        else if fault_at fs 0 = Ok
                        then (200, VAlert (upd v x), update_alerts (\<lambda>a. al_ID a = u) (upd v) db)
                        else (500, VError ''failed to update alert'', update_alerts (\<lambda>a. al_ID a = u) (upd v) db))
               | _ \<Rightarrow> (500, VError ''failed to update alert'', db))
            in if reply_lost (fault_at fs 0) then (500, VError ''failed to update alert'', db') else (st, p, db'))"

text \<open>The answer and the database, from what the server makes of the update.\<close>

lemma transition_answer_of_stmt:
  assumes w: "rw_sent w = None" and b: "decode_ack cd (rq_Body r) = Some b" "ack_UserID b \<noteq> []"
    and q: "ts_query spec E (app_now a) (path_value r ''id'') (ack_UserID b) (app_db a) = q"
    and ex: "stmt_exists E (path_value r ''id'') (app_db a) = (if known then Inr (True, app_db a) else Inl ErrNoRows)"
  shows "answer w (transitionAlert cd E spec r (w, a)) = as_answer
    (let ft = fault_at (w_faults (app_world a)) 0; ft' = fault_at (w_faults (app_world a)) 1 in
     if unsent ft then (500, VError ''failed to update alert'', app_db a)
     else if reply_lost ft then (500, VError ''failed to update alert'', case q of Inl _ \<Rightarrow> app_db a | Inr (_, db') \<Rightarrow> db')
     else (case q of
         Inl ErrNoRows \<Rightarrow> if known \<and> ft' = Ok then (409, VError (ts_conflictMsg spec), app_db a) else (404, VError ''alert not found'', app_db a)
       | Inl _ \<Rightarrow> (500, VError ''failed to update alert'', app_db a)
       | Inr (x, db') \<Rightarrow> if ft = Ok then (200, VAlert x, db') else (500, VError ''failed to update alert'', db')))"
proof -
  note defs = transitionAlert_def Let_def b q ex app_stmt_def run_stmt_def next_fault_at fault_at_tl
    answer_writeJSON [OF w] answer_writeError [OF w]
  show ?thesis
  proof (cases "fault_at (w_faults (app_world a)) 0")
    case Ok
    then show ?thesis
      by (cases "fault_at (w_faults (app_world a)) 1")
        (auto simp: defs split: sum.split pgerr.split)
  next
    case (BadScan k m)
    then show ?thesis
      by (cases "fault_at (w_faults (app_world a)) 1")
        (auto simp: defs split: sum.split pgerr.split)
  qed (auto simp: defs split: sum.split)
qed

lemma transition_answer:
  assumes spec: "is_transition spec" and db: "db_ok E (app_db a)" and w: "rw_sent w = None"
  shows "answer w (transitionAlert cd E spec r (w, a)) =
    as_answer (transition_table cd E (ts_fromStatuses spec) (transition_effect spec (app_now a)) (ts_conflictMsg spec) r
      (w_faults (app_world a)) (app_db a))"
proof (cases "\<exists>b. decode_ack cd (rq_Body r) = Some b \<and> ack_UserID b \<noteq> []")
  case False
  then show ?thesis
    by (auto simp: transitionAlert_def transition_table_def Let_def answer_writeError [OF w] split: option.split)
next
  case True
  then obtain b where b: "decode_ack cd (rq_Body r) = Some b" "ack_UserID b \<noteq> []" by blast
  from db have dist: "distinct (map al_ID (alerts (app_db a)))" by (simp add: db_ok_def schema_ok_def)
  note q = ts_query_eq [OF spec, of E "app_now a"] stmt_transition_eq [OF dist]
  show ?thesis
  proof (cases "uuid_parse E (path_value r ''id'')")
    case None
    then show ?thesis
      using b by (auto simp: transitionAlert_def transition_table_def Let_def app_stmt_def run_stmt_def next_fault_at q
          answer_writeError [OF w] split: fault.split)
  next
    case (Some u)
    have ex: "stmt_exists E (path_value r ''id'') (app_db a) =
        (if List.find (\<lambda>x. al_ID x = u) (alerts (app_db a)) \<noteq> None then Inr (True, app_db a) else Inl ErrNoRows)"
      using Some by (auto simp: stmt_exists_def find_None_ids)
    note T = transition_answer_of_stmt [OF w b refl ex, where spec = spec]
    show ?thesis
      unfolding T q transition_table_def using b Some
      by (simp add: Let_def split: option.split)
  qed
qed

text \<open>C6: The outcome of acknowledge and resolve on every branch, whatever becomes of the statements
  they send: 400 without a user id; 500 when the update is not delivered or its reply is lost (then
  the alert may have changed all the same), for ids that are not UUIDs and for an unknown user; 404
  for an unknown alert, and for a known one when the follow-up lookup fails; 409 with the
  transition's message when the alert has not a status the transition starts from; otherwise 200
  with the alert as stored (an empty body if JSON cannot carry its triggering value). Only an alert that matched changes: acknowledging an open one sets its
  status, the time and the user of the acknowledgement, resolving an open or acknowledged one its
  status, the time and the user of the resolution, and no other column.\<close>

theorem transition_outcome:
  assumes "db_ok E (app_db a)" and "rw_sent w = None"
  shows "answer w (acknowledgeAlert cd E r (w, a)) =
      as_answer (transition_table cd E [''open'']
        (\<lambda>v x. x\<lparr>al_Status := ''acknowledged'', al_AcknowledgedAt := Some (timestamptz (app_now a)), al_AcknowledgedBy := Some v\<rparr>)
        ''alert is not open (already acknowledged or resolved)'' r (w_faults (app_world a)) (app_db a)) \<and>
    answer w (resolveAlert cd E r (w, a)) =
      as_answer (transition_table cd E [''open'', ''acknowledged'']
        (\<lambda>v x. x\<lparr>al_Status := ''resolved'', al_ResolvedAt := Some (timestamptz (app_now a)), al_ResolvedBy := Some v\<rparr>)
        ''alert is already resolved'' r (w_faults (app_world a)) (app_db a))"
proof -
  have sel: "ts_fromStatuses acknowledge_spec = [''open'']" "ts_fromStatuses resolve_spec = [''open'', ''acknowledged'']"
    "ts_conflictMsg acknowledge_spec = ''alert is not open (already acknowledged or resolved)''"
    "ts_conflictMsg resolve_spec = ''alert is already resolved''"
    by (simp_all add: acknowledge_spec_def resolve_spec_def)
  have eff: "transition_effect acknowledge_spec = acknowledged_by" "transition_effect resolve_spec = resolved_by"
    using specs_differ by (simp_all add: transition_effect_def)
  show ?thesis
    using transition_answer [OF _ assms, of acknowledge_spec cd r, unfolded sel eff acknowledged_by_def [abs_def]]
      transition_answer [OF _ assms, of resolve_spec cd r, unfolded sel eff resolved_by_def [abs_def]]
    by (simp add: acknowledgeAlert_def resolveAlert_def is_transition_def)
qed

definition demo_app :: "pgdb \<Rightarrow> fault list \<Rightarrow> App" where
  "demo_app db fs = \<lparr>app_world = \<lparr>w_db = db, w_telemetry = [], w_faults = fs, w_slept = []\<rparr>, app_now = 5000, app_log = []\<rparr>"

definition api_codec :: codec where
  "api_codec = \<lparr>parse_all = (\<lambda>_. None),
     parse_first = (\<lambda>s. if s = [] then None else Some (JObj [(''user_id'', JStr s)])),
     strict_RFC3339 = (\<lambda>s. None), parse_RFC3339 = (\<lambda>s. Some (int (length s))), ParseFloat = (\<lambda>s. None)\<rparr>"

definition demo_request :: "string \<Rightarrow> string \<Rightarrow> request" where
  "demo_request i body = \<lparr>rq_Method = ''POST'', rq_Path = [], rq_Header = [], rq_Query = [],
     rq_PathValue = [(''id'', i)], rq_Body = body, rq_RemoteAddr = [], rq_logger = None\<rparr>"

lemma demo_app_sel [simp]:
  "app_db (demo_app db fs) = db" "w_faults (app_world (demo_app db fs)) = fs" "app_now (demo_app db fs) = 5000"
  by (simp_all add: demo_app_def)

lemma new_writer_fresh [simp]: "rw_sent new_writer = None"
  by (simp add: new_writer_def)

lemma is_transition_simps [simp]: "is_transition acknowledge_spec" "is_transition resolve_spec"
  by (simp_all add: is_transition_def)

theorem transition_outcome_witness:
  "answer new_writer (acknowledgeAlert api_codec demo_env (demo_request ''a1'' ''op'') (new_writer, demo_app demo_alert_db [Lost ''eof''])) =
     (500, [VError ''failed to update alert''],
      demo_alert_db\<lparr>alerts := [demo_open_alert\<lparr>al_Status := ''acknowledged'', al_AcknowledgedAt := Some 5000, al_AcknowledgedBy := Some ''op''\<rparr>]\<rparr>) \<and>
   answer new_writer (resolveAlert api_codec demo_env (demo_request ''a1'' ''op'') (new_writer, demo_app demo_alert_db [])) =
     (200, [VAlert (demo_open_alert\<lparr>al_Status := ''resolved'', al_ResolvedAt := Some 5000, al_ResolvedBy := Some ''op''\<rparr>)],
      demo_alert_db\<lparr>alerts := [demo_open_alert\<lparr>al_Status := ''resolved'', al_ResolvedAt := Some 5000, al_ResolvedBy := Some ''op''\<rparr>]\<rparr>)"
proof -
  let ?r = "demo_request ''a1'' ''op''"
  have "as_answer (transition_table api_codec demo_env [''open'']
      (\<lambda>v x. x\<lparr>al_Status := ''acknowledged'', al_AcknowledgedAt := Some (timestamptz 5000), al_AcknowledgedBy := Some v\<rparr>)
      ''alert is not open (already acknowledged or resolved)'' ?r [Lost ''eof''] demo_alert_db) =
    (500, [VError ''failed to update alert''],
      demo_alert_db\<lparr>alerts := [demo_open_alert\<lparr>al_Status := ''acknowledged'', al_AcknowledgedAt := Some 5000, al_AcknowledgedBy := Some ''op''\<rparr>]\<rparr>)"
    by code_simp
  moreover have "as_answer (transition_table api_codec demo_env [''open'', ''acknowledged'']
      (\<lambda>v x. x\<lparr>al_Status := ''resolved'', al_ResolvedAt := Some (timestamptz 5000), al_ResolvedBy := Some v\<rparr>)
      ''alert is already resolved'' ?r [] demo_alert_db) =
    (200, [VAlert (demo_open_alert\<lparr>al_Status := ''resolved'', al_ResolvedAt := Some 5000, al_ResolvedBy := Some ''op''\<rparr>)],
      demo_alert_db\<lparr>alerts := [demo_open_alert\<lparr>al_Status := ''resolved'', al_ResolvedAt := Some 5000, al_ResolvedBy := Some ''op''\<rparr>]\<rparr>)"
    by code_simp
  ultimately show ?thesis
    using transition_outcome [of demo_env "demo_app demo_alert_db [Lost ''eof'']" new_writer api_codec ?r]
      transition_outcome [of demo_env "demo_app demo_alert_db []" new_writer api_codec ?r]
    by (simp add: demo_alert_db_ok)
qed

text \<open>An alert that has left the statuses a transition starts from never returns to them.\<close>

lemma transition_left_for_good:
  assumes "alert_evolves x y" "al_Status x \<notin> set (ts_fromStatuses spec)" "is_transition spec" "lifecycle_ok x" "lifecycle_ok y"
  shows "al_Status y \<notin> set (ts_fromStatuses spec)"
  using assms specs_differ
  by (auto simp: is_transition_def alert_evolves_def acknowledge_spec_def resolve_spec_def lifecycle_ok_def phase_of_def
      less_eq_alert_phase_def split: if_splits)

lemma db_evolves_find:
  assumes "db_evolves db db'" "distinct (map al_ID (alerts db'))" "x \<in> set (alerts db)"
  shows "\<exists>y. List.find (\<lambda>a. al_ID a = al_ID x) (alerts db') = Some y \<and> alert_evolves x y"
proof -
  from assms(3) obtain k where k: "k < length (alerts db)" "alerts db ! k = x" by (auto simp: in_set_conv_nth)
  let ?y = "alerts db' ! k"
  from assms(1) k have y: "?y \<in> set (alerts db')" "alert_evolves x ?y" by (auto simp: db_evolves_def)
  then have id: "al_ID ?y = al_ID x" by (simp add: alert_evolves_def)
  then obtain z where z: "List.find (\<lambda>a. al_ID a = al_ID x) (alerts db') = Some z"
    using y(1) by (metis (mono_tags, lifting) find_None_iff option.exhaust)
  then have "z \<in> set (alerts db')" "al_ID z = al_ID x" by (auto simp: find_Some_iff)
  with y id have "z = ?y" using distinct_map_eqD [OF assms(2)] by metis
  with z y show ?thesis by blast
qed

lemma transition_effect_sel:
  "is_transition spec \<Longrightarrow> al_ID (transition_effect spec now v x) = al_ID x"
  "is_transition spec \<Longrightarrow> is_transition spec' \<Longrightarrow> spec = spec' \<or> spec = resolve_spec \<Longrightarrow>
   al_Status (transition_effect spec now v x) \<notin> set (ts_fromStatuses spec')"
  using specs_differ
  by (auto simp: is_transition_def transition_effect_def acknowledged_by_def resolved_by_def)
    (auto simp: acknowledge_spec_def resolve_spec_def)

text \<open>C18: A transition succeeds once. After a request has acknowledged (or resolved) an alert, whatever
  other requests and workers do in between, every later request for the same transition of that
  alert, and every acknowledgement of a resolved one, is answered 409 and changes nothing.\<close>

theorem transition_succeeds_once:
  assumes spec: "is_transition spec" "is_transition spec'" "spec = spec' \<or> spec = resolve_spec"
    and first: "w_faults (app_world a) = []" "db_ok E (app_db a)" "rw_sent w = None"
      "status_of (fst (transitionAlert cd E spec r (w, a))) = 200"
    and between: "db_evolves (app_db (snd (transitionAlert cd E spec r (w, a)))) (app_db a')" "db_ok E (app_db a')" "pgenv_ok E"
    and second: "w_faults (app_world a') = []" "rw_sent w' = None" "path_value r' ''id'' = path_value r ''id''"
      "decode_ack cd (rq_Body r') = Some b'" "ack_UserID b' \<noteq> []" "uuid_parse E (ack_UserID b') = Some v'"
  shows "status_of (fst (transitionAlert cd E spec' r' (w', a'))) = 409 \<and>
    app_db (snd (transitionAlert cd E spec' r' (w', a'))) = app_db a'"
proof -
  note T = transition_no_fault [OF spec(1) first(1,2,3), of cd r]
  from T(1) first(4) have ok: "transition_status cd E spec r (app_db a) = 200" by simp
  then obtain b u v x where b: "decode_ack cd (rq_Body r) = Some b" and u: "uuid_parse E (path_value r ''id'') = Some u"
    and v: "uuid_parse E (ack_UserID b) = Some v" and x: "List.find (\<lambda>x. al_ID x = u) (alerts (app_db a)) = Some x"
    by (auto simp: transition_status_def split: option.splits if_splits)
  from x have mem: "x \<in> set (alerts (app_db a))" "al_ID x = u" by (auto simp: find_Some_iff)
  let ?db = "update_alerts (\<lambda>x. al_ID x = u) (transition_effect spec (app_now a) v) (app_db a)"
  let ?x = "transition_effect spec (app_now a) v x"
  have db1: "app_db (snd (transitionAlert cd E spec r (w, a))) = ?db" using T(2) ok b u v by simp
  have "safe_change E a (snd (transitionAlert cd E spec r (w, a)))"
    using spec(1) transition_handler [of E spec cd] spec_queries_safe [of E] unfolding is_transition_def api_handler_def by blast
  with first(2) between(3) db1 have "db_ok E ?db" by (simp add: safe_change_def safe_db_def)
  moreover have x1: "?x \<in> set (alerts ?db)" using mem by (force simp: image_iff)
  ultimately have lx: "lifecycle_ok ?x" by (simp add: db_ok_def list_all_iff)
  have dist: "distinct (map al_ID (alerts (app_db a')))" using between(2) by (simp add: db_ok_def schema_ok_def)
  obtain y where y: "List.find (\<lambda>a. al_ID a = al_ID ?x) (alerts (app_db a')) = Some y" "alert_evolves ?x y"
    using db_evolves_find [OF between(1) [unfolded db1] dist x1] by blast
  then have "y \<in> set (alerts (app_db a'))" by (auto simp: find_Some_iff)
  with between(2) have "lifecycle_ok y" by (simp add: db_ok_def list_all_iff)
  with y lx spec have "al_Status y \<notin> set (ts_fromStatuses spec')"
    using transition_left_for_good [of ?x y spec'] transition_effect_sel(2) [OF spec(1,2,3)] by blast
  with y second u mem spec(1) have "transition_status cd E spec' r' (app_db a') = 409"
    by (simp add: transition_status_def transition_effect_sel(1))
  with transition_no_fault [OF spec(2) second(1) between(2) second(2), of cd r'] show ?thesis by simp
qed

theorem transition_succeeds_once_witness:
  "status_of (fst (transitionAlert api_codec demo_env acknowledge_spec (demo_request ''a1'' ''op'')
     (new_writer, snd (transitionAlert api_codec demo_env acknowledge_spec (demo_request ''a1'' ''op'')
        (new_writer, demo_app demo_alert_db []))))) = 409"
proof -
  let ?r = "demo_request ''a1'' ''op''"
  let ?a = "demo_app demo_alert_db []"
  let ?a1 = "snd (transitionAlert api_codec demo_env acknowledge_spec ?r (new_writer, ?a))"
  have st: "status_of (fst (transitionAlert api_codec demo_env acknowledge_spec ?r (new_writer, ?a))) = 200" by code_simp
  have nf: "w_faults (app_world ?a1) = []" by code_simp
  have "safe_change demo_env ?a ?a1" using acknowledge.safe [of demo_env ?a api_codec ?r] by (simp add: acknowledgeAlert_def)
  then have "db_ok demo_env (app_db ?a1)" using demo_alert_db_ok demo_env_ok by (simp add: safe_change_def safe_db_def)
  moreover have "decode_ack api_codec (rq_Body ?r) = Some \<lparr>ack_UserID = ''op''\<rparr>" by code_simp
  ultimately show ?thesis
    using transition_succeeds_once [of acknowledge_spec acknowledge_spec ?a demo_env new_writer api_codec ?r ?a1 new_writer ?r
        "\<lparr>ack_UserID = ''op''\<rparr>" "''op''"] st nf demo_env_ok demo_alert_db_ok
    by (simp add: demo_env_def)
qed

end
