(* ===== verification/Api_Rules.thy ===== *)
theory Api_Rules
  imports Api_Alerts
begin

text \<open>
  \<open>api/alert_rules.go\<close>: listing, creating, updating and deleting alert rules, with the constraints
  of the schema deciding what is accepted.
\<close>

subsection \<open>Listing\<close>

definition query_rules :: "pgenv \<Rightarrow> string \<Rightarrow> pgdb \<Rightarrow> pgerr + AlertRule list" where
  "query_rules E deviceID db =
     (if deviceID \<noteq> [] then
        (case uuid_parse E deviceID of
           None \<Rightarrow> Inl invalid_uuid
         | Some u \<Rightarrow> Inr (sort_key (\<lambda>r. collation_key E (ar_Metric r))
             (filter (\<lambda>r. ar_DeviceID r = u) (in_scan_order E (alert_rules db)))))
      else Inr (sort_key (\<lambda>r. collation_key E (ar_Metric r)) (in_scan_order E (alert_rules db))))"

definition listAlertRules :: "pgenv \<Rightarrow> handler" where
  "listAlertRules E r wa =
     list_response r ''query alert_rules'' ''scan alert_rule'' ''failed to list alert rules'' VRules
       (query_rules E (query_Get r ''device_id'')) wa"

subsection \<open>Creating and updating\<close>

definition AlertRuleInput_zero :: AlertRuleInput where
  "AlertRuleInput_zero = \<lparr>in_DeviceID = [], in_Metric = [], in_Operator = [], in_Threshold = Finite 0,
     in_Severity = [], in_Enabled = None\<rparr>"

definition set_rule_field :: "string \<Rightarrow> json \<Rightarrow> AlertRuleInput \<Rightarrow> AlertRuleInput option" where
  "set_rule_field f j x =
     (if f = ''device_id'' then map_option (\<lambda>s. x\<lparr>in_DeviceID := s\<rparr>) (decode_string j (in_DeviceID x))
      else if f = ''metric'' then map_option (\<lambda>s. x\<lparr>in_Metric := s\<rparr>) (decode_string j (in_Metric x))
      else if f = ''operator'' then map_option (\<lambda>s. x\<lparr>in_Operator := s\<rparr>) (decode_string j (in_Operator x))
      else if f = ''threshold'' then map_option (\<lambda>v. x\<lparr>in_Threshold := v\<rparr>) (decode_float j (in_Threshold x))
      else if f = ''severity'' then map_option (\<lambda>s. x\<lparr>in_Severity := s\<rparr>) (decode_string j (in_Severity x))
      else map_option (\<lambda>b. x\<lparr>in_Enabled := b\<rparr>) (decode_bool_ptr j (in_Enabled x)))"

definition decode_rule_input :: "codec \<Rightarrow> string \<Rightarrow> AlertRuleInput option" where
  "decode_rule_input cd raw =
     (case parse_first cd raw of None \<Rightarrow> None
      | Some j \<Rightarrow> decode_struct [''device_id'', ''metric'', ''operator'', ''threshold'', ''severity'', ''enabled'']
          set_rule_field j AlertRuleInput_zero)"

definition input_enabled :: "AlertRuleInput \<Rightarrow> bool" where
  "input_enabled x = (case in_Enabled x of None \<Rightarrow> True | Some b \<Rightarrow> b)"

definition texts_valid :: "pgenv \<Rightarrow> AlertRuleInput \<Rightarrow> bool" where
  "texts_valid E x \<longleftrightarrow> text_valid E (in_Metric x) \<and> text_valid E (in_Operator x) \<and> text_valid E (in_Severity x)"

definition checks_ok :: "AlertRuleInput \<Rightarrow> bool" where
  "checks_ok x \<longleftrightarrow> in_Operator x \<in> set operators \<and> in_Severity x \<in> set severities"

definition stmt_insert_rule :: "pgenv \<Rightarrow> AlertRuleInput \<Rightarrow> bool \<Rightarrow> pgdb \<Rightarrow> pgerr + AlertRule \<times> pgdb" where
  "stmt_insert_rule E x enabled db =
     (case uuid_parse E (in_DeviceID x) of
        None \<Rightarrow> Inl invalid_uuid
      | Some d \<Rightarrow>
          if \<not> texts_valid E x then Inl invalid_text
          else
            let i = gen_random_uuid E (uuids_drawn db);
                row = \<lparr>ar_ID = i, ar_DeviceID = d, ar_Metric = in_Metric x, ar_Operator = in_Operator x,
                       ar_Threshold = in_Threshold x, ar_Severity = in_Severity x, ar_Enabled = enabled\<rparr>
            in if \<not> checks_ok x then Inl check_violation
               else if i \<in> ar_ID ` set (alert_rules db) then Inl unique_violation
               else if d \<notin> dev_ID ` set (devices db) then Inl foreign_key_violation
               else Inr (row, db\<lparr>alert_rules := alert_rules db @ [row], uuids_drawn := Suc (uuids_drawn db)\<rparr>))"

definition createAlertRule :: "codec \<Rightarrow> pgenv \<Rightarrow> handler" where
  "createAlertRule cd E r wa =
     (case wa of (w, a) \<Rightarrow>
       (case decode_rule_input cd (rq_Body r) of
          None \<Rightarrow> writeError 400 ''invalid request body'' (w, a)
        | Some x \<Rightarrow>
            if in_DeviceID x = [] \<or> in_Metric x = [] \<or> in_Operator x = [] \<or> in_Severity x = []
            then writeError 400 ''device_id, metric, operator, threshold, severity are required'' (w, a)
            else
              (case app_stmt (stmt_insert_rule E x (input_enabled x)) a of
                 (Inl e, a1) \<Rightarrow> writeError 400 ''failed to create alert rule (check device_id, operator, severity)''
                    (w, app_Log r ''insert alert_rule'' a1)
               | (Inr ar, a1) \<Rightarrow> writeJSON 201 (Some (VRule ar)) (w, a1))))"

definition updated_rule :: "AlertRuleInput \<Rightarrow> bool \<Rightarrow> AlertRule \<Rightarrow> AlertRule" where
  "updated_rule x enabled r = r\<lparr>ar_Metric := in_Metric x, ar_Operator := in_Operator x,
     ar_Threshold := in_Threshold x, ar_Severity := in_Severity x, ar_Enabled := enabled\<rparr>"

definition stmt_update_rule :: "pgenv \<Rightarrow> string \<Rightarrow> AlertRuleInput \<Rightarrow> bool \<Rightarrow> pgdb \<Rightarrow> pgerr + AlertRule \<times> pgdb" where
  "stmt_update_rule E i x enabled db =
     (case uuid_parse E i of
        None \<Rightarrow> Inl invalid_uuid
      | Some u \<Rightarrow>
          if \<not> texts_valid E x then Inl invalid_text
          else (case filter (\<lambda>r. ar_ID r = u) (alert_rules db) of
                  [] \<Rightarrow> Inl ErrNoRows
                | r # _ \<Rightarrow>
                    if \<not> checks_ok x then Inl check_violation
                    else Inr (updated_rule x enabled r,
                      db\<lparr>alert_rules := map (\<lambda>r. if ar_ID r = u then updated_rule x enabled r else r) (alert_rules db)\<rparr>)))"

definition updateAlertRule :: "codec \<Rightarrow> pgenv \<Rightarrow> handler" where
  "updateAlertRule cd E r wa =
     (case wa of (w, a) \<Rightarrow>
       let i = path_value r ''id'' in
       (case decode_rule_input cd (rq_Body r) of
          None \<Rightarrow> writeError 400 ''invalid request body'' (w, a)
        | Some x \<Rightarrow>
            (case app_stmt (stmt_update_rule E i x (input_enabled x)) a of
               (Inl ErrNoRows, a1) \<Rightarrow> writeError 404 ''alert rule not found'' (w, a1)
             | (Inl _, a1) \<Rightarrow> writeError 400 ''failed to update alert rule'' (w, app_Log r ''update alert_rule'' a1)
             | (Inr ar, a1) \<Rightarrow> writeJSON 200 (Some (VRule ar)) (w, a1))))"

subsection \<open>Deleting\<close>

definition postgresForeignKeyViolation :: string where
  "postgresForeignKeyViolation = ''23503''"

text \<open>\<open>ON DELETE RESTRICT\<close>; the result is the number of rows affected.\<close>

definition stmt_delete_rule :: "pgenv \<Rightarrow> string \<Rightarrow> pgdb \<Rightarrow> pgerr + nat \<times> pgdb" where
  "stmt_delete_rule E i db =
     (case uuid_parse E i of
        None \<Rightarrow> Inl invalid_uuid
      | Some u \<Rightarrow>
          let hit = filter (\<lambda>r. ar_ID r = u) (alert_rules db) in
          if hit \<noteq> [] \<and> u \<in> al_AlertRuleID ` set (alerts db) then Inl foreign_key_violation
          else Inr (length hit, db\<lparr>alert_rules := filter (\<lambda>r. ar_ID r \<noteq> u) (alert_rules db)\<rparr>))"

definition deleteAlertRule :: "pgenv \<Rightarrow> handler" where
  "deleteAlertRule E r wa =
     (case wa of (w, a) \<Rightarrow>
       let i = path_value r ''id'' in
       (case app_stmt (stmt_delete_rule E i) a of
          (Inl e, a1) \<Rightarrow>
            if e = PgError postgresForeignKeyViolation
            then writeError 409 ''alert rule still has alerts referencing it'' (w, a1)
            else writeError 500 ''failed to delete alert rule'' (w, app_Log r ''delete alert_rule'' a1)
        | (Inr tag, a1) \<Rightarrow>
            if tag = 0 then writeError 404 ''alert rule not found'' (w, a1)
            else writeJSON 204 None (w, a1)))"

subsection \<open>Lemmas: the statements keep the database well formed\<close>

lemma safe_rules_change:
  assumes "alerts db' = alerts db"
    and "pgenv_ok E \<Longrightarrow> db_ok E db \<Longrightarrow> db_ok E db'" and "pgenv_ok E \<Longrightarrow> ids_fresh E db \<Longrightarrow> ids_fresh E db'"
  shows "safe_db E db db'"
  using assms by (simp add: safe_db_def db_evolves_same_alerts active_count_def)

lemma alert_rows_subset:
  assumes "alerts db' = alerts db" "devices db' = devices db" "users db' = users db"
    "al_AlertRuleID ` set (alerts db) \<subseteq> ar_ID ` set (alert_rules db')" "list_all (alert_row_ok db) (alerts db)"
  shows "list_all (alert_row_ok db') (alerts db')"
  using assms by (auto simp: list_all_iff alert_row_ok_def)

lemma db_ok_alert_rule: "db_ok E db \<Longrightarrow> a \<in> set (alerts db) \<Longrightarrow> al_AlertRuleID a \<in> ar_ID ` set (alert_rules db)"
  by (simp add: db_ok_def schema_ok_def list_all_iff alert_row_ok_def)

lemma insert_rule_safe: "safe_stmt E (stmt_insert_rule E x enabled)"
  unfolding safe_stmt_def
proof (intro allI impI)
  fix db row db' assume "stmt_insert_rule E x enabled db = Inr (row, db')"
  then obtain d where d: "uuid_parse E (in_DeviceID x) = Some d" "d \<in> dev_ID ` set (devices db)" "checks_ok x"
    and row: "row = \<lparr>ar_ID = gen_random_uuid E (uuids_drawn db), ar_DeviceID = d, ar_Metric = in_Metric x,
        ar_Operator = in_Operator x, ar_Threshold = in_Threshold x, ar_Severity = in_Severity x, ar_Enabled = enabled\<rparr>"
    and new: "ar_ID row \<notin> ar_ID ` set (alert_rules db)"
    and db': "db' = db\<lparr>alert_rules := alert_rules db @ [row], uuids_drawn := Suc (uuids_drawn db)\<rparr>"
    by (auto simp: stmt_insert_rule_def Let_def split: option.splits if_splits)
  show "safe_db E db db'"
  proof (rule safe_rules_change)
    show "alerts db' = alerts db" by (simp add: db')
    show "ids_fresh E db'" if "ids_fresh E db"
      using that row by (auto simp: ids_fresh_def db' dest: injD)
    show "db_ok E db'" if E: "pgenv_ok E" and db: "db_ok E db"
    proof -
      have fk: "al_AlertRuleID a \<noteq> ar_ID row" if "a \<in> set (alerts db)" for a
        using db_ok_alert_rule [OF db that] new by metis
      have "alert_devices_ok db'" using db fk unfolding db_ok_def alert_devices_ok_def db' by (auto dest: fk)
      moreover have "rule_row_ok db' = rule_row_ok db" by (rule rule_row_ok_cong) (simp add: db')
      moreover have "rule_row_ok db row" using d row by (simp add: rule_row_ok_def checks_ok_def)
      moreover have "list_all (alert_row_ok db') (alerts db')"
        by (rule alert_rows_subset) (use db in \<open>auto simp: db' db_ok_def schema_ok_def list_all_iff alert_row_ok_def\<close>)
      moreover have "uuid_parse E (ar_ID row) = Some (ar_ID row)" using uuid_parse_gen [OF E] row by simp
      moreover have "map ar_ID (alert_rules db') = map ar_ID (alert_rules db) @ [ar_ID row]" "alert_rules db' = alert_rules db @ [row]"
        "sites db' = sites db" "devices db' = devices db" "users db' = users db" "alerts db' = alerts db" by (simp_all add: db')
      ultimately show ?thesis
        using db new unfolding db_ok_def schema_ok_def all_ids_def by (simp del: map_append)
    qed
  qed
qed

lemma stmt_update_rule_Inr:
  "stmt_update_rule E i x enabled db = Inr (row, db') \<longleftrightarrow>
     (\<exists>u r rs. uuid_parse E i = Some u \<and> texts_valid E x \<and> checks_ok x \<and> filter (\<lambda>r. ar_ID r = u) (alert_rules db) = r # rs \<and>
        row = updated_rule x enabled r \<and>
        db' = db\<lparr>alert_rules := map (\<lambda>r. if ar_ID r = u then updated_rule x enabled r else r) (alert_rules db)\<rparr>)"
  by (auto simp: stmt_update_rule_def split: option.splits list.splits if_splits)

lemma updated_rule_sel [simp]:
  "ar_ID (updated_rule x b r) = ar_ID r" "ar_DeviceID (updated_rule x b r) = ar_DeviceID r"
  by (simp_all add: updated_rule_def)

lemma update_rule_safe: "safe_stmt E (stmt_update_rule E i x enabled)"
  unfolding safe_stmt_def
proof (intro allI impI)
  fix db row db' assume "stmt_update_rule E i x enabled db = Inr (row, db')"
  then obtain u where x: "checks_ok x"
    and db': "db' = db\<lparr>alert_rules := map (\<lambda>r. if ar_ID r = u then updated_rule x enabled r else r) (alert_rules db)\<rparr>"
    by (auto simp: stmt_update_rule_Inr)
  have ids: "map ar_ID (alert_rules db') = map ar_ID (alert_rules db)" by (simp add: db')
  then have set_ids: "ar_ID ` set (alert_rules db') = ar_ID ` set (alert_rules db)" by (metis list.set_map)
  show "safe_db E db db'"
  proof (rule safe_rules_change)
    show "alerts db' = alerts db" by (simp add: db')
    show "ids_fresh E db'" if "ids_fresh E db" using that set_ids by (simp add: ids_fresh_def db')
    show "db_ok E db'" if db: "db_ok E db"
    proof -
      have "alert_devices_ok db'" using db by (auto simp: db' db_ok_def alert_devices_ok_def split: if_splits)
      moreover have "list_all (rule_row_ok db') (alert_rules db')"
        using db x by (auto simp: db' db_ok_def schema_ok_def list_all_iff rule_row_ok_def checks_ok_def updated_rule_def)
      moreover have "list_all (alert_row_ok db') (alerts db')"
        by (rule alert_rows_subset) (use db set_ids in \<open>auto simp: db' db_ok_def schema_ok_def list_all_iff alert_row_ok_def\<close>)
      moreover have "all_ids db' = all_ids db" unfolding all_ids_def ids by (simp add: db')
      moreover have "sites db' = sites db" "devices db' = devices db" "users db' = users db" "alerts db' = alerts db" by (simp_all add: db')
      ultimately show ?thesis using db ids unfolding db_ok_def schema_ok_def by simp
    qed
  qed
qed

lemma delete_rule_safe: "safe_stmt E (stmt_delete_rule E i)"
  unfolding safe_stmt_def
proof (intro allI impI)
  fix db n db' assume "stmt_delete_rule E i db = Inr (n, db')"
  moreover from this obtain u where u: "uuid_parse E i = Some u"
    by (auto simp: stmt_delete_rule_def split: option.splits)
  ultimately have free: "\<not> (filter (\<lambda>r. ar_ID r = u) (alert_rules db) \<noteq> [] \<and> u \<in> al_AlertRuleID ` set (alerts db))"
    and db': "db' = db\<lparr>alert_rules := filter (\<lambda>r. ar_ID r \<noteq> u) (alert_rules db)\<rparr>"
    unfolding stmt_delete_rule_def Let_def u option.case by (metis Inl_Inr_False Inr_inject prod.inject)+
  show "safe_db E db db'"
  proof (rule safe_rules_change)
    show "alerts db' = alerts db" by (simp add: db')
    show "ids_fresh E db'" if "ids_fresh E db" using that by (auto simp: ids_fresh_def db')
    show "db_ok E db'" if db: "db_ok E db"
    proof -
      have sub: "al_AlertRuleID ` set (alerts db) \<subseteq> ar_ID ` set (alert_rules db')"
      proof (intro subsetI, elim imageE)
        fix k a assume a: "k = al_AlertRuleID a" "a \<in> set (alerts db)"
        from db_ok_alert_rule [OF db a(2)] obtain r where "r \<in> set (alert_rules db)" "ar_ID r = k" using a(1) by auto
        moreover have "k \<noteq> u" using a free calculation by (auto simp: filter_empty_conv)
        ultimately show "k \<in> ar_ID ` set (alert_rules db')" by (force simp: db')
      qed
      have "list_all (alert_row_ok db') (alerts db')"
        by (rule alert_rows_subset [OF _ _ _ sub]) (use db in \<open>auto simp: db' db_ok_def schema_ok_def\<close>)
      moreover have "rule_row_ok db' = rule_row_ok db" by (rule rule_row_ok_cong) (simp add: db')
      ultimately show ?thesis
        using db by (auto simp: db' db_ok_def schema_ok_def alert_devices_ok_def list_all_iff all_ids_def distinct_map_filter)
    qed
  qed
qed

subsection \<open>The handlers meet the contract\<close>

interpretation list_rules: api_handler E "{200, 500}" "listAlertRules E" for E
  using list_response_handler [of E "\<lambda>_. ''query alert_rules''" "\<lambda>_. ''scan alert_rule''" "\<lambda>_. ''failed to list alert rules''"
      "\<lambda>_. VRules" "\<lambda>r. query_rules E (query_Get r ''device_id'')"]
  by (simp add: listAlertRules_def [abs_def])

interpretation create_rule: api_handler E "{201, 400}" "createAlertRule cd E" for cd E
proof
  show "answered {201, 400} w (fst (createAlertRule cd E r (w, a)))" if "rw_sent w = None" for w r a
    using that by (auto simp: createAlertRule_def split: option.split prod.split sum.split)
  show "safe_change E a (snd (createAlertRule cd E r (w, a)))" for a r w
  proof -
    obtain q a1 where 1: "app_stmt (stmt_insert_rule E x b) a = (q x b, a1 x b)" for x b by (meson surj_pair)
    note S = app_stmt_safe [OF insert_rule_safe 1]
    show ?thesis
      using S by (auto simp: createAlertRule_def 1 safe_change_same_world split: option.split sum.split)
  qed
qed

interpretation update_rule: api_handler E "{200, 400, 404}" "updateAlertRule cd E" for cd E
proof
  show "answered {200, 400, 404} w (fst (updateAlertRule cd E r (w, a)))" if "rw_sent w = None" for w r a
    using that by (auto simp: updateAlertRule_def Let_def split: option.split prod.split sum.split pgerr.split)
  fix a r w
  obtain q a1 where 1: "app_stmt (stmt_update_rule E (path_value r ''id'') x b) a = (q x b, a1 x b)" for x b
    by (meson surj_pair)
  note S = app_stmt_safe [OF update_rule_safe 1]
  show "safe_change E a (snd (updateAlertRule cd E r (w, a)))"
    using S by (auto simp: updateAlertRule_def 1 Let_def safe_change_same_world split: option.split sum.split pgerr.split)
qed

interpretation delete_rule: api_handler E "{204, 404, 409, 500}" "deleteAlertRule E" for E
proof
  show "answered {204, 404, 409, 500} w (fst (deleteAlertRule E r (w, a)))" if "rw_sent w = None" for w r a
    using that by (auto simp: deleteAlertRule_def Let_def split: prod.split sum.split)
  show "safe_change E a (snd (deleteAlertRule E r (w, a)))" for a r w
  proof -
    obtain q a1 where 1: "app_stmt (stmt_delete_rule E (path_value r ''id'')) a = (q, a1)" by (meson surj_pair)
    note S = app_stmt_safe [OF delete_rule_safe 1]
    show ?thesis using S by (auto simp: deleteAlertRule_def 1 Let_def split: sum.split)
  qed
qed

subsection \<open>Specification of the outcomes\<close>

definition required_present :: "AlertRuleInput \<Rightarrow> bool" where
  "required_present x \<longleftrightarrow> in_DeviceID x \<noteq> [] \<and> in_Metric x \<noteq> [] \<and> in_Operator x \<noteq> [] \<and> in_Severity x \<noteq> []"

definition acceptable :: "pgenv \<Rightarrow> pgdb \<Rightarrow> AlertRuleInput \<Rightarrow> bool" where
  "acceptable E db x \<longleftrightarrow> required_present x \<and> texts_valid E x \<and> checks_ok x \<and>
     (\<exists>d \<in> set (devices db). uuid_parse E (in_DeviceID x) = Some (dev_ID d))"

definition rule_from_input :: "pgenv \<Rightarrow> pgdb \<Rightarrow> AlertRuleInput \<Rightarrow> AlertRule" where
  "rule_from_input E db x = \<lparr>ar_ID = gen_random_uuid E (uuids_drawn db), ar_DeviceID = the (uuid_parse E (in_DeviceID x)),
     ar_Metric = in_Metric x, ar_Operator = in_Operator x, ar_Threshold = in_Threshold x, ar_Severity = in_Severity x,
     ar_Enabled = input_enabled x\<rparr>"

lemma stmt_insert_rule_acceptable:
  assumes "required_present x" "ids_fresh E db"
  shows "stmt_insert_rule E x (input_enabled x) db =
    (if acceptable E db x then Inr (rule_from_input E db x,
       db\<lparr>alert_rules := alert_rules db @ [rule_from_input E db x], uuids_drawn := Suc (uuids_drawn db)\<rparr>)
     else (case stmt_insert_rule E x (input_enabled x) db of Inl e \<Rightarrow> Inl e | Inr y \<Rightarrow> Inl check_violation))"
proof -
  have "gen_random_uuid E (uuids_drawn db) \<notin> ar_ID ` set (alert_rules db)" using assms(2) by (simp add: ids_fresh_def)
  with assms(1) show ?thesis
    by (auto simp: stmt_insert_rule_def acceptable_def rule_from_input_def Let_def split: option.split)
qed

subsection \<open>Properties\<close>

text \<open>C31: Creating a rule, status, body and effect on every branch and whatever becomes of the insert:
  400 with its own message for a body that does not decode and for a missing required field; 201
  exactly when the device exists, the operator and severity are known and the statement succeeds,
  and then the stored and returned rule has the given fields, a fresh id, and is enabled unless the
  body says otherwise; 400 with a third message in every other case, and then nothing is stored,
  except that a rule the server accepted stays stored when its reply is lost or cannot be read.\<close>

theorem createAlertRule_outcome:
  assumes "ids_fresh E (app_db a)" and "rw_sent w = None"
  shows "answer w (createAlertRule cd E r (w, a)) = as_answer
    (let db = app_db a; ft = fault_at (w_faults (app_world a)) 0 in
     case decode_rule_input cd (rq_Body r) of
       None \<Rightarrow> (400, VError ''invalid request body'', db)
     | Some x \<Rightarrow>
         if \<not> required_present x then (400, VError ''device_id, metric, operator, threshold, severity are required'', db)
         else
           let new = rule_from_input E db x;
               stored = (if acceptable E db x \<and> \<not> unsent ft
                 then db\<lparr>alert_rules := alert_rules db @ [new], uuids_drawn := Suc (uuids_drawn db)\<rparr> else db)
           in if acceptable E db x \<and> ft = Ok then (201, VRule new, stored)
              else (400, VError ''failed to create alert rule (check device_id, operator, severity)'', stored))"
proof (cases "decode_rule_input cd (rq_Body r)")
  case None
  then show ?thesis by (simp add: createAlertRule_def Let_def answer_writeError [OF assms(2)])
next
  case (Some x)
  show ?thesis
  proof (cases "required_present x")
    case True
    note ins = stmt_insert_rule_acceptable [OF True assms(1)]
    from True Some ins show ?thesis
      by (cases "acceptable E (app_db a) x"; cases "stmt_insert_rule E x (input_enabled x) (app_db a)";
          cases "fault_at (w_faults (app_world a)) 0")
        (auto simp: createAlertRule_def required_present_def Let_def app_stmt_def run_stmt_def next_fault_at
          answer_writeError [OF assms(2)] answer_writeJSON [OF assms(2)])
  next
    case False
    with Some show ?thesis
      by (auto simp: createAlertRule_def required_present_def Let_def answer_writeError [OF assms(2)])
  qed
qed

definition rule_codec :: "(string \<times> json) list \<Rightarrow> codec" where
  "rule_codec kvs = api_codec\<lparr>parse_first := (\<lambda>s. if s = [] then None else Some (JObj kvs))\<rparr>"

definition demo_rule_body :: "(string \<times> json) list" where
  "demo_rule_body = [(''device_id'', JStr ''d1''), (''metric'', JStr ''humidity''), (''operator'', JStr ''lt''),
     (''severity'', JStr ''critical'')]"

lemma demo_db_fresh: "ids_fresh demo_env demo_db" "ids_fresh demo_env demo_alert_db"
  by (auto simp: ids_fresh_def inj_def demo_env_def demo_db_def demo_rule_row_def demo_alert_db_def demo_open_alert_def)

theorem createAlertRule_outcome_witness:
  "answer new_writer (createAlertRule (rule_codec demo_rule_body) demo_env (demo_request [] ''{}'') (new_writer, demo_app demo_db [Lost ''eof''])) =
   (400, [VError ''failed to create alert rule (check device_id, operator, severity)''],
    demo_db\<lparr>alert_rules := alert_rules demo_db @ [\<lparr>ar_ID = ''u'', ar_DeviceID = ''d1'', ar_Metric = ''humidity'', ar_Operator = ''lt'',
       ar_Threshold = Finite 0, ar_Severity = ''critical'', ar_Enabled = True\<rparr>], uuids_drawn := 1\<rparr>)"
proof -
  have t: "as_answer
    (let db = demo_db; ft = fault_at [Lost ''eof''] 0 in
     case decode_rule_input (rule_codec demo_rule_body) (rq_Body (demo_request [] ''{}'')) of
       None \<Rightarrow> (400, VError ''invalid request body'', db)
     | Some x \<Rightarrow>
         if \<not> required_present x then (400, VError ''device_id, metric, operator, threshold, severity are required'', db)
         else
           let new = rule_from_input demo_env db x;
               stored = (if acceptable demo_env db x \<and> \<not> unsent ft
                 then db\<lparr>alert_rules := alert_rules db @ [new], uuids_drawn := Suc (uuids_drawn db)\<rparr> else db)
           in if acceptable demo_env db x \<and> ft = Ok then (201, VRule new, stored)
              else (400, VError ''failed to create alert rule (check device_id, operator, severity)'', stored)) =
   (400, [VError ''failed to create alert rule (check device_id, operator, severity)''],
    demo_db\<lparr>alert_rules := alert_rules demo_db @ [\<lparr>ar_ID = ''u'', ar_DeviceID = ''d1'', ar_Metric = ''humidity'', ar_Operator = ''lt'',
       ar_Threshold = Finite 0, ar_Severity = ''critical'', ar_Enabled = True\<rparr>], uuids_drawn := 1\<rparr>)"
    by code_simp
  have "ids_fresh demo_env (app_db (demo_app demo_db [Lost ''eof'']))" by (simp add: demo_db_fresh)
  from createAlertRule_outcome [OF this new_writer_fresh, of "rule_codec demo_rule_body" "demo_request [] ''{}''"] show ?thesis
    unfolding demo_app_sel t .
qed

lemma createAlertRule_accepted:
  assumes "w_faults (app_world a) = []" "ids_fresh E (app_db a)" "decode_rule_input cd (rq_Body r) = Some x"
    "acceptable E (app_db a) x" "a1 = snd (createAlertRule cd E r (w, a))"
  shows "alert_rules (app_db a1) = alert_rules (app_db a) @ [rule_from_input E (app_db a) x]" "w_faults (app_world a1) = []"
proof -
  from assms(4) have "required_present x" by (simp add: acceptable_def)
  with assms stmt_insert_rule_acceptable [OF this assms(2)]
  show "alert_rules (app_db a1) = alert_rules (app_db a) @ [rule_from_input E (app_db a) x]" "w_faults (app_world a1) = []"
    by (auto simp: createAlertRule_def required_present_def app_stmt_def run_stmt_no_fault)
qed

text \<open>A created rule is found again: listing the rules of a device after an accepted creation
  answers 200 with exactly the rules it had before plus, when it is the device of the new rule, the
  new rule, ordered by metric.\<close>

theorem created_rule_listed:
  assumes "pgenv_ok E" and "w_faults (app_world a) = []" and "ids_fresh E (app_db a)"
    and "decode_rule_input cd (rq_Body r) = Some x" and "acceptable E (app_db a) x"
    and "query_Get r' ''device_id'' \<noteq> []" and "uuid_parse E (query_Get r' ''device_id'') = Some u"
    and "a1 = snd (createAlertRule cd E r (w, a))"
  shows "\<exists>ys. listAlertRules E r' (w', a1) = writeJSON 200 (Some (VRules ys)) (w', a1) \<and>
    mset ys = mset (filter (\<lambda>q. ar_DeviceID q = u) (alert_rules (app_db a))) +
      (if u = ar_DeviceID (rule_from_input E (app_db a) x) then {#rule_from_input E (app_db a) x#} else {#}) \<and>
    sorted (map (\<lambda>q. collation_key E (ar_Metric q)) ys)"
proof -
  note acc = createAlertRule_accepted [OF assms(2-5,8)]
  let ?xs = "filter (\<lambda>q. ar_DeviceID q = u) (in_scan_order E (alert_rules (app_db a1)))"
  let ?ys = "sort_key (\<lambda>q. collation_key E (ar_Metric q)) ?xs"
  have q: "query_rules E (query_Get r' ''device_id'') (app_db a1) = Inr ?ys" using assms(6,7) by (simp add: query_rules_def)
  have "mset ?ys = mset (filter (\<lambda>q. ar_DeviceID q = u) (alert_rules (app_db a1)))"
    by (simp add: mset_in_scan_order [OF assms(1)])
  then have "mset ?ys = mset (filter (\<lambda>q. ar_DeviceID q = u) (alert_rules (app_db a))) +
      (if u = ar_DeviceID (rule_from_input E (app_db a) x) then {#rule_from_input E (app_db a) x#} else {#})"
    by (auto simp: acc(1))
  moreover have "listAlertRules E r' (w', a1) = writeJSON 200 (Some (VRules ?ys)) (w', a1)"
    unfolding listAlertRules_def
    by (rule list_response_no_fault [where q = "query_rules E (query_Get r' ''device_id'')", OF acc(2) q])
  ultimately show ?thesis by (intro exI [of _ ?ys]) simp
qed

theorem created_rule_listed_witness:
  "\<exists>ys. fst (listAlertRules demo_env ((demo_request [] [])\<lparr>rq_Query := [(''device_id'', [''d1''])]\<rparr>)
      (new_writer, snd (createAlertRule (rule_codec demo_rule_body) demo_env (demo_request [] ''{}'') (new_writer, demo_app demo_db [])))) =
      fst (writeJSON 200 (Some (VRules ys)) (new_writer, demo_app demo_db [])) \<and> length ys = 3"
proof -
  let ?r' = "(demo_request [] [])\<lparr>rq_Query := [(''device_id'', [''d1''])]\<rparr>"
  let ?a1 = "snd (createAlertRule (rule_codec demo_rule_body) demo_env (demo_request [] ''{}'') (new_writer, demo_app demo_db []))"
  have "case decode_rule_input (rule_codec demo_rule_body) (rq_Body (demo_request [] ''{}'')) of None \<Rightarrow> False
      | Some x \<Rightarrow> acceptable demo_env demo_db x \<and> ar_DeviceID (rule_from_input demo_env demo_db x) = ''d1''" by code_simp
  then obtain x where x: "decode_rule_input (rule_codec demo_rule_body) (rq_Body (demo_request [] ''{}'')) = Some x"
    "acceptable demo_env demo_db x" "ar_DeviceID (rule_from_input demo_env demo_db x) = ''d1''" by (auto split: option.splits)
  have q: "query_Get ?r' ''device_id'' = ''d1''" "uuid_parse demo_env ''d1'' = Some ''d1''"
    by (simp_all add: query_Get_def demo_env_def)
  have two: "length (filter (\<lambda>q. ar_DeviceID q = ''d1'') (alert_rules demo_db)) = 2" by code_simp
  obtain ys where ys: "listAlertRules demo_env ?r' (new_writer, ?a1) = writeJSON 200 (Some (VRules ys)) (new_writer, ?a1)"
    "mset ys = mset (filter (\<lambda>q. ar_DeviceID q = ''d1'') (alert_rules demo_db)) + {#rule_from_input demo_env demo_db x#}"
    using created_rule_listed [OF demo_env_ok, of "demo_app demo_db []" "rule_codec demo_rule_body" "demo_request [] ''{}''" x ?r'
        "''d1''" ?a1 new_writer new_writer] x q by (auto simp: demo_db_fresh)
  have "fst (writeJSON 200 (Some (VRules ys)) (new_writer, ?a1)) = fst (writeJSON 200 (Some (VRules ys)) (new_writer, demo_app demo_db []))"
    by (simp add: writeJSON_def Let_def)
  moreover have "size {#q \<in># mset (alert_rules demo_db). ar_DeviceID q = ''d1''#} = 2"
    using two by (metis mset_filter size_mset)
  with ys(2) have "size (mset ys) = 3" by simp
  ultimately show ?thesis using ys(1) by (intro exI [of _ ys]) simp
qed

text \<open>Deleting a rule honours \<open>ON DELETE RESTRICT\<close>: without faults a rule without alerts is removed
  with 204 and nothing else changes; a rule that any alert, even a resolved one, refers to is kept
  with 409; an unknown rule is 404 and a malformed id 500, both without effect.\<close>

theorem deleteAlertRule_outcome:
  assumes "w_faults (app_world a) = []" and "rw_sent w = None"
  shows "let db = app_db a; out = deleteAlertRule E r (w, a) in
    (case uuid_parse E (path_value r ''id'') of
       None \<Rightarrow> status_of (fst out) = 500 \<and> app_db (snd out) = db
     | Some u \<Rightarrow>
         if u \<notin> ar_ID ` set (alert_rules db) then status_of (fst out) = 404 \<and> alert_rules (app_db (snd out)) = alert_rules db
         else if u \<in> al_AlertRuleID ` set (alerts db) then status_of (fst out) = 409 \<and> app_db (snd out) = db
         else status_of (fst out) = 204 \<and> rw_body (fst out) = rw_body w \<and>
           app_db (snd out) = db\<lparr>alert_rules := filter (\<lambda>q. ar_ID q \<noteq> u) (alert_rules db)\<rparr>)"
proof -
  have none: "filter (\<lambda>q. ar_ID q = u) (alert_rules (app_db a)) = [] \<longleftrightarrow> u \<notin> ar_ID ` set (alert_rules (app_db a))" for u
    by (auto simp: filter_empty_conv)
  have keep: "filter (\<lambda>q. ar_ID q \<noteq> u) (alert_rules (app_db a)) = alert_rules (app_db a)" if "u \<notin> ar_ID ` set (alert_rules (app_db a))" for u
    using that by (auto simp: filter_id_conv)
  show ?thesis
    by (simp add: deleteAlertRule_def Let_def app_stmt_def run_stmt_no_fault [OF assms(1)] stmt_delete_rule_def none keep
        writeError_def status_of_def writeJSON_fresh [OF assms(2)] postgresForeignKeyViolation_def split: option.split)
qed

theorem deleteAlertRule_outcome_witness:
  "status_of (fst (deleteAlertRule demo_env (demo_request ''r1'' []) (new_writer, demo_app demo_alert_db []))) = 409 \<and>
   status_of (fst (deleteAlertRule demo_env (demo_request ''r2'' []) (new_writer, demo_app demo_alert_db []))) = 204"
  using deleteAlertRule_outcome [of "demo_app demo_alert_db []" new_writer demo_env "demo_request ''r1'' []"]
    deleteAlertRule_outcome [of "demo_app demo_alert_db []" new_writer demo_env "demo_request ''r2'' []"]
  by (simp add: demo_request_def path_value_def demo_env_def demo_alert_db_def demo_db_def demo_rule_row_def demo_open_alert_def Let_def)

text \<open>C32: A \<open>PATCH\<close> replaces the whole rule: without faults a successful update stores every field of the
  decoded body, so a body without \<open>enabled\<close> enables a disabled rule and a body without \<open>threshold\<close>
  sets it to zero, and a body without operator or severity is refused with 400, changing nothing;
  the device of the rule never changes and an unknown rule is 404.\<close>

theorem updateAlertRule_replaces:
  assumes "w_faults (app_world a) = []" and "rw_sent w = None" and "distinct (map ar_ID (alert_rules (app_db a)))"
    and "decode_rule_input cd (rq_Body r) = Some x" and "uuid_parse E (path_value r ''id'') = Some u" and "texts_valid E x"
  shows "let db = app_db a; out = updateAlertRule cd E r (w, a) in
    (case List.find (\<lambda>q. ar_ID q = u) (alert_rules db) of
       None \<Rightarrow> status_of (fst out) = 404 \<and> app_db (snd out) = db
     | Some q \<Rightarrow>
         if in_Operator x \<notin> set operators \<or> in_Severity x \<notin> set severities
         then status_of (fst out) = 400 \<and> app_db (snd out) = db
         else status_of (fst out) = 200 \<and>
           List.find (\<lambda>q. ar_ID q = u) (alert_rules (app_db (snd out))) =
             Some \<lparr>ar_ID = u, ar_DeviceID = ar_DeviceID q, ar_Metric = in_Metric x, ar_Operator = in_Operator x,
               ar_Threshold = in_Threshold x, ar_Severity = in_Severity x,
               ar_Enabled = (case in_Enabled x of None \<Rightarrow> True | Some b \<Rightarrow> b)\<rparr>)"
proof -
  let ?f = "\<lambda>q. if ar_ID q = u then updated_rule x (input_enabled x) q else q"
  have fu: "filter (\<lambda>q. ar_ID q = u) (alert_rules (app_db a)) =
    (case List.find (\<lambda>q. ar_ID q = u) (alert_rules (app_db a)) of None \<Rightarrow> [] | Some q \<Rightarrow> [q])"
    using filter_unique [OF assms(3), of u "\<lambda>_. True"] by (simp split: option.splits)
  have fm: "List.find (\<lambda>q. ar_ID q = u) (map ?f qs) = map_option (updated_rule x (input_enabled x)) (List.find (\<lambda>q. ar_ID q = u) qs)" for qs
    by (induction qs) auto
  have id: "ar_ID q = u" if "List.find (\<lambda>q. ar_ID q = u) (alert_rules (app_db a)) = Some q" for q
    using that by (auto simp: find_Some_iff)
  note stmt = updateAlertRule_def Let_def app_stmt_def run_stmt_no_fault [OF assms(1)] stmt_update_rule_def fu
    writeError_def status_of_def writeJSON_fresh [OF assms(2)]
  show ?thesis
  proof (cases "List.find (\<lambda>q. ar_ID q = u) (alert_rules (app_db a))")
    case None
    with assms(4-6) show ?thesis by (simp add: stmt)
  next
    case (Some q)
    show ?thesis
    proof (cases "checks_ok x")
      case True
      have "updated_rule x (input_enabled x) q = \<lparr>ar_ID = u, ar_DeviceID = ar_DeviceID q, ar_Metric = in_Metric x,
          ar_Operator = in_Operator x, ar_Threshold = in_Threshold x, ar_Severity = in_Severity x,
          ar_Enabled = (case in_Enabled x of None \<Rightarrow> True | Some b \<Rightarrow> b)\<rparr>"
        using id [OF Some] by (simp add: updated_rule_def input_enabled_def)
      with True Some assms(4-6) show ?thesis by (simp add: stmt fm) (simp add: checks_ok_def)
    next
      case False
      with Some assms(4-6) show ?thesis by (simp add: stmt) (simp add: checks_ok_def)
    qed
  qed
qed

definition demo_disabled_db :: pgdb where
  "demo_disabled_db = demo_db\<lparr>alert_rules := [(demo_rule_row ''r1'')\<lparr>ar_Enabled := False\<rparr>]\<rparr>"

theorem updateAlertRule_replaces_witness:
  "map ar_Enabled (alert_rules demo_disabled_db) = [False] \<and>
   map_option ar_Enabled (List.find (\<lambda>q. ar_ID q = ''r1'') (alert_rules (app_db (snd (updateAlertRule (rule_codec demo_rule_body) demo_env
      (demo_request ''r1'' ''{}'') (new_writer, demo_app demo_disabled_db [])))))) = Some True"
proof -
  have "case decode_rule_input (rule_codec demo_rule_body) (rq_Body (demo_request ''r1'' ''{}'')) of None \<Rightarrow> False
      | Some x \<Rightarrow> in_Operator x = ''lt'' \<and> in_Severity x = ''critical'' \<and> in_Enabled x = None" by code_simp
  then obtain x where x: "decode_rule_input (rule_codec demo_rule_body) (rq_Body (demo_request ''r1'' ''{}'')) = Some x"
    "in_Operator x = ''lt''" "in_Severity x = ''critical''" "in_Enabled x = None" by (auto split: option.splits)
  show ?thesis
    using updateAlertRule_replaces [of "demo_app demo_disabled_db []" new_writer "rule_codec demo_rule_body" "demo_request ''r1'' ''{}''"
        x demo_env "''r1''"] x
    by (simp add: demo_disabled_db_def demo_rule_row_def demo_env_def texts_valid_def demo_request_def path_value_def
        operators_def severities_def Let_def)
qed

end
