(* ===== verification/Alert_Engine.thy ===== *)
theory Alert_Engine
  imports GoStd Float64
begin

text \<open>
  The alert engine of \<open>ingestion/alerts.go\<close>: rules, the debounce streaks, \<open>EvaluateRules\<close> and the
  tracker that holds the streaks between messages. The second half relates the streaks to the
  history of verdicts a rule has seen, which is what the debounce is meant to count.
\<close>

subsection \<open>Rules, decisions and streaks\<close>

record Rule =
  rule_ID :: string
  rule_Metric :: string
  rule_Operator :: string
  rule_Threshold :: float64
  rule_Severity :: string

datatype Decision = NoAction | CreateAlert | AutoResolve

record RuleDecision =
  rd_Rule :: Rule
  rd_Decision :: Decision
  rd_Value :: float64

record BreachState =
  bs_Count :: int
  bs_Breaching :: bool

definition BreachState_zero :: BreachState where
  "BreachState_zero = \<lparr>bs_Count = 0, bs_Breaching = False\<rparr>"

type_synonym readings = "(string \<times> float64) list"
type_synonym streak_map = "string \<Rightarrow> BreachState option"
type_synonym id_set = "string \<Rightarrow> bool option"

definition compareThreshold :: "float64 \<Rightarrow> string \<Rightarrow> float64 \<Rightarrow> bool" where
  "compareThreshold value operator threshold =
     (if operator = ''gt'' then threshold < value
      else if operator = ''gte'' then threshold \<le> value
      else if operator = ''lt'' then value < threshold
      else if operator = ''lte'' then value \<le> threshold
      else False)"

text \<open>The streak update of one reading: extend the streak or start a new one at 1.\<close>

definition next_streak :: "bool \<Rightarrow> BreachState \<Rightarrow> BreachState" where
  "next_streak triggered state =
     (if bs_Breaching state = triggered
      then state\<lparr>bs_Count := int64_wrap (bs_Count state + 1)\<rparr>
      else \<lparr>bs_Count = 1, bs_Breaching = triggered\<rparr>)"

text \<open>One iteration of the loop of \<open>EvaluateRules\<close>: the decisions it appends and the new streaks.\<close>

definition evaluate_rule ::
  "Rule \<Rightarrow> readings \<Rightarrow> id_set \<Rightarrow> streak_map \<Rightarrow> int \<Rightarrow> RuleDecision list \<times> streak_map" where
  "evaluate_rule rule rs activeRuleIDs streaks debounceN =
     (case map_of rs (rule_Metric rule) of
        None \<Rightarrow> ([], streaks)
      | Some value \<Rightarrow>
          let triggered = compareThreshold value (rule_Operator rule) (rule_Threshold rule);
              active = map_get False activeRuleIDs (rule_ID rule);
              state = next_streak triggered (map_get BreachState_zero streaks (rule_ID rule));
              streaks' = streaks(rule_ID rule \<mapsto> state)
          in if triggered \<and> \<not> active \<and> debounceN \<le> bs_Count state
             then ([\<lparr>rd_Rule = rule, rd_Decision = CreateAlert, rd_Value = value\<rparr>], streaks')
             else if \<not> triggered \<and> active \<and> debounceN \<le> bs_Count state
             then ([\<lparr>rd_Rule = rule, rd_Decision = AutoResolve, rd_Value = value\<rparr>], streaks')
             else ([], streaks'))"

fun EvaluateRules ::
  "Rule list \<Rightarrow> readings \<Rightarrow> id_set \<Rightarrow> streak_map \<Rightarrow> int \<Rightarrow> RuleDecision list \<times> streak_map" where
  "EvaluateRules [] rs activeRuleIDs streaks debounceN = ([], streaks)"
| "EvaluateRules (rule # rules) rs activeRuleIDs streaks debounceN =
     (let (ds, streaks') = evaluate_rule rule rs activeRuleIDs streaks debounceN;
          (es, streaks'') = EvaluateRules rules rs activeRuleIDs streaks' debounceN
      in (ds @ es, streaks''))"

record BreachTracker =
  tr_streaks :: streak_map

definition NewBreachTracker :: BreachTracker where
  "NewBreachTracker = \<lparr>tr_streaks = Map.empty\<rparr>"

text \<open>\<open>Evaluate\<close> runs under the tracker's mutex: one atomic step on the streaks.\<close>

definition tracker_Evaluate ::
  "BreachTracker \<Rightarrow> Rule list \<Rightarrow> readings \<Rightarrow> id_set \<Rightarrow> int \<Rightarrow> RuleDecision list \<times> BreachTracker" where
  "tracker_Evaluate t rules rs activeRuleIDs debounceN =
     (case EvaluateRules rules rs activeRuleIDs (tr_streaks t) debounceN of
        (ds, streaks') \<Rightarrow> (ds, t\<lparr>tr_streaks := streaks'\<rparr>))"

subsection \<open>Specification: the decision table and the history of verdicts\<close>

text \<open>The decision table of \<open>docs/alert-engine.md\<close>: condition met, alert active, streak reached.\<close>

fun decision_table :: "bool \<Rightarrow> bool \<Rightarrow> bool \<Rightarrow> Decision" where
  "decision_table True False True = CreateAlert"
| "decision_table False True True = AutoResolve"
| "decision_table _ _ _ = NoAction"

definition verdict :: "Rule \<Rightarrow> readings \<Rightarrow> bool option" where
  "verdict r rs =
     map_option (\<lambda>v. compareThreshold v (rule_Operator r) (rule_Threshold r)) (map_of rs (rule_Metric r))"

definition table_decisions :: "Rule \<Rightarrow> readings \<Rightarrow> id_set \<Rightarrow> streak_map \<Rightarrow> int \<Rightarrow> RuleDecision list" where
  "table_decisions r rs act streaks n =
     (case map_of rs (rule_Metric r) of
        None \<Rightarrow> []
      | Some v \<Rightarrow>
          let trig = compareThreshold v (rule_Operator r) (rule_Threshold r);
              reached = (n \<le> bs_Count (next_streak trig (map_get BreachState_zero streaks (rule_ID r))));
              d = decision_table trig (map_get False act (rule_ID r)) reached
          in if d = NoAction then [] else [\<lparr>rd_Rule = r, rd_Decision = d, rd_Value = v\<rparr>])"

text \<open>
  A call of the tracker is the rules, the readings and the active rule ids it was given. The
  history of a rule id is the list of verdicts the calls reached for it, oldest first.
\<close>

type_synonym call = "Rule list \<times> readings \<times> id_set"

fun call_verdict :: "string \<Rightarrow> call \<Rightarrow> bool option" where
  "call_verdict i (rules, rs, act) =
     (case filter (\<lambda>r. rule_ID r = i) rules of [] \<Rightarrow> None | r # _ \<Rightarrow> verdict r rs)"

definition history :: "string \<Rightarrow> call list \<Rightarrow> bool list" where
  "history i calls = List.map_filter (call_verdict i) calls"

definition call_ok :: "call \<Rightarrow> bool" where
  "call_ok c \<longleftrightarrow> distinct (map rule_ID (fst c))"

fun tracker_run :: "BreachTracker \<Rightarrow> int \<Rightarrow> call list \<Rightarrow> RuleDecision list list \<times> BreachTracker" where
  "tracker_run t n [] = ([], t)"
| "tracker_run t n ((rules, rs, act) # calls) =
     (let (ds, t') = tracker_Evaluate t rules rs act n;
          (dss, t'') = tracker_run t' n calls
      in (ds # dss, t''))"

text \<open>The length of the run of equal verdicts a history ends with.\<close>

definition run_length :: "bool list \<Rightarrow> nat" where
  "run_length bs = length (takeWhile (\<lambda>b. b = last bs) (rev bs))"

subsection \<open>Lemmas: one call\<close>

lemma decision_table_eq:
  "decision_table t a r =
     (if t \<and> \<not> a \<and> r then CreateAlert else if \<not> t \<and> a \<and> r then AutoResolve else NoAction)"
  by (cases t; cases a; cases r) simp_all

lemma evaluate_rule_eq:
  "evaluate_rule r rs act st n =
     (table_decisions r rs act st n,
      case verdict r rs of None \<Rightarrow> st
      | Some b \<Rightarrow> st(rule_ID r \<mapsto> next_streak b (map_get BreachState_zero st (rule_ID r))))"
  by (cases "map_of rs (rule_Metric r)")
    (auto simp: evaluate_rule_def table_decisions_def verdict_def Let_def decision_table_eq)

lemma table_decisions_cong:
  "st (rule_ID r) = st' (rule_ID r) \<Longrightarrow> table_decisions r rs act st n = table_decisions r rs act st' n"
  using map_get_cong [of st "rule_ID r" st' BreachState_zero]
  by (simp add: table_decisions_def Let_def split: option.split)

lemma EvaluateRules_Cons:
  "EvaluateRules (r # rules) rs act st n =
     (table_decisions r rs act st n @ fst (EvaluateRules rules rs act (snd (evaluate_rule r rs act st n)) n),
      snd (EvaluateRules rules rs act (snd (evaluate_rule r rs act st n)) n))"
  by (simp add: evaluate_rule_eq split: prod.splits)

lemma EvaluateRules_streaks_other:
  "i \<notin> rule_ID ` set rules \<Longrightarrow> snd (EvaluateRules rules rs act st n) i = st i"
proof (induction rules arbitrary: st)
  case (Cons r rules)
  then show ?case
    by (simp add: EvaluateRules_Cons evaluate_rule_eq del: EvaluateRules.simps split: option.splits)
qed simp

lemma EvaluateRules_decisions:
  "distinct (map rule_ID rules) \<Longrightarrow>
   fst (EvaluateRules rules rs act st n) = concat (map (\<lambda>r. table_decisions r rs act st n) rules)"
proof (induction rules arbitrary: st)
  case (Cons r rules)
  let ?st' = "snd (evaluate_rule r rs act st n)"
  have "?st' (rule_ID q) = st (rule_ID q)" if "q \<in> set rules" for q
  proof -
    from that Cons.prems have "rule_ID q \<noteq> rule_ID r" by (metis distinct.simps(2) image_eqI list.set_map list.simps(9))
    then show ?thesis by (simp add: evaluate_rule_eq split: option.splits)
  qed
  then have "concat (map (\<lambda>r. table_decisions r rs act ?st' n) rules) =
    concat (map (\<lambda>r. table_decisions r rs act st n) rules)"
    by (intro arg_cong [of _ _ concat] map_cong refl table_decisions_cong)
  with Cons show ?case by (simp add: EvaluateRules_Cons del: EvaluateRules.simps)
qed simp

lemma EvaluateRules_streaks:
  "distinct (map rule_ID rules) \<Longrightarrow>
   snd (EvaluateRules rules rs act st n) i =
     (case call_verdict i (rules, rs, act) of None \<Rightarrow> st i
      | Some b \<Rightarrow> Some (next_streak b (map_get BreachState_zero st i)))"
proof (induction rules arbitrary: st)
  case (Cons r rules)
  show ?case
  proof (cases "rule_ID r = i")
    case True
    with Cons.prems have "i \<notin> rule_ID ` set rules" by auto
    with True show ?thesis
      by (cases "verdict r rs")
        (simp_all add: EvaluateRules_Cons EvaluateRules_streaks_other evaluate_rule_eq
          del: EvaluateRules.simps)
  next
    case False
    then have "snd (evaluate_rule r rs act st n) i = st i"
      by (auto simp: evaluate_rule_eq split: option.splits)
    with Cons False map_get_cong [of "snd (evaluate_rule r rs act st n)" i st BreachState_zero]
    show ?thesis
      by (simp add: EvaluateRules_Cons del: EvaluateRules.simps split: option.split)
  qed
qed simp

lemma table_decisions_rule: "d \<in> set (table_decisions r rs act st n) \<Longrightarrow> rd_Rule d = r"
  by (auto simp: table_decisions_def Let_def split: option.splits if_splits)

lemma table_decisions_member:
  assumes "verdict r rs = Some b"
  shows "(\<exists>d \<in> set (table_decisions r rs act st n). rd_Decision d = k) \<longleftrightarrow>
   k \<noteq> NoAction \<and>
   k = decision_table b (map_get False act (rule_ID r))
         (n \<le> bs_Count (next_streak b (map_get BreachState_zero st (rule_ID r))))"
proof -
  from assms obtain v where "map_of rs (rule_Metric r) = Some v"
    "b = compareThreshold v (rule_Operator r) (rule_Threshold r)"
    by (auto simp: verdict_def)
  then show ?thesis by (auto simp: table_decisions_def Let_def)
qed

lemma table_decisions_None: "verdict r rs = None \<Longrightarrow> table_decisions r rs act st n = []"
  by (simp add: table_decisions_def verdict_def)

lemma call_verdict_rule:
  "distinct (map rule_ID rules) \<Longrightarrow> r \<in> set rules \<Longrightarrow> call_verdict (rule_ID r) (rules, rs, act) = verdict r rs"
proof (induction rules)
  case (Cons q rules)
  then have "q \<noteq> r \<Longrightarrow> rule_ID q \<noteq> rule_ID r" by auto
  with Cons show ?case by auto
qed simp

subsection \<open>Lemmas: runs and histories\<close>

lemma history_simps [simp]:
  "history i [] = []"
  "history i (c # cs) = (case call_verdict i c of None \<Rightarrow> history i cs | Some b \<Rightarrow> b # history i cs)"
  "history i (cs @ ds) = history i cs @ history i ds"
  by (simp_all add: history_def List.map_filter_def split: option.splits)

lemma tracker_run_Cons:
  "tracker_run t n ((rules, rs, act) # cs) =
     (fst (tracker_Evaluate t rules rs act n) #
        fst (tracker_run (snd (tracker_Evaluate t rules rs act n)) n cs),
      snd (tracker_run (snd (tracker_Evaluate t rules rs act n)) n cs))"
  by (simp split: prod.splits)

lemma tracker_run_append:
  "tracker_run t n (cs @ ds) =
     (fst (tracker_run t n cs) @ fst (tracker_run (snd (tracker_run t n cs)) n ds),
      snd (tracker_run (snd (tracker_run t n cs)) n ds))"
  by (induction t n cs rule: tracker_run.induct) (auto split: prod.splits)

lemma tracker_run_length [simp]: "length (fst (tracker_run t n cs)) = length cs"
  by (induction t n cs rule: tracker_run.induct) (auto split: prod.splits)

abbreviation streak_of :: "BreachTracker \<Rightarrow> string \<Rightarrow> BreachState" where
  "streak_of t i \<equiv> map_get BreachState_zero (tr_streaks t) i"

lemma tracker_Evaluate_streak:
  "distinct (map rule_ID rules) \<Longrightarrow>
   streak_of (snd (tracker_Evaluate t rules rs act n)) i =
     (case call_verdict i (rules, rs, act) of None \<Rightarrow> streak_of t i | Some b \<Rightarrow> next_streak b (streak_of t i))"
  using EvaluateRules_streaks [of rules rs act "tr_streaks t" n i]
  by (auto simp: tracker_Evaluate_def map_get_def split: prod.splits option.splits)

lemma tracker_run_streak:
  "list_all call_ok cs \<Longrightarrow>
   streak_of (snd (tracker_run t n cs)) i = foldl (\<lambda>s b. next_streak b s) (streak_of t i) (history i cs)"
proof (induction cs arbitrary: t)
  case (Cons c cs)
  obtain rules rs act where c: "c = (rules, rs, act)" by (cases c)
  with Cons.prems have "distinct (map rule_ID rules)" by (simp add: call_ok_def)
  note step = tracker_Evaluate_streak [OF this, of t rs act n i]
  from Cons show ?case
    unfolding c tracker_run_Cons by (cases "call_verdict i (rules, rs, act)") (simp_all add: step)
qed simp

lemma run_length_snoc:
  "run_length (bs @ [b]) = (if bs \<noteq> [] \<and> last bs = b then Suc (run_length bs) else 1)"
  by (cases bs rule: rev_cases) (auto simp: run_length_def)

lemma run_length_le: "run_length bs \<le> length bs"
  using length_takeWhile_le [of "\<lambda>b. b = last bs" "rev bs"] by (simp add: run_length_def)

lemma run_length_suffix: "k \<le> run_length bs \<longleftrightarrow> (\<exists>cs. bs = cs @ replicate k (last bs))"
proof
  assume k: "k \<le> run_length bs"
  let ?tw = "takeWhile (\<lambda>b. b = last bs) (rev bs)"
  have tw: "?tw = take (run_length bs) (rev bs)"
    unfolding run_length_def by (rule takeWhile_eq_take)
  have "take k (rev bs) = take k (take (run_length bs) (rev bs))" using k by (simp add: min_def)
  also have "take (run_length bs) (rev bs) = ?tw" by (rule tw [symmetric])
  also have "?tw = replicate (length ?tw) (last bs)"
    by (rule replicate_eqI) (auto dest: set_takeWhileD)
  also have "length ?tw = run_length bs" by (simp add: run_length_def)
  finally have "take k (rev bs) = replicate k (last bs)" using k by (simp add: min_def)
  then have "rev (take k (rev bs) @ drop k (rev bs)) = rev (drop k (rev bs)) @ replicate k (last bs)"
    by (simp only: rev_append rev_replicate)
  then have "bs = rev (drop k (rev bs)) @ replicate k (last bs)" by simp
  then show "\<exists>cs. bs = cs @ replicate k (last bs)" ..
next
  assume "\<exists>cs. bs = cs @ replicate k (last bs)"
  then obtain cs where cs: "bs = cs @ replicate k (last bs)" ..
  then have "rev bs = rev (cs @ replicate k (last bs))" by (rule arg_cong)
  then have "rev bs = replicate k (last bs) @ rev cs" by (simp only: rev_append rev_replicate)
  moreover have "takeWhile (\<lambda>b. b = last bs) (replicate k (last bs) @ rev cs) =
    replicate k (last bs) @ takeWhile (\<lambda>b. b = last bs) (rev cs)"
    by (rule takeWhile_append2) simp
  ultimately show "k \<le> run_length bs" by (simp add: run_length_def)
qed

lemma streak_counts_run:
  "bs \<noteq> [] \<Longrightarrow> int (length bs) \<le> max_int64 \<Longrightarrow>
   foldl (\<lambda>s b. next_streak b s) BreachState_zero bs = \<lparr>bs_Count = int (run_length bs), bs_Breaching = last bs\<rparr>"
proof (induction bs rule: rev_induct)
  case (snoc b bs)
  show ?case
  proof (cases "bs = []")
    case True
    then show ?thesis by (auto simp: next_streak_def BreachState_zero_def run_length_def)
  next
    case False
    have "int (run_length bs) + 1 \<le> max_int64"
      using run_length_le [of bs] snoc.prems by simp
    with snoc False show ?thesis by (simp add: next_streak_def run_length_snoc)
  qed
qed simp

text \<open>A streak only grows by one per reading, from any state below the wrap-around.\<close>

lemma streak_replicate:
  "0 \<le> bs_Count s \<Longrightarrow> bs_Count s + int k \<le> max_int64 \<Longrightarrow> 0 < k \<Longrightarrow>
   int k \<le> bs_Count (foldl (\<lambda>s b. next_streak b s) s (replicate k b)) \<and>
   bs_Breaching (foldl (\<lambda>s b. next_streak b s) s (replicate k b)) = b \<and>
   bs_Count (foldl (\<lambda>s b. next_streak b s) s (replicate k b)) \<le> bs_Count s + int k"
proof (induction k)
  case (Suc k)
  have rep: "replicate (Suc k) b = replicate k b @ [b]" by (simp add: replicate_append_same)
  show ?case
  proof (cases "k = 0")
    case True
    with Suc.prems show ?thesis by (auto simp: next_streak_def)
  next
    case False
    with Suc show ?thesis unfolding rep by (auto simp: next_streak_def)
  qed
qed simp

lemma tracker_Evaluate_decisions:
  "distinct (map rule_ID rules) \<Longrightarrow>
   fst (tracker_Evaluate t rules rs act n) =
     concat (map (\<lambda>r. table_decisions r rs act (tr_streaks t) n) rules)"
  by (simp add: tracker_Evaluate_def EvaluateRules_decisions [symmetric] split: prod.splits)

lemma last_call_decision:
  assumes ok: "list_all call_ok (cs @ [(rules, rs, act)])" and r: "r \<in> set rules"
    and b: "verdict r rs = Some b"
  shows "(\<exists>d \<in> set (last (fst (tracker_run t n (cs @ [(rules, rs, act)])))). rd_Rule d = r \<and> rd_Decision d = k)
    \<longleftrightarrow> k \<noteq> NoAction \<and>
        k = decision_table b (map_get False act (rule_ID r))
              (n \<le> bs_Count (foldl (\<lambda>s b. next_streak b s) (streak_of t (rule_ID r))
                 (history (rule_ID r) (cs @ [(rules, rs, act)]))))"
    (is "?L \<longleftrightarrow> ?R")
proof -
  let ?t = "snd (tracker_run t n cs)"
  from ok have d: "distinct (map rule_ID rules)" and cs: "list_all call_ok cs"
    by (simp_all add: call_ok_def)
  have cv: "call_verdict (rule_ID r) (rules, rs, act) = Some b"
    using call_verdict_rule [OF d r, of rs act] b by simp
  have "last (fst (tracker_run t n (cs @ [(rules, rs, act)]))) =
    concat (map (\<lambda>r. table_decisions r rs act (tr_streaks ?t) n) rules)"
    unfolding tracker_run_append tracker_run_Cons by (simp add: tracker_Evaluate_decisions [OF d])
  then have "?L \<longleftrightarrow> (\<exists>d \<in> set (table_decisions r rs act (tr_streaks ?t) n). rd_Decision d = k)"
    using r by (auto dest: table_decisions_rule)
  also have "\<dots> \<longleftrightarrow> ?R"
    unfolding table_decisions_member [OF b]
    using tracker_run_streak [OF cs, of t n "rule_ID r"] cv by simp
  finally show ?thesis .
qed

lemma decisions_of_last_call:
  assumes ok: "list_all call_ok (cs @ [(rules, rs, act)])"
    and d: "d \<in> set (last (fst (tracker_run t n (cs @ [(rules, rs, act)]))))"
  shows "rd_Rule d \<in> set rules \<and> verdict (rd_Rule d) rs \<noteq> None \<and> rd_Decision d \<noteq> NoAction"
proof -
  let ?t = "snd (tracker_run t n cs)"
  from ok have "distinct (map rule_ID rules)" by (simp add: call_ok_def)
  with d have "d \<in> set (concat (map (\<lambda>r. table_decisions r rs act (tr_streaks ?t) n) rules))"
    unfolding tracker_run_append tracker_run_Cons by (simp add: tracker_Evaluate_decisions)
  then obtain r where "r \<in> set rules" "d \<in> set (table_decisions r rs act (tr_streaks ?t) n)" by auto
  then show ?thesis
    by (cases "map_of rs (rule_Metric r)")
      (auto simp: table_decisions_def verdict_def Let_def split: if_splits)
qed

lemma run_length_replicate:
  assumes "0 < n" "bs \<noteq> []"
  shows "last bs = b \<and> n \<le> int (run_length bs) \<longleftrightarrow> (\<exists>older. bs = older @ replicate (nat n) b)"
proof -
  have "n \<le> int (run_length bs) \<longleftrightarrow> nat n \<le> run_length bs" using assms by auto
  moreover have "last bs = b" if "bs = older @ replicate (nat n) b" for older
    using that assms by (simp add: last_append)
  ultimately show ?thesis unfolding run_length_suffix by auto
qed

lemma NewBreachTracker_streak [simp]: "streak_of NewBreachTracker i = BreachState_zero"
  by (simp add: NewBreachTracker_def)

lemma history_last_verdict:
  assumes "call_ok (rules, rs, act)" "r \<in> set rules" "verdict r rs = Some b"
  shows "history (rule_ID r) (cs @ [(rules, rs, act)]) = history (rule_ID r) cs @ [b]"
  using call_verdict_rule [of rules r rs act] assms by (simp add: call_ok_def)

lemma debounced_decision:
  assumes ok: "list_all call_ok (cs @ [(rules, rs, act)])" and r: "r \<in> set rules"
    and v: "verdict r rs = Some b" and n: "0 < n"
    and bound: "int (length (history (rule_ID r) (cs @ [(rules, rs, act)]))) \<le> max_int64"
  shows "(\<exists>d \<in> set (last (fst (tracker_run NewBreachTracker n (cs @ [(rules, rs, act)])))).
            rd_Rule d = r \<and> rd_Decision d = k)
    \<longleftrightarrow> k \<noteq> NoAction \<and> k = decision_table b (map_get False act (rule_ID r))
          (\<exists>older. history (rule_ID r) (cs @ [(rules, rs, act)]) = older @ replicate (nat n) b)"
proof -
  let ?H = "history (rule_ID r) (cs @ [(rules, rs, act)])"
  have H: "?H = history (rule_ID r) cs @ [b]"
    using ok by (intro history_last_verdict r v) simp
  have "?H \<noteq> []" "last ?H = b" unfolding H by simp_all
  with bound streak_counts_run [of ?H] run_length_replicate [OF n, of ?H b] show ?thesis
    unfolding last_call_decision [OF ok r v] NewBreachTracker_streak by simp
qed

lemma tracker_run_nth:
  assumes "k < length cs"
  shows "fst (tracker_run t n cs) ! k = last (fst (tracker_run t n (take (Suc k) cs)))"
proof -
  let ?p = "take (Suc k) cs"
  have "fst (tracker_run t n cs) = fst (tracker_run t n ?p) @
    fst (tracker_run (snd (tracker_run t n ?p)) n (drop (Suc k) cs))"
    using tracker_run_append [of t n ?p "drop (Suc k) cs"] by simp
  moreover have "length (fst (tracker_run t n ?p)) = Suc k" using assms by simp
  ultimately show ?thesis by (simp add: nth_append last_conv_nth [of "fst (tracker_run t n ?p)"] flip: length_greater_0_conv)
qed

lemma history_take: "\<exists>rest. history i cs = history i (take k cs) @ rest"
  using history_simps(3) [of i "take k cs" "drop k cs"] by auto

lemma successively_no_repeat:
  "successively (\<noteq>) (xs @ replicate k b) \<Longrightarrow> k \<le> 1"
  by (cases k; cases "k - 1") (auto simp: successively_append_iff)

subsection \<open>Properties\<close>

text \<open>C28: For rules with distinct ids, one call of EvaluateRules issues, in rule order, exactly the
  decisions the documented decision table prescribes for each rule whose metric was reported, and
  it changes the streaks of exactly those rules, each by one debounce step.\<close>

theorem evaluate_rules_follow_table:
  assumes "distinct (map rule_ID rules)"
  shows "fst (EvaluateRules rules rs act streaks n) =
      concat (map (\<lambda>r. table_decisions r rs act streaks n) rules)
    \<and> (\<forall>r \<in> set rules. snd (EvaluateRules rules rs act streaks n) (rule_ID r) =
        (case verdict r rs of None \<Rightarrow> streaks (rule_ID r)
         | Some b \<Rightarrow> Some (next_streak b (map_get BreachState_zero streaks (rule_ID r)))))
    \<and> (\<forall>i. i \<notin> rule_ID ` set rules \<longrightarrow> snd (EvaluateRules rules rs act streaks n) i = streaks i)"
  by (intro conjI ballI allI impI)
    (simp_all add: assms EvaluateRules_decisions EvaluateRules_streaks_other EvaluateRules_streaks
      call_verdict_rule del: call_verdict.simps)

definition demo_rule :: Rule where
  "demo_rule = \<lparr>rule_ID = ''r1'', rule_Metric = ''t'', rule_Operator = ''gt'',
     rule_Threshold = Finite 30, rule_Severity = ''warning''\<rparr>"

definition demo_rules :: "Rule list" where
  "demo_rules = [demo_rule, demo_rule\<lparr>rule_ID := ''r2'', rule_Threshold := Finite 40\<rparr>]"

theorem evaluate_rules_follow_table_witness:
  "fst (EvaluateRules demo_rules [(''t'', Finite 33)] [''r2'' \<mapsto> True] Map.empty 1) =
     [\<lparr>rd_Rule = demo_rules ! 0, rd_Decision = CreateAlert, rd_Value = Finite 33\<rparr>,
      \<lparr>rd_Rule = demo_rules ! 1, rd_Decision = AutoResolve, rd_Value = Finite 33\<rparr>]"
proof -
  have "distinct (map rule_ID demo_rules)" by (simp add: demo_rules_def demo_rule_def)
  from evaluate_rules_follow_table [OF this, of "[(''t'', Finite 33)]" "[''r2'' \<mapsto> True]" Map.empty 1]
  show ?thesis
    by (simp add: demo_rules_def demo_rule_def table_decisions_def Let_def compareThreshold_def
        next_streak_def BreachState_zero_def map_get_def)
qed

text \<open>The streak the tracker holds for a rule id is determined by that id's own verdict history
  alone, whatever other rules and devices were evaluated in between: its direction is the last
  verdict and its count the length of the run of equal verdicts the history ends with, as long as
  the 64-bit counter has not been exhausted.\<close>

theorem tracker_streak_is_history:
  assumes "list_all call_ok calls" and "int (length (history i calls)) \<le> max_int64"
  shows "streak_of (snd (tracker_run NewBreachTracker n calls)) i =
    (if history i calls = [] then BreachState_zero
     else \<lparr>bs_Count = int (run_length (history i calls)), bs_Breaching = last (history i calls)\<rparr>)"
  using assms streak_counts_run [of "history i calls"] by (simp add: tracker_run_streak)

definition demo_calls :: "float64 list \<Rightarrow> call list" where
  "demo_calls vs = map (\<lambda>v. ([demo_rule], [(''t'', v)], Map.empty)) vs"

lemma demo_calls_ok: "list_all call_ok (demo_calls vs)"
  by (simp add: demo_calls_def list_all_iff call_ok_def)

theorem tracker_streak_is_history_witness:
  "streak_of (snd (tracker_run NewBreachTracker 3 (demo_calls [Finite 29, Finite 31, Finite 33]))) ''r1'' =
     \<lparr>bs_Count = 2, bs_Breaching = True\<rparr>"
proof -
  have "history ''r1'' (demo_calls [Finite 29, Finite 31, Finite 33]) = [False, True, True]"
    by (simp add: demo_calls_def demo_rule_def verdict_def compareThreshold_def)
  then show ?thesis
    using tracker_streak_is_history
      [OF demo_calls_ok [of "[Finite 29, Finite 31, Finite 33]"], of "''r1''" 3]
    by (simp add: run_length_def)
qed

text \<open>C1: Debounce is exact. After any sequence of calls, the engine creates an alert for a rule on
  the last call if and only if no alert of it is active and its last N verdicts were all breaches,
  and auto-resolves if and only if one is active and its last N verdicts were all non-breaches,
  where N is the configured debounce count.\<close>

theorem debounce_exact:
  assumes "list_all call_ok (calls @ [(rules, rs, act)])" and "r \<in> set rules"
    and "verdict r rs = Some b" and "0 < n"
    and "int (length (history (rule_ID r) (calls @ [(rules, rs, act)]))) \<le> max_int64"
  shows "((\<exists>d \<in> set (last (fst (tracker_run NewBreachTracker n (calls @ [(rules, rs, act)])))).
            rd_Rule d = r \<and> rd_Decision d = CreateAlert)
      \<longleftrightarrow> \<not> map_get False act (rule_ID r) \<and>
          (\<exists>older. history (rule_ID r) (calls @ [(rules, rs, act)]) = older @ replicate (nat n) True))
    \<and> ((\<exists>d \<in> set (last (fst (tracker_run NewBreachTracker n (calls @ [(rules, rs, act)])))).
            rd_Rule d = r \<and> rd_Decision d = AutoResolve)
      \<longleftrightarrow> map_get False act (rule_ID r) \<and>
          (\<exists>older. history (rule_ID r) (calls @ [(rules, rs, act)]) = older @ replicate (nat n) False))"
proof -
  let ?H = "history (rule_ID r) (calls @ [(rules, rs, act)])"
  have "?H = history (rule_ID r) calls @ [b]"
    using assms(1) by (intro history_last_verdict assms) simp
  then have b: "(\<exists>older. ?H = older @ replicate (nat n) c) \<Longrightarrow> c = b" for c
    using assms(4) by (auto simp: last_append dest!: arg_cong [of _ _ last])
  show ?thesis
    unfolding debounced_decision [OF assms] using b by (auto simp: decision_table_eq)
qed

theorem debounce_exact_witness:
  "\<exists>d \<in> set (last (fst (tracker_run NewBreachTracker 3 (demo_calls [Finite 29, Finite 31, Finite 33, Finite 35])))).
     rd_Rule d = demo_rule \<and> rd_Decision d = CreateAlert"
proof -
  let ?c = "([demo_rule], [(''t'', Finite 35)], Map.empty)"
  have calls: "demo_calls [Finite 29, Finite 31, Finite 33, Finite 35] =
    demo_calls [Finite 29, Finite 31, Finite 33] @ [?c]"
    by (simp add: demo_calls_def)
  have H: "history (rule_ID demo_rule) (demo_calls [Finite 29, Finite 31, Finite 33] @ [?c]) =
    [False] @ replicate (nat 3) True"
    by (simp add: demo_calls_def demo_rule_def verdict_def compareThreshold_def numeral_3_eq_3)
  have "verdict demo_rule [(''t'', Finite 35)] = Some True"
    by (simp add: demo_rule_def verdict_def compareThreshold_def)
  from debounce_exact [OF demo_calls_ok [of "[Finite 29, Finite 31, Finite 33, Finite 35]", unfolded calls] _ this, of 3]
  show ?thesis unfolding calls H by (auto simp: map_get_def)
qed

text \<open>C27: No flapping. If a rule's value oscillates, so that no two consecutive verdicts agree, then
  with a debounce count of at least 2 the engine never issues any decision for that rule, in any of
  the calls.\<close>

theorem oscillation_never_fires:
  assumes ok: "list_all call_ok calls" and bound: "int (length (history i calls)) \<le> max_int64"
    and alt: "successively (\<noteq>) (history i calls)" and n: "2 \<le> n"
  shows "\<forall>ds \<in> set (fst (tracker_run NewBreachTracker n calls)). \<forall>d \<in> set ds. rule_ID (rd_Rule d) \<noteq> i"
proof (intro ballI notI)
  fix ds d
  assume "ds \<in> set (fst (tracker_run NewBreachTracker n calls))" and d: "d \<in> set ds" and i: "rule_ID (rd_Rule d) = i"
  then obtain k where k: "k < length calls" and ds: "ds = fst (tracker_run NewBreachTracker n calls) ! k"
    by (metis in_set_conv_nth tracker_run_length)
  obtain rules rs act where c: "calls ! k = (rules, rs, act)" by (cases "calls ! k")
  then have pre: "take (Suc k) calls = take k calls @ [(rules, rs, act)]"
    using k by (simp add: take_Suc_conv_app_nth)
  have ok': "list_all call_ok (take k calls @ [(rules, rs, act)])"
    using ok unfolding pre [symmetric] list_all_iff by (meson in_set_takeD)
  from d ds k have dl: "d \<in> set (last (fst (tracker_run NewBreachTracker n (take k calls @ [(rules, rs, act)]))))"
    by (simp add: tracker_run_nth pre)
  from decisions_of_last_call [OF ok' dl] obtain b where r: "rd_Rule d \<in> set rules"
    and v: "verdict (rd_Rule d) rs = Some b" and a: "rd_Decision d \<noteq> NoAction" by auto
  let ?H = "history i (take k calls @ [(rules, rs, act)])"
  obtain rest where rest: "history i calls = ?H @ rest"
    using history_take [of i calls "Suc k"] pre by auto
  from dl have "\<exists>e \<in> set (last (fst (tracker_run NewBreachTracker n (take k calls @ [(rules, rs, act)])))).
    rd_Rule e = rd_Rule d \<and> rd_Decision e = rd_Decision d" by blast
  moreover have "0 < n" "int (length ?H) \<le> max_int64" using n bound rest by auto
  ultimately obtain older where older: "?H = older @ replicate (nat n) b"
    using debounced_decision [OF ok' r v, of n "rd_Decision d"] a i
    by (auto simp: decision_table_eq split: if_splits)
  have "successively (\<noteq>) ?H"
    using alt unfolding rest successively_append_iff [of _ ?H] by blast
  then have "nat n \<le> 1" unfolding older by (rule successively_no_repeat)
  with n show False by simp
qed

theorem oscillation_never_fires_witness:
  "list_all (list_all (\<lambda>d. rule_ID (rd_Rule d) \<noteq> ''r1'')) (fst (tracker_run NewBreachTracker 3
      (demo_calls [Finite 31, Finite 29, Finite 31, Finite 29, Finite 31, Finite 29])))"
proof -
  let ?vs = "[Finite 31, Finite 29, Finite 31, Finite 29, Finite 31, Finite 29]"
  have "history ''r1'' (demo_calls ?vs) = [True, False, True, False, True, False]"
    by (simp add: demo_calls_def demo_rule_def verdict_def compareThreshold_def)
  then show ?thesis
    unfolding list_all_iff by (intro oscillation_never_fires demo_calls_ok) simp_all
qed

text \<open>C26: A sustained breach always fires, whatever the tracker held before (for instance nothing,
  after a restart): if a rule's next N verdicts are all breaches and no alert of it is active at
  the last of these calls, that call creates an alert. The debounce delays an alert by at most N
  readings and never loses one.\<close>

theorem sustained_breach_fires:
  assumes "list_all call_ok (calls @ [(rules, rs, act)])" and "r \<in> set rules"
    and "verdict r rs = Some True" and "0 < n"
    and "history (rule_ID r) (calls @ [(rules, rs, act)]) = replicate (nat n) True"
    and "0 \<le> bs_Count (streak_of t (rule_ID r))"
    and "bs_Count (streak_of t (rule_ID r)) + n \<le> max_int64"
    and "\<not> map_get False act (rule_ID r)"
  shows "\<exists>d \<in> set (last (fst (tracker_run t n (calls @ [(rules, rs, act)])))).
    rd_Rule d = r \<and> rd_Decision d = CreateAlert"
  using streak_replicate [of "streak_of t (rule_ID r)" "nat n" True] assms
  unfolding last_call_decision [OF assms(1-3)] by simp

theorem sustained_breach_fires_witness:
  "\<exists>d \<in> set (last (fst (tracker_run \<lparr>tr_streaks = [''r1'' \<mapsto> \<lparr>bs_Count = 7, bs_Breaching = False\<rparr>]\<rparr> 2
      (demo_calls [Finite 31, Finite 33])))).
     rd_Rule d = demo_rule \<and> rd_Decision d = CreateAlert"
proof -
  let ?c = "([demo_rule], [(''t'', Finite 33)], Map.empty)"
  have calls: "demo_calls [Finite 31, Finite 33] = demo_calls [Finite 31] @ [?c]"
    by (simp add: demo_calls_def)
  have "verdict demo_rule [(''t'', Finite 33)] = Some True"
    "history (rule_ID demo_rule) (demo_calls [Finite 31] @ [?c]) = replicate (nat 2) True"
    by (simp_all add: demo_calls_def demo_rule_def verdict_def compareThreshold_def numeral_2_eq_2)
  then show ?thesis
    unfolding calls
    by (intro sustained_breach_fires demo_calls_ok [of "[Finite 31, Finite 33]", unfolded calls])
      (simp_all add: map_get_def demo_rule_def)
qed

text \<open>The four operators split the values as intended: on numbers, gt and lte are complementary
  and so are lt and gte; a NaN value or threshold and an unknown operator never trigger.\<close>

theorem compareThreshold_operators:
  "compareThreshold v op th \<longleftrightarrow> \<not> is_NaN v \<and> \<not> is_NaN th \<and>
     (op = ''gt'' \<and> \<not> v \<le> th \<or> op = ''lte'' \<and> v \<le> th \<or> op = ''lt'' \<and> \<not> th \<le> v \<or> op = ''gte'' \<and> th \<le> v)"
  by (simp add: compareThreshold_def float64_less_iff_not_le) (blast dest: float64_le_not_NaN)

end
