(* ===== verification/Contract.thy ===== *)
theory Contract
  imports Json
begin

text \<open>
  \<open>ingestion/contract.go\<close>: the MQTT payload and topic contract. \<open>telemetryTopic\<close> and
  \<open>telemetry_payload\<close> are the publisher's side of it (\<open>simulator/src/mqtt-topic.ts\<close> and the payload
  of \<open>docs/mqtt-contract.md\<close>), against which the two parsers are shown to be inverses.
\<close>

record TelemetryMessage =
  tm_DeviceID :: string
  tm_SiteID :: string
  tm_DeviceType :: string
  tm_Readings :: "(string \<times> float64) list"
  tm_Ts :: time

text \<open>The zero \<open>time.Time\<close>: 1 January of year 1, UTC.\<close>

definition zero_time :: time where
  "zero_time = - 62135596800 * second"

definition TelemetryMessage_zero :: TelemetryMessage where
  "TelemetryMessage_zero = \<lparr>tm_DeviceID = [], tm_SiteID = [], tm_DeviceType = [], tm_Readings = [], tm_Ts = zero_time\<rparr>"

datatype contract_error =
    InvalidJson
  | MissingRequiredFields
  | ReadingsEmpty
  | TopicMismatch string

definition telemetry_fields :: "string list" where
  "telemetry_fields = [''device_id'', ''site_id'', ''device_type'', ''readings'', ''ts'']"

definition set_telemetry_field :: "codec \<Rightarrow> string \<Rightarrow> json \<Rightarrow> TelemetryMessage \<Rightarrow> TelemetryMessage option" where
  "set_telemetry_field cd f j m =
     (if f = ''device_id'' then map_option (\<lambda>s. m\<lparr>tm_DeviceID := s\<rparr>) (decode_string j (tm_DeviceID m))
      else if f = ''site_id'' then map_option (\<lambda>s. m\<lparr>tm_SiteID := s\<rparr>) (decode_string j (tm_SiteID m))
      else if f = ''device_type'' then map_option (\<lambda>s. m\<lparr>tm_DeviceType := s\<rparr>) (decode_string j (tm_DeviceType m))
      else if f = ''readings'' then map_option (\<lambda>r. m\<lparr>tm_Readings := r\<rparr>) (decode_readings j (tm_Readings m))
      else map_option (\<lambda>t. m\<lparr>tm_Ts := t\<rparr>) (decode_time cd j (tm_Ts m)))"

definition unmarshal_telemetry :: "codec \<Rightarrow> string \<Rightarrow> TelemetryMessage option" where
  "unmarshal_telemetry cd raw =
     (case parse_all cd raw of None \<Rightarrow> None
      | Some j \<Rightarrow> decode_struct telemetry_fields (set_telemetry_field cd) j TelemetryMessage_zero)"

definition parseTelemetryMessage :: "codec \<Rightarrow> string \<Rightarrow> contract_error + TelemetryMessage" where
  "parseTelemetryMessage cd raw =
     (case unmarshal_telemetry cd raw of
        None \<Rightarrow> Inl InvalidJson
      | Some msg \<Rightarrow>
          if tm_DeviceID msg = [] \<or> tm_SiteID msg = [] \<or> tm_DeviceType msg = [] then Inl MissingRequiredFields
          else if length (tm_Readings msg) = 0 then Inl ReadingsEmpty
          else Inr msg)"

definition parseTopic :: "string \<Rightarrow> contract_error + string \<times> string" where
  "parseTopic topic =
     (let parts = Split topic (CHR ''/'') in
      if length parts \<noteq> 4 \<or> parts ! 0 \<noteq> ''sitewatch'' \<or> parts ! 3 \<noteq> ''telemetry''
      then Inl (TopicMismatch topic)
      else Inr (parts ! 1, parts ! 2))"

subsection \<open>The publisher's side\<close>

definition telemetryTopic :: "string \<Rightarrow> string \<Rightarrow> string" where
  "telemetryTopic siteId deviceId = ''sitewatch/'' @ siteId @ ''/'' @ deviceId @ ''/telemetry''"

definition telemetry_payload :: "(time \<Rightarrow> string) \<Rightarrow> TelemetryMessage \<Rightarrow> json" where
  "telemetry_payload fmt m =
     JObj [(''device_id'', JStr (tm_DeviceID m)), (''site_id'', JStr (tm_SiteID m)),
           (''device_type'', JStr (tm_DeviceType m)),
           (''readings'', JObj (map (\<lambda>(k, x). (k, JNum (Some x))) (tm_Readings m))),
           (''ts'', JStr (fmt (tm_Ts m)))]"

subsection \<open>Lemmas\<close>

lemma length4_exhaust: "length xs = 4 \<longleftrightarrow> (\<exists>a b c d. xs = [a, b, c, d])"
  by (auto simp: length_Suc_conv eval_nat_numeral)

lemma telemetryTopic_Join:
  "telemetryTopic s d = Join [''sitewatch'', s, d, ''telemetry''] (CHR ''/'')"
  by (simp add: telemetryTopic_def)

lemma parseTopic_Inr:
  "parseTopic t = Inr (s, d) \<longleftrightarrow> Split t (CHR ''/'') = [''sitewatch'', s, d, ''telemetry'']"
proof -
  have "length (Split t (CHR ''/'')) = 4 \<Longrightarrow> \<exists>a b c d. Split t (CHR ''/'') = [a, b, c, d]"
    by (simp add: length4_exhaust)
  then show ?thesis by (auto simp: parseTopic_def Let_def eval_nat_numeral split: if_splits)
qed

lemma parseTelemetryMessage_Inr:
  "parseTelemetryMessage cd raw = Inr m \<longleftrightarrow>
     unmarshal_telemetry cd raw = Some m \<and> tm_DeviceID m \<noteq> [] \<and> tm_SiteID m \<noteq> [] \<and>
     tm_DeviceType m \<noteq> [] \<and> tm_Readings m \<noteq> []"
  by (auto simp: parseTelemetryMessage_def split: option.splits if_splits)

lemma decode_readings_distinct:
  "decode_readings j old = Some r \<Longrightarrow> distinct (map fst old) \<Longrightarrow> distinct (map fst r)"
  by (auto simp: decode_readings_def decode_float_map_keys_distinct split: json.splits)

lemma decode_fields_distinct:
  "decode_fields telemetry_fields (set_telemetry_field cd) kvs m = Some m' \<Longrightarrow>
   distinct (map fst (tm_Readings m)) \<Longrightarrow> distinct (map fst (tm_Readings m'))"
proof (induction kvs arbitrary: m)
  case (Cons kv kvs)
  obtain k j where kv: "kv = (k, j)" by (cases kv)
  show ?case
  proof (cases "field_for telemetry_fields k")
    case None
    with Cons kv show ?thesis by simp
  next
    case (Some f)
    with Cons.prems kv obtain m1 where m1: "set_telemetry_field cd f j m = Some m1"
      and rest: "decode_fields telemetry_fields (set_telemetry_field cd) kvs m1 = Some m'"
      by (auto split: option.splits)
    from m1 Cons.prems have "distinct (map fst (tm_Readings m1))"
      by (auto simp: set_telemetry_field_def dest: decode_readings_distinct split: if_splits)
    with rest show ?thesis by (rule Cons.IH)
  qed
qed simp

lemma unmarshal_readings_distinct:
  "unmarshal_telemetry cd raw = Some m \<Longrightarrow> distinct (map fst (tm_Readings m))"
  by (auto simp: unmarshal_telemetry_def decode_struct_def TelemetryMessage_zero_def
      dest: decode_fields_distinct split: option.splits json.splits)

lemma decode_telemetry_payload:
  assumes "strict_RFC3339 cd (fmt (tm_Ts m)) = Some (tm_Ts m)" and "distinct (map fst (tm_Readings m))"
  shows "decode_struct telemetry_fields (set_telemetry_field cd) (telemetry_payload fmt m) TelemetryMessage_zero = Some m"
  using decode_float_map_roundtrip [of "[]" "tm_Readings m"] assms
  by (simp add: decode_struct_def telemetry_payload_def telemetry_fields_def set_telemetry_field_def
      decode_string_def decode_readings_def decode_time_def TelemetryMessage_zero_def)

lemma parseTopic_iff:
  "parseTopic t = Inr (s, d) \<longleftrightarrow>
     t = telemetryTopic s d \<and> CHR ''/'' \<notin> set s \<and> CHR ''/'' \<notin> set d"
proof
  assume "parseTopic t = Inr (s, d)"
  then have sp: "Split t (CHR ''/'') = [''sitewatch'', s, d, ''telemetry'']" by (simp add: parseTopic_Inr)
  then have "t = telemetryTopic s d" using Join_Split [of t "CHR ''/''"] by (simp add: telemetryTopic_Join)
  moreover have "CHR ''/'' \<notin> set s" "CHR ''/'' \<notin> set d"
    using Split_no_sep [of _ t "CHR ''/''"] sp by auto
  ultimately show "t = telemetryTopic s d \<and> CHR ''/'' \<notin> set s \<and> CHR ''/'' \<notin> set d" by simp
next
  assume a: "t = telemetryTopic s d \<and> CHR ''/'' \<notin> set s \<and> CHR ''/'' \<notin> set d"
  then have "Split t (CHR ''/'') = [''sitewatch'', s, d, ''telemetry'']"
    by (simp add: telemetryTopic_def go_simps)
  then show "parseTopic t = Inr (s, d)" by (simp add: parseTopic_Inr)
qed

subsection \<open>Properties\<close>

text \<open>C15: The topic parser accepts exactly the topics the publisher builds and returns the ids they
  were built from: parsing succeeds with a pair of ids if and only if the topic is the one
  telemetryTopic makes of them and neither id contains a slash.\<close>

theorem parseTopic_inverts_telemetryTopic:
  "parseTopic t = Inr (s, d) \<longleftrightarrow>
     t = telemetryTopic s d \<and> CHR ''/'' \<notin> set s \<and> CHR ''/'' \<notin> set d"
  by (rule parseTopic_iff)

text \<open>A payload is accepted exactly when it decodes and carries a non-empty device id, site id,
  device type and at least one reading, and an accepted message has one value per metric; every
  other payload is rejected with the error of the first check it fails.\<close>

theorem parseTelemetryMessage_accepts:
  "case parseTelemetryMessage cd raw of
     Inr m \<Rightarrow> unmarshal_telemetry cd raw = Some m \<and> tm_DeviceID m \<noteq> [] \<and> tm_SiteID m \<noteq> [] \<and>
       tm_DeviceType m \<noteq> [] \<and> tm_Readings m \<noteq> [] \<and> distinct (map fst (tm_Readings m))
   | Inl InvalidJson \<Rightarrow> unmarshal_telemetry cd raw = None
   | Inl MissingRequiredFields \<Rightarrow> (\<exists>m. unmarshal_telemetry cd raw = Some m \<and>
       [] \<in> {tm_DeviceID m, tm_SiteID m, tm_DeviceType m})
   | Inl ReadingsEmpty \<Rightarrow> (\<exists>m. unmarshal_telemetry cd raw = Some m \<and>
       [] \<notin> {tm_DeviceID m, tm_SiteID m, tm_DeviceType m} \<and> tm_Readings m = [])
   | Inl (TopicMismatch _) \<Rightarrow> False"
  by (auto simp: parseTelemetryMessage_def dest: unmarshal_readings_distinct split: option.split)

text \<open>Round trip of the payload contract: whatever text the publisher encodes its message as, if
  the JSON layer reads it back as the published object and the timestamp format is invertible,
  then ingestion recovers exactly the published message.\<close>

theorem telemetry_payload_roundtrip:
  assumes "parse_all cd raw = Some (telemetry_payload fmt m)"
    and "strict_RFC3339 cd (fmt (tm_Ts m)) = Some (tm_Ts m)"
    and "distinct (map fst (tm_Readings m))"
    and "tm_DeviceID m \<noteq> []" "tm_SiteID m \<noteq> []" "tm_DeviceType m \<noteq> []" "tm_Readings m \<noteq> []"
  shows "parseTelemetryMessage cd raw = Inr m"
  using assms decode_telemetry_payload [of cd fmt m]
  by (simp add: parseTelemetryMessage_Inr unmarshal_telemetry_def)

definition demo_message :: TelemetryMessage where
  "demo_message = \<lparr>tm_DeviceID = ''d1'', tm_SiteID = ''s1'', tm_DeviceType = ''temp_sensor'',
     tm_Readings = [(''t'', Finite 33)], tm_Ts = 7\<rparr>"

text \<open>A codec whose JSON layer knows one text per demonstration message.\<close>

definition demo_codec :: "(string \<times> json) list \<Rightarrow> codec" where
  "demo_codec texts = \<lparr>parse_all = map_of texts, parse_first = map_of texts,
     strict_RFC3339 = (\<lambda>s. Some (int (length s))), parse_RFC3339 = (\<lambda>s. Some (int (length s))),
     ParseFloat = (\<lambda>s. None)\<rparr>"

definition demo_fmt :: "time \<Rightarrow> string" where
  "demo_fmt t = replicate (nat t) (CHR ''x'')"

theorem telemetry_payload_roundtrip_witness:
  "parseTelemetryMessage (demo_codec [(''{}'', telemetry_payload demo_fmt demo_message)]) ''{}'' = Inr demo_message"
  by (rule telemetry_payload_roundtrip [where fmt = demo_fmt])
    (simp_all add: demo_codec_def demo_message_def demo_fmt_def)

end
