(* ===== verification/Ingest_Store.thy ===== *)
theory Ingest_Store
  imports Alert_Engine Contract Postgres
begin

text \<open>
  \<open>ingestion/store.go\<close> and the storage half of \<open>ingestion/alerts.go\<close>: writing telemetry, the
  debounced \<open>last_seen_at\<close> update, loading rules and active alerts, and applying decisions with a
  bounded retry. The interface \<open>alert_sink\<close> states what the engine needs of the storage it applies
  its decisions to; the SQL statements are shown to provide it.
\<close>

subsection \<open>The store\<close>

definition lastSeenDebounce :: duration where
  "lastSeenDebounce = 60 * second"

record Store =
  st_world :: world
  st_lastSeenSent :: "string \<Rightarrow> time option"

definition NewStore :: "world \<Rightarrow> Store" where
  "NewStore w = \<lparr>st_world = w, st_lastSeenSent = Map.empty\<rparr>"

datatype store_error =
    MongoInsert string
  | UpdateLastSeen pgerr
  | QueryRules pgerr
  | ScanRules pgerr
  | QueryActive pgerr
  | ScanActive pgerr
  | RowsFailed pgerr
  | InsertAlert string pgerr
  | ResolveAlert string pgerr
  | ApplyAfter nat store_error

text \<open>A BSON date has millisecond resolution.\<close>

definition bson_date :: "time \<Rightarrow> time" where
  "bson_date t = t div millisecond * millisecond"

definition telemetry_doc :: "TelemetryMessage \<Rightarrow> time \<Rightarrow> TelemetryDoc" where
  "telemetry_doc msg now = \<lparr>td_device_id = tm_DeviceID msg, td_site_id = tm_SiteID msg,
     td_device_type = tm_DeviceType msg, td_readings = tm_Readings msg,
     td_ts = bson_date (tm_Ts msg), td_received_at = bson_date now\<rparr>"

definition WriteTelemetry :: "TelemetryMessage \<Rightarrow> time \<Rightarrow> Store \<Rightarrow> store_error option \<times> Store" where
  "WriteTelemetry msg now s =
     (let (ft, w) = next_fault (st_world s);
          w' = w\<lparr>w_telemetry := w_telemetry w @ [telemetry_doc msg now]\<rparr>
      in case ft of
           Fail m \<Rightarrow> (Some (MongoInsert m), s\<lparr>st_world := w\<rparr>)
         | Lost m \<Rightarrow> (Some (MongoInsert m), s\<lparr>st_world := w'\<rparr>)
         | Cut _ m \<Rightarrow> (Some (MongoInsert m), s\<lparr>st_world := w'\<rparr>)
         | _ \<Rightarrow> (None, s\<lparr>st_world := w'\<rparr>))"

definition stmt_last_seen :: "pgenv \<Rightarrow> string \<Rightarrow> time \<Rightarrow> pgdb \<Rightarrow> pgerr + unit \<times> pgdb" where
  "stmt_last_seen E deviceID stamp db =
     (case uuid_parse E deviceID of
        None \<Rightarrow> Inl invalid_uuid
      | Some u \<Rightarrow> Inr ((), db\<lparr>devices := map (\<lambda>d. if dev_ID d = u
          then d\<lparr>dev_LastSeenAt := Some (timestamptz stamp)\<rparr> else d) (devices db)\<rparr>))"

definition last_seen_due :: "string \<Rightarrow> time \<Rightarrow> Store \<Rightarrow> bool" where
  "last_seen_due deviceID stamp s =
     (case st_lastSeenSent s deviceID of None \<Rightarrow> True
      | Some prev \<Rightarrow> lastSeenDebounce \<le> time_Sub stamp prev)"

definition MaybeUpdateLastSeen :: "pgenv \<Rightarrow> string \<Rightarrow> time \<Rightarrow> Store \<Rightarrow> store_error option \<times> Store" where
  "MaybeUpdateLastSeen E deviceID stamp s =
     (if \<not> last_seen_due deviceID stamp s then (None, s)
      else
        let s1 = s\<lparr>st_lastSeenSent := (st_lastSeenSent s)(deviceID \<mapsto> stamp)\<rparr>;
            (r, w) = run_stmt (stmt_last_seen E deviceID stamp) (st_world s1)
        in ((case r of Inl e \<Rightarrow> Some (UpdateLastSeen e) | Inr _ \<Rightarrow> None), s1\<lparr>st_world := w\<rparr>))"

subsection \<open>Loading rules and active alerts\<close>

definition rule_of_row :: "AlertRule \<Rightarrow> Rule" where
  "rule_of_row r = \<lparr>rule_ID = ar_ID r, rule_Metric = ar_Metric r, rule_Operator = ar_Operator r,
     rule_Threshold = ar_Threshold r, rule_Severity = ar_Severity r\<rparr>"

definition query_enabled_rules :: "pgenv \<Rightarrow> string \<Rightarrow> pgdb \<Rightarrow> pgerr + Rule list" where
  "query_enabled_rules E deviceID db =
     (case uuid_parse E deviceID of
        None \<Rightarrow> Inl invalid_uuid
      | Some u \<Rightarrow> Inr (map rule_of_row
          (filter (\<lambda>r. ar_DeviceID r = u \<and> ar_Enabled r) (in_scan_order E (alert_rules db)))))"

definition LoadEnabledRules :: "pgenv \<Rightarrow> string \<Rightarrow> Store \<Rightarrow> (store_error + Rule list) \<times> Store" where
  "LoadEnabledRules E deviceID s =
     (let (r, w) = run_query (query_enabled_rules E deviceID) (st_world s) in
      ((case r of
          Inl e \<Rightarrow> Inl (QueryRules e)
        | Inr rows \<Rightarrow>
            (case scan_rows rows of
               Inl e \<Rightarrow> Inl (ScanRules e)
             | Inr rules \<Rightarrow> (case rows_Err rows of Some e \<Rightarrow> Inl (RowsFailed e) | None \<Rightarrow> Inr rules))),
       s\<lparr>st_world := w\<rparr>))"

definition query_active_rule_ids :: "pgenv \<Rightarrow> string \<Rightarrow> pgdb \<Rightarrow> pgerr + string list" where
  "query_active_rule_ids E deviceID db =
     (case uuid_parse E deviceID of
        None \<Rightarrow> Inl invalid_uuid
      | Some u \<Rightarrow> Inr (map al_AlertRuleID
          (filter (\<lambda>a. al_DeviceID a = u \<and> al_Status a \<in> {''open'', ''acknowledged''})
            (in_scan_order E (alerts db)))))"

definition id_set_of :: "string list \<Rightarrow> id_set" where
  "id_set_of ids = fold (\<lambda>i m. m(i \<mapsto> True)) ids Map.empty"

definition LoadActiveRuleIDs :: "pgenv \<Rightarrow> string \<Rightarrow> Store \<Rightarrow> (store_error + id_set) \<times> Store" where
  "LoadActiveRuleIDs E deviceID s =
     (let (r, w) = run_query (query_active_rule_ids E deviceID) (st_world s) in
      ((case r of
          Inl e \<Rightarrow> Inl (QueryActive e)
        | Inr rows \<Rightarrow>
            (case scan_rows rows of
               Inl e \<Rightarrow> Inl (ScanActive e)
             | Inr ids \<Rightarrow> (case rows_Err rows of Some e \<Rightarrow> Inl (RowsFailed e) | None \<Rightarrow> Inr (id_set_of ids)))),
       s\<lparr>st_world := w\<rparr>))"

subsection \<open>Applying decisions\<close>

definition new_alert :: "string \<Rightarrow> string \<Rightarrow> string \<Rightarrow> float64 \<Rightarrow> string \<Rightarrow> time \<Rightarrow> Alert" where
  "new_alert i ruleID deviceID val sev stamp =
     \<lparr>al_ID = i, al_AlertRuleID = ruleID, al_DeviceID = deviceID, al_TriggeredValue = val,
      al_Severity = sev, al_Status = ''open'', al_TriggeredAt = timestamptz stamp,
      al_AcknowledgedAt = None, al_AcknowledgedBy = None, al_ResolvedAt = None, al_ResolvedBy = None\<rparr>"

text \<open>\<open>INSERT INTO alerts\<close>: the \<open>CHECK\<close> on severity, the primary key, then the foreign keys.\<close>

definition stmt_insert_alert ::
  "pgenv \<Rightarrow> string \<Rightarrow> string \<Rightarrow> float64 \<Rightarrow> string \<Rightarrow> time \<Rightarrow> pgdb \<Rightarrow> pgerr + unit \<times> pgdb" where
  "stmt_insert_alert E ruleID deviceID val sev stamp db =
     (case (uuid_parse E ruleID, uuid_parse E deviceID) of
        (Some r, Some d) \<Rightarrow>
          let i = gen_random_uuid E (uuids_drawn db) in
          if sev \<notin> set severities then Inl check_violation
          else if i \<in> al_ID ` set (alerts db) then Inl unique_violation
          else if r \<notin> ar_ID ` set (alert_rules db) \<or> d \<notin> dev_ID ` set (devices db)
          then Inl foreign_key_violation
          else Inr ((), db\<lparr>alerts := alerts db @ [new_alert i r d val sev stamp],
                           uuids_drawn := Suc (uuids_drawn db)\<rparr>)
      | _ \<Rightarrow> Inl invalid_uuid)"

definition auto_resolved :: "time \<Rightarrow> Alert \<Rightarrow> Alert" where
  "auto_resolved stamp a = a\<lparr>al_Status := ''resolved'', al_ResolvedAt := Some (timestamptz stamp)\<rparr>"

definition stmt_auto_resolve :: "pgenv \<Rightarrow> time \<Rightarrow> string \<Rightarrow> pgdb \<Rightarrow> pgerr + unit \<times> pgdb" where
  "stmt_auto_resolve E stamp ruleID db =
     (case uuid_parse E ruleID of
        None \<Rightarrow> Inl invalid_uuid
      | Some r \<Rightarrow> Inr ((), update_alerts
          (\<lambda>a. al_AlertRuleID a = r \<and> al_Status a \<in> {''open'', ''acknowledged''}) (auto_resolved stamp) db))"

fun ApplyDecisions ::
  "pgenv \<Rightarrow> string \<Rightarrow> RuleDecision list \<Rightarrow> time \<Rightarrow> Store \<Rightarrow> store_error option \<times> Store" where
  "ApplyDecisions E deviceID [] stamp s = (None, s)"
| "ApplyDecisions E deviceID (d # ds) stamp s =
     (case rd_Decision d of
        CreateAlert \<Rightarrow>
          (case run_stmt (stmt_insert_alert E (rule_ID (rd_Rule d)) deviceID (rd_Value d)
              (rule_Severity (rd_Rule d)) stamp) (st_world s) of
             (Inl e, w) \<Rightarrow> (Some (InsertAlert (rule_ID (rd_Rule d)) e), s\<lparr>st_world := w\<rparr>)
           | (Inr _, w) \<Rightarrow> ApplyDecisions E deviceID ds stamp (s\<lparr>st_world := w\<rparr>))
      | AutoResolve \<Rightarrow>
          (case run_stmt (stmt_auto_resolve E stamp (rule_ID (rd_Rule d))) (st_world s) of
             (Inl e, w) \<Rightarrow> (Some (ResolveAlert (rule_ID (rd_Rule d)) e), s\<lparr>st_world := w\<rparr>)
           | (Inr _, w) \<Rightarrow> ApplyDecisions E deviceID ds stamp (s\<lparr>st_world := w\<rparr>))
      | NoAction \<Rightarrow> ApplyDecisions E deviceID ds stamp s)"

definition maxAttempts :: nat where
  "maxAttempts = 3"

definition sleep :: "duration \<Rightarrow> Store \<Rightarrow> Store" where
  "sleep d s = s\<lparr>st_world := (st_world s)\<lparr>w_slept := w_slept (st_world s) @ [d]\<rparr>\<rparr>"

function apply_attempts ::
  "pgenv \<Rightarrow> string \<Rightarrow> RuleDecision list \<Rightarrow> time \<Rightarrow> nat \<Rightarrow> duration \<Rightarrow> Store \<Rightarrow> store_error option \<times> Store" where
  "apply_attempts E deviceID ds stamp attempt backoff s =
     (case ApplyDecisions E deviceID ds stamp s of
        (None, s') \<Rightarrow> (None, s')
      | (Some err, s') \<Rightarrow>
          if attempt < maxAttempts
          then apply_attempts E deviceID ds stamp (Suc attempt) (int64_wrap (backoff * 2)) (sleep backoff s')
          else (Some (ApplyAfter maxAttempts err), s'))"
  by pat_completeness auto
termination
  by (relation "measure (\<lambda>(E, deviceID, ds, stamp, attempt, backoff, s). maxAttempts - attempt)") auto

declare apply_attempts.simps [simp del]

definition applyDecisionsWithRetry ::
  "pgenv \<Rightarrow> string \<Rightarrow> RuleDecision list \<Rightarrow> time \<Rightarrow> Store \<Rightarrow> store_error option \<times> Store" where
  "applyDecisionsWithRetry E deviceID ds stamp s =
     apply_attempts E deviceID ds stamp 1 (100 * millisecond) s"

subsection \<open>The interface the engine applies its decisions to\<close>

text \<open>
  One pass over the decisions on an abstract alert store: a failing operation stops the pass and
  leaves what was applied before it.
\<close>

fun apply_all ::
  "(Rule \<Rightarrow> float64 \<Rightarrow> 'db \<Rightarrow> 'db option) \<Rightarrow> (Rule \<Rightarrow> 'db \<Rightarrow> 'db option) \<Rightarrow> RuleDecision list \<Rightarrow> 'db \<Rightarrow> bool \<times> 'db" where
  "apply_all create resolve [] db = (True, db)"
| "apply_all create resolve (d # ds) db =
     (case (case rd_Decision d of
              CreateAlert \<Rightarrow> create (rd_Rule d) (rd_Value d) db
            | AutoResolve \<Rightarrow> resolve (rd_Rule d) db
            | NoAction \<Rightarrow> Some db) of
        None \<Rightarrow> (False, db)
      | Some db' \<Rightarrow> apply_all create resolve ds db')"

locale alert_sink =
  fixes active :: "'db \<Rightarrow> string \<Rightarrow> nat"
    and known :: "Rule \<Rightarrow> bool"
    and create :: "Rule \<Rightarrow> float64 \<Rightarrow> 'db \<Rightarrow> 'db option"
    and resolve :: "Rule \<Rightarrow> 'db \<Rightarrow> 'db option"
  assumes create_active: "known r \<Longrightarrow> create r v db = Some db' \<Longrightarrow>
      active db' i = active db i + (if i = rule_ID r then 1 else 0)"
    and resolve_active: "known r \<Longrightarrow> resolve r db = Some db' \<Longrightarrow>
      active db' i = (if i = rule_ID r then 0 else active db i)"
begin

text \<open>A pass that creates alerts only for rules without an active one keeps at most one active.\<close>

lemma apply_all_at_most_one:
  assumes "distinct (map (\<lambda>d. rule_ID (rd_Rule d)) ds)" and "\<forall>d \<in> set ds. known (rd_Rule d)"
    and "\<forall>d \<in> set ds. rd_Decision d = CreateAlert \<longrightarrow> active db (rule_ID (rd_Rule d)) = 0"
    and "\<forall>i. active db i \<le> 1"
  shows "active (snd (apply_all create resolve ds db)) i \<le> 1"
  using assms
proof (induction ds arbitrary: db)
  case (Cons d ds)
  show ?case
  proof (cases "case rd_Decision d of CreateAlert \<Rightarrow> create (rd_Rule d) (rd_Value d) db
            | AutoResolve \<Rightarrow> resolve (rd_Rule d) db | NoAction \<Rightarrow> Some db")
    case None
    with Cons.prems show ?thesis by simp
  next
    case (Some db')
    have k: "known (rd_Rule d)" using Cons.prems by simp
    have eff: "active db' j = (if j = rule_ID (rd_Rule d)
        then (case rd_Decision d of CreateAlert \<Rightarrow> 1 | AutoResolve \<Rightarrow> 0 | NoAction \<Rightarrow> active db j) else active db j)" for j
    proof (cases "rd_Decision d")
      case CreateAlert
      with Some Cons.prems(3) show ?thesis
        using create_active [OF k, of "rd_Value d" db db' j] by simp
    next
      case AutoResolve
      with Some show ?thesis using resolve_active [OF k, of db db' j] by simp
    qed (use Some in simp)
    have ne: "rule_ID (rd_Rule e) \<noteq> rule_ID (rd_Rule d)" if "e \<in> set ds" for e
      using distinct_map_ConsD [OF Cons.prems(1) that] .
    have "active (snd (apply_all create resolve ds db')) i \<le> 1"
    proof (rule Cons.IH)
      show "\<forall>e \<in> set ds. rd_Decision e = CreateAlert \<longrightarrow> active db' (rule_ID (rd_Rule e)) = 0"
        using Cons.prems(3) eff ne by simp
      show "\<forall>j. active db' j \<le> 1" using Cons.prems(4) eff by (auto split: Decision.split)
    qed (use Cons.prems in auto)
    with Some show ?thesis by simp
  qed
qed simp

text \<open>What a complete pass does to the number of active alerts of each rule.\<close>

lemma apply_all_effect:
  assumes "distinct (map (\<lambda>d. rule_ID (rd_Rule d)) ds)" and "\<forall>d \<in> set ds. known (rd_Rule d)"
    and "fst (apply_all create resolve ds db)"
  shows "active (snd (apply_all create resolve ds db)) i =
    (case List.find (\<lambda>d. rule_ID (rd_Rule d) = i) ds of
       None \<Rightarrow> active db i
     | Some d \<Rightarrow> (case rd_Decision d of CreateAlert \<Rightarrow> active db i + 1 | AutoResolve \<Rightarrow> 0 | NoAction \<Rightarrow> active db i))"
  using assms
proof (induction ds arbitrary: db)
  case (Cons d ds)
  let ?one = "case rd_Decision d of CreateAlert \<Rightarrow> create (rd_Rule d) (rd_Value d) db
    | AutoResolve \<Rightarrow> resolve (rd_Rule d) db | NoAction \<Rightarrow> Some db"
  from Cons.prems(3) obtain db' where one: "?one = Some db'" by (auto split: option.splits)
  with Cons.prems(2) have eff: "active db' j = (if j = rule_ID (rd_Rule d)
      then (case rd_Decision d of CreateAlert \<Rightarrow> active db j + 1 | AutoResolve \<Rightarrow> 0 | NoAction \<Rightarrow> active db j)
      else active db j)" for j
    by (cases "rd_Decision d") (auto dest: create_active [of _ _ _ _ j] resolve_active [of _ _ _ j])
  have none: "List.find (\<lambda>e. rule_ID (rd_Rule e) = rule_ID (rd_Rule d)) ds = None"
    using distinct_map_ConsD [OF Cons.prems(1)] by (auto simp: find_None_iff)
  from one have step: "apply_all create resolve (d # ds) db = apply_all create resolve ds db'" by simp
  with Cons.prems Cons.IH [of db'] have "active (snd (apply_all create resolve (d # ds) db)) i =
    (case List.find (\<lambda>d. rule_ID (rd_Rule d) = i) ds of None \<Rightarrow> active db' i
     | Some d \<Rightarrow> (case rd_Decision d of CreateAlert \<Rightarrow> active db' i + 1 | AutoResolve \<Rightarrow> 0 | NoAction \<Rightarrow> active db' i))"
    by simp
  with eff [of i] none show ?case by (cases "rule_ID (rd_Rule d) = i") (simp_all cong: Decision.case_cong split: option.split)
qed simp

end

subsection \<open>The SQL statements provide the interface\<close>

definition committed :: "pgerr + unit \<times> pgdb \<Rightarrow> pgdb option" where
  "committed r = (case r of Inl _ \<Rightarrow> None | Inr (_, db) \<Rightarrow> Some db)"

definition pg_known :: "pgenv \<Rightarrow> Rule \<Rightarrow> bool" where
  "pg_known E r \<longleftrightarrow> uuid_parse E (rule_ID r) = Some (rule_ID r)"

definition pg_create :: "pgenv \<Rightarrow> string \<Rightarrow> time \<Rightarrow> Rule \<Rightarrow> float64 \<Rightarrow> pgdb \<Rightarrow> pgdb option" where
  "pg_create E deviceID stamp r v db =
     committed (stmt_insert_alert E (rule_ID r) deviceID v (rule_Severity r) stamp db)"

definition pg_resolve :: "pgenv \<Rightarrow> time \<Rightarrow> Rule \<Rightarrow> pgdb \<Rightarrow> pgdb option" where
  "pg_resolve E stamp r db = committed (stmt_auto_resolve E stamp (rule_ID r) db)"

lemma committed_simps [simp]: "committed (Inl e) = None" "committed (Inr (x, db)) = Some db"
  by (simp_all add: committed_def)

lemma committed_Some: "committed r = Some db \<longleftrightarrow> r = Inr ((), db)"
  by (auto simp: committed_def split: sum.splits)

lemma stmt_insert_alert_Inr:
  "stmt_insert_alert E ruleID deviceID val sev stamp db = Inr ((), db') \<longleftrightarrow>
     (\<exists>r d. uuid_parse E ruleID = Some r \<and> uuid_parse E deviceID = Some d \<and> sev \<in> set severities \<and>
        gen_random_uuid E (uuids_drawn db) \<notin> al_ID ` set (alerts db) \<and>
        r \<in> ar_ID ` set (alert_rules db) \<and> d \<in> dev_ID ` set (devices db) \<and>
        db' = db\<lparr>alerts := alerts db @ [new_alert (gen_random_uuid E (uuids_drawn db)) r d val sev stamp],
                 uuids_drawn := Suc (uuids_drawn db)\<rparr>)"
  by (auto simp: stmt_insert_alert_def Let_def split: option.splits if_splits)

lemma new_alert_active [simp]: "is_active (new_alert i r d v sev t)" "al_AlertRuleID (new_alert i r d v sev t) = r"
  by (simp_all add: new_alert_def is_active_def)

lemma auto_resolved_simps [simp]:
  "\<not> is_active (auto_resolved t a)" "al_AlertRuleID (auto_resolved t a) = al_AlertRuleID a"
  by (simp_all add: auto_resolved_def is_active_def)

lemma active_count_auto_resolve:
  "active_count i (update_alerts (\<lambda>a. al_AlertRuleID a = r \<and> al_Status a \<in> {''open'', ''acknowledged''}) (auto_resolved t) db) =
     (if i = r then 0 else active_count i db)"
proof -
  let ?P = "\<lambda>a. al_AlertRuleID a = r \<and> al_Status a \<in> {''open'', ''acknowledged''}"
  let ?g = "\<lambda>a. if ?P a then auto_resolved t a else a"
  have "al_AlertRuleID (?g a) = i \<and> is_active (?g a) \<longleftrightarrow> i \<noteq> r \<and> al_AlertRuleID a = i \<and> is_active a" for a
    by (auto simp: is_active_def auto_resolved_def)
  then have "(\<lambda>a. al_AlertRuleID (?g a) = i \<and> is_active (?g a)) =
    (\<lambda>a. i \<noteq> r \<and> al_AlertRuleID a = i \<and> is_active a)" by blast
  then show ?thesis by (simp add: active_count_def filter_map comp_def)
qed

interpretation pg_sink: alert_sink "\<lambda>db i. active_count i db" "pg_known E" "pg_create E deviceID stamp" "pg_resolve E stamp"
  for E deviceID stamp
proof
  fix r v db db' i
  assume "pg_known E r" "pg_create E deviceID stamp r v db = Some db'"
  then show "active_count i db' = active_count i db + (if i = rule_ID r then 1 else 0)"
    by (auto simp: pg_create_def pg_known_def committed_Some stmt_insert_alert_Inr active_count_append)
next
  fix r db db' i
  assume "pg_known E r" "pg_resolve E stamp r db = Some db'"
  then show "active_count i db' = (if i = rule_ID r then 0 else active_count i db)"
    using active_count_auto_resolve [of i "rule_ID r" stamp db]
    by (auto simp: pg_resolve_def pg_known_def stmt_auto_resolve_def)
qed

subsection \<open>Lemmas: the statements keep the database well formed\<close>

lemma alert_evolves_auto_resolved: "is_active a \<Longrightarrow> alert_evolves a (auto_resolved t a)"
  by (auto simp: alert_evolves_def auto_resolved_def phase_of_def is_active_def less_eq_alert_phase_def)

lemma lifecycle_auto_resolved: "lifecycle_ok a \<Longrightarrow> is_active a \<Longrightarrow> lifecycle_ok (auto_resolved t a)"
  by (auto simp: lifecycle_ok_def auto_resolved_def is_active_def)

lemma active_status: "al_Status a = ''open'' \<or> al_Status a = ''acknowledged'' \<longleftrightarrow> is_active a"
  by (simp add: is_active_def)

lemma stmt_auto_resolve_ok:
  assumes "stmt_auto_resolve E t ruleID db = Inr (x, db')"
  shows "db_evolves db db'" "db_ok E db \<Longrightarrow> db_ok E db'" "active_count i db' \<le> active_count i db"
proof -
  from assms obtain r where db': "db' = update_alerts
      (\<lambda>a. al_AlertRuleID a = r \<and> al_Status a \<in> {''open'', ''acknowledged''}) (auto_resolved t) db"
    by (auto simp: stmt_auto_resolve_def split: option.splits)
  show "db_evolves db db'"
    unfolding db' by (rule db_evolves_update) (simp add: active_status alert_evolves_auto_resolved)
  show "db_ok E db'" if db: "db_ok E db"
    unfolding db'
  proof (rule db_ok_update_alerts [OF db])
    fix a assume a: "a \<in> set (alerts db)"
      "al_AlertRuleID a = r \<and> al_Status a \<in> {''open'', ''acknowledged''}"
    then have "is_active a" "lifecycle_ok a" "alert_row_ok db a"
      using db by (auto simp: is_active_def db_ok_def schema_ok_def list_all_iff)
    then show "alert_evolves a (auto_resolved t a) \<and> lifecycle_ok (auto_resolved t a) \<and>
        set_option (al_AcknowledgedBy (auto_resolved t a)) \<subseteq> set (users db) \<and>
        set_option (al_ResolvedBy (auto_resolved t a)) \<subseteq> set (users db)"
      by (simp add: alert_evolves_auto_resolved lifecycle_auto_resolved)
        (simp add: auto_resolved_def alert_row_ok_def)
  qed
  show "active_count i db' \<le> active_count i db"
    unfolding db' by (rule active_count_update) simp
qed

lemma stmt_insert_alert_evolves:
  "stmt_insert_alert E ruleID deviceID val sev t db = Inr (x, db') \<Longrightarrow> db_evolves db db'"
  by (auto simp: stmt_insert_alert_Inr intro: db_evolves_append)

lemma stmt_insert_alert_ok:
  assumes E: "pgenv_ok E" and db: "db_ok E db"
    and ins: "stmt_insert_alert E ruleID deviceID val sev t db = Inr (x, db')"
    and dev: "\<And>row r. uuid_parse E ruleID = Some r \<Longrightarrow> row \<in> set (alert_rules db) \<Longrightarrow> ar_ID row = r \<Longrightarrow>
      uuid_parse E deviceID = Some (ar_DeviceID row)"
  shows "db_ok E db'"
proof -
  let ?i = "gen_random_uuid E (uuids_drawn db)"
  from ins obtain r d where r: "uuid_parse E ruleID = Some r" and d: "uuid_parse E deviceID = Some d"
    and sev: "sev \<in> set severities" and fresh: "?i \<notin> al_ID ` set (alerts db)"
    and fk: "r \<in> ar_ID ` set (alert_rules db)" "d \<in> dev_ID ` set (devices db)"
    and db': "db' = db\<lparr>alerts := alerts db @ [new_alert ?i r d val sev t], uuids_drawn := Suc (uuids_drawn db)\<rparr>"
    by (auto simp: stmt_insert_alert_Inr)
  let ?a = "new_alert ?i r d val sev t"
  have "alert_row_ok db ?a" "lifecycle_ok ?a"
    using sev fk by (simp_all add: alert_row_ok_def new_alert_def statuses_def lifecycle_ok_def)
  moreover have "alert_row_ok db' = alert_row_ok db" by (rule alert_row_ok_cong) (simp_all add: db')
  moreover have "rule_row_ok db' = rule_row_ok db" by (rule rule_row_ok_cong) (simp add: db')
  moreover have "alert_devices_ok db'"
    using db dev [OF r] d by (auto simp: db' db_ok_def alert_devices_ok_def new_alert_def)
  moreover have "uuid_parse E ?i = Some ?i" by (rule uuid_parse_gen [OF E])
  moreover have "map al_ID (alerts db') = map al_ID (alerts db) @ [?i]" by (simp add: db' new_alert_def)
  moreover have "sites db' = sites db" "devices db' = devices db" "alert_rules db' = alert_rules db"
    "users db' = users db" "alerts db' = alerts db @ [?a]" by (simp_all add: db')
  ultimately show ?thesis
    using db fresh unfolding db_ok_def schema_ok_def all_ids_def by (simp del: map_append)
qed

lemma stmt_last_seen_ok:
  assumes "stmt_last_seen E deviceID t db = Inr (x, db')"
  shows "db_evolves db db'" "db_ok E db \<Longrightarrow> db_ok E db'" "active_count i db' = active_count i db"
    "alert_rules db' = alert_rules db" "alerts db' = alerts db" "uuids_drawn db' = uuids_drawn db"
proof -
  from assms obtain u where db': "db' = db\<lparr>devices := map (\<lambda>d. if dev_ID d = u
      then d\<lparr>dev_LastSeenAt := Some (timestamptz t)\<rparr> else d) (devices db)\<rparr>"
    by (auto simp: stmt_last_seen_def split: option.splits)
  show "alert_rules db' = alert_rules db" "alerts db' = alerts db" "uuids_drawn db' = uuids_drawn db"
    by (simp_all add: db')
  then show "db_evolves db db'" "active_count i db' = active_count i db"
    by (simp_all add: db_evolves_same_alerts active_count_def)
  have ids: "map dev_ID (devices db') = map dev_ID (devices db)" by (simp add: db')
  then have set_ids: "dev_ID ` set (devices db') = dev_ID ` set (devices db)" by (metis list.set_map)
  then have "rule_row_ok db' = rule_row_ok db" "alert_row_ok db' = alert_row_ok db"
    by (intro ext; simp add: rule_row_ok_def alert_row_ok_def db')+
  moreover have "list_all (device_row_ok (sites db')) (devices db')"
    if "list_all (device_row_ok (sites db)) (devices db)"
    using that by (auto simp: db' list_all_iff device_row_ok_def)
  moreover have "all_ids db' = all_ids db" unfolding all_ids_def ids by (simp add: db')
  ultimately show "db_ok E db'" if "db_ok E db"
    using that ids unfolding db_ok_def schema_ok_def
    by (simp add: alert_devices_ok_def) (simp add: db')
qed

end
