(* ===== verification/Api_Devices.thy ===== *)
theory Api_Devices
  imports Api_Alerts Ingest_Store
begin

text \<open>
  \<open>api/sites.go\<close> and \<open>api/devices.go\<close>: listing sites and devices, reading one device, and the
  telemetry of a device, the one read path that goes to MongoDB.
\<close>

subsection \<open>Sites and devices\<close>

text \<open>\<open>SELECT id, name, type, COALESCE(location, '') FROM sites ORDER BY name\<close>\<close>

definition site_of_row :: "SiteRow \<Rightarrow> Site" where
  "site_of_row s = \<lparr>site_ID = sr_id s, site_Name = sr_name s, site_Type = sr_type s,
     site_Location = (case sr_location s of None \<Rightarrow> [] | Some l \<Rightarrow> l)\<rparr>"

definition query_sites :: "pgenv \<Rightarrow> pgdb \<Rightarrow> pgerr + Site list" where
  "query_sites E db = Inr (map site_of_row (sort_key (\<lambda>s. collation_key E (sr_name s)) (in_scan_order E (sites db))))"

definition listSites :: "pgenv \<Rightarrow> handler" where
  "listSites E r wa =
     list_response r ''query sites'' ''scan site'' ''failed to list sites'' VSites (query_sites E) wa"

definition query_devices :: "pgenv \<Rightarrow> string \<Rightarrow> pgdb \<Rightarrow> pgerr + Device list" where
  "query_devices E siteID db =
     (if siteID \<noteq> [] then
        (case uuid_parse E siteID of
           None \<Rightarrow> Inl invalid_uuid
         | Some u \<Rightarrow> Inr (sort_key (\<lambda>d. collation_key E (dev_Name d))
             (filter (\<lambda>d. dev_SiteID d = u) (in_scan_order E (devices db)))))
      else Inr (sort_key (\<lambda>d. collation_key E (dev_Name d)) (in_scan_order E (devices db))))"

definition listDevices :: "pgenv \<Rightarrow> handler" where
  "listDevices E r wa =
     list_response r ''query devices'' ''scan device'' ''failed to list devices'' VDevices
       (query_devices E (query_Get r ''site_id'')) wa"

definition stmt_get_device :: "pgenv \<Rightarrow> string \<Rightarrow> pgdb \<Rightarrow> pgerr + Device \<times> pgdb" where
  "stmt_get_device E i db =
     (case uuid_parse E i of
        None \<Rightarrow> Inl invalid_uuid
      | Some u \<Rightarrow> (case filter (\<lambda>d. dev_ID d = u) (devices db) of [] \<Rightarrow> Inl ErrNoRows | d # _ \<Rightarrow> Inr (d, db)))"

definition getDevice :: "pgenv \<Rightarrow> handler" where
  "getDevice E r wa =
     (case wa of (w, a) \<Rightarrow>
       (case app_stmt (stmt_get_device E (path_value r ''id'')) a of
          (Inl e, a1) \<Rightarrow> writeError 404 ''device not found'' (w, a1)
        | (Inr d, a1) \<Rightarrow> writeJSON 200 (Some (VDevice d)) (w, a1)))"

subsection \<open>Telemetry\<close>

definition parseTimeParam :: "codec \<Rightarrow> request \<Rightarrow> string \<Rightarrow> time option" where
  "parseTimeParam cd r key =
     (let raw = query_Get r key in
      if raw = [] then None
      else (case parse_RFC3339 cd raw of None \<Rightarrow> None | Some t \<Rightarrow> Some t))"

definition telemetry_limit :: "request \<Rightarrow> int" where
  "telemetry_limit r =
     (let raw = query_Get r ''limit'' in
      if raw \<noteq> [] then
        (case ParseInt raw 64 of
           Inr n \<Rightarrow> if n > 0 \<and> n \<le> 1000 then n else 100
         | Inl _ \<Rightarrow> 100)
      else 100)"

text \<open>The filter document: equality on the device id, \<open>$gte\<close> and \<open>$lte\<close> on the timestamp.\<close>

record ts_filter =
  flt_device_id :: string
  flt_gte :: "time option"
  flt_lte :: "time option"

definition telemetry_filter :: "codec \<Rightarrow> request \<Rightarrow> ts_filter" where
  "telemetry_filter cd r =
     \<lparr>flt_device_id = path_value r ''id'', flt_gte = parseTimeParam cd r ''from'', flt_lte = parseTimeParam cd r ''to''\<rparr>"

definition doc_matches :: "ts_filter \<Rightarrow> TelemetryDoc \<Rightarrow> bool" where
  "doc_matches f d \<longleftrightarrow> td_device_id d = flt_device_id f \<and>
     (case flt_gte f of None \<Rightarrow> True | Some t \<Rightarrow> bson_date t \<le> td_ts d) \<and>
     (case flt_lte f of None \<Rightarrow> True | Some t \<Rightarrow> td_ts d \<le> bson_date t)"

text \<open>\<open>Find\<close> with a descending sort on \<open>ts\<close> and a limit; the order of documents with equal
  timestamps is the store's.\<close>

definition find_telemetry :: "pgenv \<Rightarrow> ts_filter \<Rightarrow> int \<Rightarrow> TelemetryDoc list \<Rightarrow> TelemetryDoc list" where
  "find_telemetry E f limit docs =
     take (nat limit) (sort_key (\<lambda>d. - td_ts d) (filter (doc_matches f) (in_scan_order E docs)))"

definition run_find :: "(TelemetryDoc list \<Rightarrow> TelemetryDoc list) \<Rightarrow> App \<Rightarrow> (pgerr + TelemetryDoc rows) \<times> App" where
  "run_find q a = (case run_query (\<lambda>_. Inr (q (w_telemetry (app_world a)))) (app_world a) of (r, w) \<Rightarrow> (r, a\<lparr>app_world := w\<rparr>))"

definition point_of_doc :: "TelemetryDoc \<Rightarrow> TelemetryPoint" where
  "point_of_doc d = \<lparr>tp_DeviceID = td_device_id d, tp_Readings = td_readings d, tp_Ts = td_ts d, tp_ReceivedAt = td_received_at d\<rparr>"

text \<open>The in-place reversal: \<open>for i, j := 0, len(points)-1; i < j; i, j = i+1, j-1\<close>.\<close>

function swap_loop :: "int \<Rightarrow> int \<Rightarrow> 'a list \<Rightarrow> 'a list" where
  "swap_loop i j points =
     (if i < j then swap_loop (i + 1) (j - 1) (points[nat i := points ! nat j, nat j := points ! nat i]) else points)"
  by pat_completeness auto
termination
  by (relation "measure (\<lambda>(i, j, points). nat (j - i))") auto

declare swap_loop.simps [simp del]

text \<open>The deferred \<open>cursor.Close\<close>: a call of its own, whose failure is a line of the log.\<close>

definition close_cursor :: "request \<Rightarrow> rwriter \<times> App \<Rightarrow> rwriter \<times> App" where
  "close_cursor r wa =
     (case wa of (w, a) \<Rightarrow>
       (case next_fault (app_world a) of
          (Ok, wd) \<Rightarrow> (w, a\<lparr>app_world := wd\<rparr>)
        | (_, wd) \<Rightarrow> (w, app_Log r ''close telemetry_raw cursor'' (a\<lparr>app_world := wd\<rparr>))))"

definition getDeviceTelemetry :: "codec \<Rightarrow> pgenv \<Rightarrow> handler" where
  "getDeviceTelemetry cd E r wa =
     (case wa of (w, a) \<Rightarrow>
       (case run_find (find_telemetry E (telemetry_filter cd r) (telemetry_limit r)) a of
          (Inl e, a1) \<Rightarrow> writeError 500 ''failed to query telemetry'' (w, app_Log r ''query telemetry_raw'' a1)
        | (Inr cursor, a1) \<Rightarrow>
            close_cursor r
              (case scan_rows cursor of
                 Inl e \<Rightarrow> writeError 500 ''failed to query telemetry'' (w, app_Log r ''decode telemetry_raw'' a1)
               | Inr docs \<Rightarrow>
                   let points = map point_of_doc docs;
                       points' = swap_loop 0 (int (length points) - 1) points
                   in writeJSON 200 (Some (VPoints points')) (w, a1))))"

subsection \<open>Lemmas: the reversal\<close>

lemma length_swap_loop [simp]: "length (swap_loop i j xs) = length xs"
proof (induction i j xs rule: swap_loop.induct)
  case (1 i j xs)
  then show ?case by (subst swap_loop.simps) simp
qed

lemma nth_swap:
  "i < length xs \<Longrightarrow> j < length xs \<Longrightarrow> m < length xs \<Longrightarrow>
   xs[i := xs ! j, j := xs ! i] ! m = (if m = i then xs ! j else if m = j then xs ! i else xs ! m)"
  by (simp add: nth_list_update)

text \<open>The loop exchanges mirrored positions inside the window and leaves the rest alone.\<close>

lemma swap_loop_nth:
  "0 \<le> i \<Longrightarrow> j < int (length xs) \<Longrightarrow> k < length xs \<Longrightarrow>
   swap_loop i j xs ! k = (if i \<le> int k \<and> int k \<le> j then xs ! nat (i + j - int k) else xs ! k)"
proof (induction i j xs rule: swap_loop.induct)
  case (1 i j xs)
  have i0: "0 \<le> i" and kl: "k < length xs" using "1.prems" by auto
  show ?case
  proof (cases "i < j")
    case True
    let ?ys = "xs[nat i := xs ! nat j, nat j := xs ! nat i]"
    have len: "nat i < length xs" "nat j < length xs" using True 1 by auto
    note ys = nth_swap [OF len]
    have step: "swap_loop i j xs ! k = (if i + 1 \<le> int k \<and> int k \<le> j - 1 then ?ys ! nat (i + j - int k) else ?ys ! k)"
      using 1 True by (simp add: swap_loop.simps [of i j])
    consider "i < int k" "int k < j" | "k = nat i" | "k = nat j" | "k \<noteq> nat i" "k \<noteq> nat j" "\<not> (i < int k \<and> int k < j)"
      by blast
    then show ?thesis
    proof cases
      case inner: 1
      then have m: "nat (i + j - int k) < length xs" "nat (i + j - int k) \<noteq> nat i" "nat (i + j - int k) \<noteq> nat j"
        using 1 by (auto simp: nat_eq_iff)
      with inner step ys [OF m(1)] show ?thesis by simp
    qed (use step ys [OF kl] i0 kl True len in auto)
  next
    case False
    then have "swap_loop i j xs ! k = xs ! k" by (simp add: swap_loop.simps [of i j])
    moreover have "nat (i + j - int k) = k" if "i \<le> int k" "int k \<le> j" using that False by auto
    ultimately show ?thesis by auto
  qed
qed

lemma swap_loop_rev: "swap_loop 0 (int (length xs) - 1) xs = rev xs"
proof (rule nth_equalityI)
  fix k assume "k < length (swap_loop 0 (int (length xs) - 1) xs)"
  then have k: "k < length xs" by simp
  then have "swap_loop 0 (int (length xs) - 1) xs ! k = xs ! nat (int (length xs) - 1 - int k)"
    using swap_loop_nth [of 0 "int (length xs) - 1" xs k] by auto
  also have "nat (int (length xs) - 1 - int k) = length xs - Suc k" using k by auto
  finally show "swap_loop 0 (int (length xs) - 1) xs ! k = rev xs ! k" using k by (simp add: rev_nth)
qed simp

subsection \<open>The handlers meet the contract\<close>

interpretation list_sites: api_handler E "{200, 500}" "listSites E" for E
  using list_response_handler [of E "\<lambda>_. ''query sites''" "\<lambda>_. ''scan site''" "\<lambda>_. ''failed to list sites''" "\<lambda>_. VSites"
      "\<lambda>_. query_sites E"]
  by (simp add: listSites_def [abs_def])

interpretation list_devices: api_handler E "{200, 500}" "listDevices E" for E
  using list_response_handler [of E "\<lambda>_. ''query devices''" "\<lambda>_. ''scan device''" "\<lambda>_. ''failed to list devices''" "\<lambda>_. VDevices"
      "\<lambda>r. query_devices E (query_Get r ''site_id'')"]
  by (simp add: listDevices_def [abs_def])

lemma get_device_safe: "safe_stmt E (stmt_get_device E i)"
  by (auto simp: safe_stmt_def stmt_get_device_def split: option.splits list.splits)

interpretation get_device: api_handler E "{200, 404}" "getDevice E" for E
proof
  fix r w a
  obtain q a1 where 1: "app_stmt (stmt_get_device E (path_value r ''id'')) a = (q, a1)" by (meson surj_pair)
  show "safe_change E a (snd (getDevice E r (w, a)))"
    using app_stmt_safe [OF get_device_safe 1] by (auto simp: getDevice_def 1 split: sum.split)
  show "answered {200, 404} w (fst (getDevice E r (w, a)))" if "rw_sent w = None"
    using that by (auto simp: getDevice_def 1 split: sum.split)
qed

lemma run_find_safe: "run_find q a = (r, a') \<Longrightarrow> safe_change E a a'"
  by (auto simp: run_find_def safe_change_def split_beta)

lemma close_cursor_writer [simp]: "fst (close_cursor r wa) = fst wa"
  by (auto simp: close_cursor_def split: prod.split fault.split)

lemma close_cursor_safe: "safe_change E a (snd wa) \<Longrightarrow> safe_change E a (snd (close_cursor r wa))"
  by (auto dest!: next_faultD simp: close_cursor_def safe_change_def split: prod.splits fault.splits)

lemma close_cursor_db [simp]: "app_db (snd (close_cursor r wa)) = app_db (snd wa)"
  by (auto dest!: next_faultD simp: close_cursor_def split: prod.splits fault.splits)

lemma close_cursor_logs: "logs_for r a (snd wa) \<Longrightarrow> logs_for r a (snd (close_cursor r wa))"
  by (rule logs_for_trans [of r a "snd wa"])
    (auto simp: close_cursor_def logs_for_def app_Log_def app_logged_def split: prod.splits fault.splits)

lemma close_cursor_no_fault: "w_faults (app_world (snd wa)) = [] \<Longrightarrow> close_cursor r wa = wa"
  by (auto simp: close_cursor_def split: prod.splits)

interpretation device_telemetry: api_handler E "{200, 500}" "getDeviceTelemetry cd E" for cd E
proof
  fix r w a
  obtain q a1 where 1: "run_find (find_telemetry E (telemetry_filter cd r) (telemetry_limit r)) a = (q, a1)" by (meson surj_pair)
  show "safe_change E a (snd (getDeviceTelemetry cd E r (w, a)))"
    using run_find_safe [OF 1, of E] by (auto simp: getDeviceTelemetry_def 1 Let_def intro!: close_cursor_safe split: sum.split)
  show "answered {200, 500} w (fst (getDeviceTelemetry cd E r (w, a)))" if "rw_sent w = None"
    using that by (auto simp: getDeviceTelemetry_def 1 Let_def split: sum.split)
qed

subsection \<open>Properties\<close>

lemma telemetry_limit_bounds: "1 \<le> telemetry_limit r \<and> telemetry_limit r \<le> 1000"
  by (auto simp: telemetry_limit_def Let_def split: sum.split)

text \<open>C33: Telemetry is returned chronologically and latest-first capped: without faults the handler
  answers 200 with the newest documents of the device inside the requested time range, at most the
  requested limit (1 to 1000, 100 by default), in ascending order of their timestamps; documents are
  left out only at the old end. The in-place swap loop is a list reversal.\<close>

theorem telemetry_latest_chronological:
  assumes "pgenv_ok E" and "w_faults (app_world a) = []"
  shows "\<exists>zs. getDeviceTelemetry cd E r (w, a) =
      writeJSON 200 (Some (VPoints (map point_of_doc (drop (length zs - nat (telemetry_limit r)) zs)))) (w, a) \<and>
    mset zs = mset (filter (doc_matches (telemetry_filter cd r)) (w_telemetry (app_world a))) \<and>
    sorted (map td_ts zs) \<and> 1 \<le> telemetry_limit r \<and> telemetry_limit r \<le> 1000"
proof -
  let ?f = "telemetry_filter cd r" and ?n = "nat (telemetry_limit r)"
  let ?ds = "sort_key (\<lambda>d. - td_ts d) (filter (doc_matches ?f) (in_scan_order E (w_telemetry (app_world a))))"
  have docs: "find_telemetry E ?f (telemetry_limit r) (w_telemetry (app_world a)) = take ?n ?ds" by (simp add: find_telemetry_def)
  have "getDeviceTelemetry cd E r (w, a) = writeJSON 200 (Some (VPoints (rev (map point_of_doc (take ?n ?ds))))) (w, a)"
    using assms(2) docs
    by (simp add: getDeviceTelemetry_def run_find_def run_query_no_fault close_cursor_no_fault Let_def swap_loop_rev [symmetric])
  also have "rev (map point_of_doc (take ?n ?ds)) = map point_of_doc (drop (length (rev ?ds) - ?n) (rev ?ds))"
    by (simp only: rev_map rev_take length_rev)
  finally have out: "getDeviceTelemetry cd E r (w, a) =
      writeJSON 200 (Some (VPoints (map point_of_doc (drop (length (rev ?ds) - ?n) (rev ?ds))))) (w, a)" .
  have "sorted (map (\<lambda>d. - td_ts d) ?ds)" by simp
  then have "sorted (map td_ts (rev ?ds))"
    by (simp add: rev_map [symmetric] sorted_wrt_map sorted_wrt_rev)
  moreover have "mset (rev ?ds) = mset (filter (doc_matches ?f) (w_telemetry (app_world a)))"
    by (simp add: mset_in_scan_order [OF assms(1)])
  ultimately show ?thesis using out telemetry_limit_bounds [of r] by blast
qed

definition demo_doc :: "time \<Rightarrow> TelemetryDoc" where
  "demo_doc t = \<lparr>td_device_id = ''d1'', td_site_id = ''s1'', td_device_type = ''temp_sensor'', td_readings = [(''t'', Finite 20)],
     td_ts = t * millisecond, td_received_at = t * millisecond\<rparr>"

definition demo_telemetry_app :: App where
  "demo_telemetry_app = \<lparr>app_world = \<lparr>w_db = demo_db, w_telemetry = [demo_doc 2, demo_doc 3, demo_doc 1], w_faults = [], w_slept = []\<rparr>,
     app_now = 0, app_log = []\<rparr>"

theorem telemetry_latest_chronological_witness:
  "rw_body (fst (getDeviceTelemetry api_codec demo_env ((demo_request ''d1'' [])\<lparr>rq_Query := [(''limit'', [''2''])]\<rparr>)
     (new_writer, demo_telemetry_app))) = [VPoints (map point_of_doc [demo_doc 2, demo_doc 3])]"
proof -
  let ?r = "(demo_request ''d1'' [])\<lparr>rq_Query := [(''limit'', [''2''])]\<rparr>"
  have l: "telemetry_limit ?r = 2" by code_simp
  have f: "filter (doc_matches (telemetry_filter api_codec ?r)) (w_telemetry (app_world demo_telemetry_app)) =
    [demo_doc 2, demo_doc 3, demo_doc 1]" by code_simp
  obtain zs where zs: "getDeviceTelemetry api_codec demo_env ?r (new_writer, demo_telemetry_app) =
      writeJSON 200 (Some (VPoints (map point_of_doc (drop (length zs - 2) zs)))) (new_writer, demo_telemetry_app)"
    "mset zs = mset [demo_doc 2, demo_doc 3, demo_doc 1]" "sorted (map td_ts zs)"
    using telemetry_latest_chronological [OF demo_env_ok, of demo_telemetry_app api_codec ?r new_writer] l f
    by (auto simp: demo_telemetry_app_def)
  have "sort_key td_ts [demo_doc 2, demo_doc 3, demo_doc 1] = zs"
    by (rule sort_key_inj_key_eq) (use zs in \<open>auto simp: demo_doc_def inj_on_def\<close>)
  moreover have "sort_key td_ts [demo_doc 2, demo_doc 3, demo_doc 1] = [demo_doc 1, demo_doc 2, demo_doc 3]" by code_simp
  ultimately have "zs = [demo_doc 1, demo_doc 2, demo_doc 3]" by simp
  with zs(1) show ?thesis by (simp add: writeJSON_fresh point_of_doc_def demo_doc_def) (simp add: new_writer_def)
qed

text \<open>Reading one device: without faults a known device id is answered 200 with that device and any
  other id 404; but a database failure is answered 404 as well, so "device not found" does not mean
  that the device does not exist.\<close>

theorem getDevice_outcome:
  assumes "rw_sent w = None" and "w_faults (app_world a) = fs"
  shows "status_of (fst (getDevice E r (w, a))) =
    (case fs of
       [] \<Rightarrow> if uuid_parse E (path_value r ''id'') \<in> Some ` dev_ID ` set (devices (app_db a)) then 200 else 404
     | Ok # _ \<Rightarrow> if uuid_parse E (path_value r ''id'') \<in> Some ` dev_ID ` set (devices (app_db a)) then 200 else 404
     | _ \<Rightarrow> 404)"
proof -
  have hit: "(case stmt_get_device E i db of Inl _ \<Rightarrow> False | Inr _ \<Rightarrow> True) \<longleftrightarrow>
    uuid_parse E i \<in> Some ` dev_ID ` set (devices db)" for i db
    by (auto simp: stmt_get_device_def filter_empty_conv filter_eq_Cons_iff image_iff split: option.splits list.splits)
  show ?thesis
    using hit [of "path_value r ''id''" "app_db a"] assms(2)
    by (auto simp: getDevice_def app_stmt_def run_stmt_def next_fault_def writeError_def status_of_def writeJSON_fresh [OF assms(1)]
        split: list.splits fault.splits sum.splits)
qed

theorem getDevice_outcome_witness:
  "status_of (fst (getDevice demo_env (demo_request ''d1'' []) (new_writer, demo_app demo_db []))) = 200 \<and>
   status_of (fst (getDevice demo_env (demo_request ''d1'' []) (new_writer, demo_app demo_db [Fail ''down'']))) = 404"
  using getDevice_outcome [of new_writer "demo_app demo_db []" "[]" demo_env "demo_request ''d1'' []"]
    getDevice_outcome [of new_writer "demo_app demo_db [Fail ''down'']" "[Fail ''down'']" demo_env "demo_request ''d1'' []"]
  by (simp add: demo_env_def demo_db_def demo_request_def path_value_def)

end
