(* ===== verification/Rate_Limit.thy ===== *)
theory Rate_Limit
  imports Api_Core
begin

text \<open>
  \<open>api/ratelimit.go\<close>: one token bucket per client address, the eviction of idle clients, and the
  configuration. The bucket itself (\<open>golang.org/x/time/rate\<close>) is the parameter \<open>rate_api\<close>. A call of
  \<open>allow\<close> is one step; the tiny window between leaving the mutex and taking the token, in which an
  eviction of the same client would have to fall, is not modelled.
\<close>

record 'l rate_api =
  NewLimiter :: "float64 \<Rightarrow> int \<Rightarrow> 'l"
  Allow :: "'l \<Rightarrow> time \<Rightarrow> bool \<times> 'l"

record 'l visitor =
  vs_limiter :: 'l
  vs_lastSeen :: time

record 'l ipRateLimiter =
  rl_visitors :: "string \<Rightarrow> 'l visitor option"
  rl_rps :: float64
  rl_burst :: int

definition newIPRateLimiter :: "float64 \<Rightarrow> int \<Rightarrow> 'l ipRateLimiter" where
  "newIPRateLimiter rps burst = \<lparr>rl_visitors = Map.empty, rl_rps = rps, rl_burst = burst\<rparr>"

definition zero_lastSeen :: time where
  "zero_lastSeen = - 62135596800 * second"

definition allow :: "'l rate_api \<Rightarrow> time \<Rightarrow> string \<Rightarrow> 'l ipRateLimiter \<Rightarrow> bool \<times> 'l ipRateLimiter" where
  "allow ra now ip l =
     (let v = (case rl_visitors l ip of
                 None \<Rightarrow> \<lparr>vs_limiter = NewLimiter ra (rl_rps l) (rl_burst l), vs_lastSeen = zero_lastSeen\<rparr>
               | Some v \<Rightarrow> v);
          v = v\<lparr>vs_lastSeen := now\<rparr>;
          (ok, lim) = Allow ra (vs_limiter v) now
      in (ok, l\<lparr>rl_visitors := (rl_visitors l)(ip \<mapsto> v\<lparr>vs_limiter := lim\<rparr>)\<rparr>))"

text \<open>One tick of \<open>cleanupLoop\<close>: delete every visitor idle for longer than \<open>maxIdle\<close>.\<close>

definition cleanup_tick :: "duration \<Rightarrow> time \<Rightarrow> 'l ipRateLimiter \<Rightarrow> 'l ipRateLimiter" where
  "cleanup_tick maxIdle now l =
     l\<lparr>rl_visitors := (\<lambda>ip. case rl_visitors l ip of None \<Rightarrow> None
        | Some v \<Rightarrow> if time_Sub now (vs_lastSeen v) > maxIdle then None else Some v)\<rparr>"

definition cleanupLoop :: "duration \<Rightarrow> time list \<Rightarrow> 'l ipRateLimiter \<Rightarrow> 'l ipRateLimiter" where
  "cleanupLoop maxIdle ticks l = fold (cleanup_tick maxIdle) ticks l"

definition clientIP :: "request \<Rightarrow> string" where
  "clientIP r = (case SplitHostPort (rq_RemoteAddr r) of Inl _ \<Rightarrow> rq_RemoteAddr r | Inr (host, _) \<Rightarrow> host)"

definition rateLimitFromEnv :: "codec \<Rightarrow> env \<Rightarrow> 'l ipRateLimiter" where
  "rateLimitFromEnv cd getenv =
     (let rps = (let raw = getenv ''RATE_LIMIT_RPS'' in
            if raw \<noteq> [] then (case ParseFloat cd raw of Some n \<Rightarrow> if n > Finite 0 then n else Finite 20 | None \<Rightarrow> Finite 20)
            else Finite 20);
          burst = (let raw = getenv ''RATE_LIMIT_BURST'' in
            if raw \<noteq> [] then (case Atoi raw of Inr n \<Rightarrow> if n > 0 then n else 40 | Inl _ \<Rightarrow> 40)
            else 40)
      in newIPRateLimiter rps burst)"

subsection \<open>Traces\<close>

text \<open>What happens to a limiter over time: requests of clients and ticks of the cleanup.\<close>

datatype rl_event = Request time string | Tick time

fun event_time :: "rl_event \<Rightarrow> time" where
  "event_time (Request t ip) = t"
| "event_time (Tick t) = t"

fun rl_run :: "'l rate_api \<Rightarrow> duration \<Rightarrow> rl_event list \<Rightarrow> 'l ipRateLimiter \<Rightarrow> (string \<times> bool) list" where
  "rl_run ra maxIdle [] l = []"
| "rl_run ra maxIdle (Request t ip # evs) l =
     (case allow ra t ip l of (ok, l') \<Rightarrow> (ip, ok) # rl_run ra maxIdle evs l')"
| "rl_run ra maxIdle (Tick t # evs) l = rl_run ra maxIdle evs (cleanup_tick maxIdle t l)"

text \<open>The events that concern one client: its own requests and the ticks.\<close>

fun concerns :: "string \<Rightarrow> rl_event \<Rightarrow> bool" where
  "concerns ip (Request t ip') = (ip' = ip)"
| "concerns ip (Tick t) = True"

subsection \<open>Lemmas\<close>

lemma allow_other: "ip' \<noteq> ip \<Longrightarrow> rl_visitors (snd (allow ra t ip' l)) ip = rl_visitors l ip"
  by (simp add: allow_def Let_def split_beta)

lemma allow_same:
  "rl_visitors l ip = rl_visitors l' ip \<Longrightarrow> rl_rps l = rl_rps l' \<Longrightarrow> rl_burst l = rl_burst l' \<Longrightarrow>
   fst (allow ra t ip l) = fst (allow ra t ip l') \<and>
   rl_visitors (snd (allow ra t ip l)) ip = rl_visitors (snd (allow ra t ip l')) ip"
  by (simp add: allow_def Let_def split_beta split: option.split)

lemma allow_config [simp]: "rl_rps (snd (allow ra t ip l)) = rl_rps l" "rl_burst (snd (allow ra t ip l)) = rl_burst l"
  by (simp_all add: allow_def Let_def split_beta)

lemma cleanup_config [simp]: "rl_rps (cleanup_tick m t l) = rl_rps l" "rl_burst (cleanup_tick m t l) = rl_burst l"
  by (simp_all add: cleanup_tick_def)

lemma rl_run_local:
  "rl_visitors l ip = rl_visitors l' ip \<Longrightarrow> rl_rps l = rl_rps l' \<Longrightarrow> rl_burst l = rl_burst l' \<Longrightarrow>
   filter (\<lambda>p. fst p = ip) (rl_run ra m evs l) = filter (\<lambda>p. fst p = ip) (rl_run ra m (filter (concerns ip) evs) l')"
proof (induction evs arbitrary: l l')
  case (Cons ev evs)
  show ?case
  proof (cases ev)
    case (Request t ip')
    show ?thesis
    proof (cases "ip' = ip")
      case True
      with Cons.IH [of "snd (allow ra t ip l)" "snd (allow ra t ip l')"] allow_same [OF Cons.prems, of ra t] Cons.prems Request
      show ?thesis by (simp add: split_beta)
    next
      case False
      with Cons.IH [of "snd (allow ra t ip' l)" l'] allow_other [OF False, of ra t l] Cons.prems Request
      show ?thesis by (simp add: split_beta)
    qed
  next
    case (Tick t)
    with Cons.IH [of "cleanup_tick m t l" "cleanup_tick m t l'"] Cons.prems show ?thesis by (simp add: cleanup_tick_def)
  qed
qed simp

subsection \<open>Properties\<close>

text \<open>C8: Clients are limited independently: over any sequence of requests and cleanups, which requests
  of one address are allowed depends only on the requests of that address (and the cleanups), not on
  what any other client does; no client can exhaust another's budget.\<close>

theorem limiter_per_client:
  "filter (\<lambda>p. fst p = ip) (rl_run ra m evs l) = rl_run ra m (filter (concerns ip) evs) l"
proof -
  have "\<forall>p \<in> set (rl_run ra m (filter (concerns ip) evs) l). fst p = ip" for l
  proof (induction evs arbitrary: l)
    case (Cons ev evs)
    then show ?case by (cases ev) (auto simp: split_beta)
  qed simp
  then have "filter (\<lambda>p. fst p = ip) (rl_run ra m (filter (concerns ip) evs) l) = rl_run ra m (filter (concerns ip) evs) l"
    by (simp add: filter_id_conv)
  with rl_run_local [of l ip l ra m evs] show ?thesis by simp
qed

text \<open>
  What the cleanup relies on of the token bucket: from time \<open>t\<close> on, two buckets related by
  \<open>same t\<close> answer alike, and a bucket that was not used for longer than \<open>idle\<close> is like a new one.
\<close>

definition bucket_laws :: "'l rate_api \<Rightarrow> float64 \<Rightarrow> int \<Rightarrow> duration \<Rightarrow> (time \<Rightarrow> 'l \<Rightarrow> 'l \<Rightarrow> bool) \<Rightarrow> bool" where
  "bucket_laws ra rps burst idle same \<longleftrightarrow>
     (\<forall>t l. same t l l) \<and> (\<forall>t l m. same t l m \<longrightarrow> same t m l) \<and> (\<forall>t l m k. same t l m \<longrightarrow> same t m k \<longrightarrow> same t l k) \<and>
     (\<forall>t u l m. same t l m \<longrightarrow> t \<le> u \<longrightarrow> same u l m) \<and>
     (\<forall>t l m. same t l m \<longrightarrow> fst (Allow ra l t) = fst (Allow ra m t) \<and> same t (snd (Allow ra l t)) (snd (Allow ra m t))) \<and>
     (\<forall>t u l. u - t > idle \<longrightarrow> same u (snd (Allow ra l t)) (NewLimiter ra rps burst))"

text \<open>A bucket as the limiter sees it: the stored one, or a new one for an unknown client.\<close>

definition bucket_of :: "'l rate_api \<Rightarrow> 'l ipRateLimiter \<Rightarrow> string \<Rightarrow> 'l" where
  "bucket_of ra l ip = (case rl_visitors l ip of None \<Rightarrow> NewLimiter ra (rl_rps l) (rl_burst l) | Some v \<Rightarrow> vs_limiter v)"

lemma allow_bucket:
  "fst (allow ra t ip l) = fst (Allow ra (bucket_of ra l ip) t)"
  "bucket_of ra (snd (allow ra t ip l)) ip' =
     (if ip' = ip then snd (Allow ra (bucket_of ra l ip) t) else bucket_of ra l ip')"
  by (simp_all add: allow_def bucket_of_def Let_def split_beta split: option.split)

text \<open>Every stored bucket is the result of a request at its \<open>lastSeen\<close> time.\<close>

definition visitors_used :: "'l rate_api \<Rightarrow> 'l ipRateLimiter \<Rightarrow> bool" where
  "visitors_used ra l \<longleftrightarrow> (\<forall>ip v. rl_visitors l ip = Some v \<longrightarrow> (\<exists>b. vs_limiter v = snd (Allow ra b (vs_lastSeen v))))"

lemma visitors_used_allow: "visitors_used ra l \<Longrightarrow> visitors_used ra (snd (allow ra t ip l))"
  by (auto simp: visitors_used_def allow_def Let_def split_beta)

lemma visitors_used_cleanup: "visitors_used ra l \<Longrightarrow> visitors_used ra (cleanup_tick m t l)"
  by (auto simp: visitors_used_def cleanup_tick_def split: option.splits if_splits)

lemma cleanup_bucket:
  assumes laws: "bucket_laws ra (rl_rps l) (rl_burst l) idle same" and used: "visitors_used ra l"
    and m: "0 \<le> idle" "idle < max_int64"
  shows "same t (bucket_of ra (cleanup_tick idle t l) ip) (bucket_of ra l ip)"
proof (cases "rl_visitors l ip")
  case None
  with laws show ?thesis by (simp add: bucket_of_def cleanup_tick_def bucket_laws_def)
next
  case (Some v)
  show ?thesis
  proof (cases "time_Sub t (vs_lastSeen v) > idle")
    case True
    then have "t - vs_lastSeen v > idle" using m by (simp add: time_Sub_gt_iff)
    moreover obtain b where "vs_limiter v = snd (Allow ra b (vs_lastSeen v))" using used Some unfolding visitors_used_def by blast
    ultimately have "same t (vs_limiter v) (NewLimiter ra (rl_rps l) (rl_burst l))" using laws by (simp add: bucket_laws_def)
    with laws have "same t (NewLimiter ra (rl_rps l) (rl_burst l)) (vs_limiter v)" unfolding bucket_laws_def by blast
    with Some True show ?thesis by (simp add: bucket_of_def cleanup_tick_def)
  next
    case False
    with Some laws show ?thesis by (simp add: bucket_of_def cleanup_tick_def bucket_laws_def)
  qed
qed

abbreviation is_request :: "rl_event \<Rightarrow> bool" where
  "is_request ev \<equiv> (case ev of Request _ _ \<Rightarrow> True | Tick _ \<Rightarrow> False)"

lemma cleanup_invisible_run:
  assumes "bucket_laws ra rps burst idle same" "0 \<le> idle" "idle < max_int64"
    and "rl_rps l = rps" "rl_burst l = burst" "rl_rps l' = rps" "rl_burst l' = burst" "visitors_used ra l"
    and "sorted_wrt (\<le>) (map event_time evs)" "list_all (\<lambda>ev. t0 \<le> event_time ev) evs"
    and "\<And>ip. same t0 (bucket_of ra l ip) (bucket_of ra l' ip)"
  shows "rl_run ra idle evs l = rl_run ra idle (filter is_request evs) l'"
  using assms(4-)
proof (induction evs arbitrary: l l' t0)
  case (Cons ev evs)
  have mono: "same u x y" if "same t x y" "t \<le> u" for t u x y using that assms(1) unfolding bucket_laws_def by blast
  have trans: "same t x z" if "same t x y" "same t y z" for t x y z using that assms(1) unfolding bucket_laws_def by blast
  have tail: "sorted_wrt (\<le>) (map event_time evs)" "list_all (\<lambda>e. event_time ev \<le> event_time e) evs" "t0 \<le> event_time ev"
    using Cons.prems by (auto simp: list_all_iff)
  show ?case
  proof (cases ev)
    case (Request t ip)
    let ?l = "snd (allow ra t ip l)" and ?l' = "snd (allow ra t ip l')"
    have b: "same t (bucket_of ra l ip') (bucket_of ra l' ip')" for ip'
      using mono [OF Cons.prems(8)] tail(3) Request by simp
    have a: "fst (Allow ra (bucket_of ra l ip) t) = fst (Allow ra (bucket_of ra l' ip) t) \<and>
      same t (snd (Allow ra (bucket_of ra l ip) t)) (snd (Allow ra (bucket_of ra l' ip) t))"
      using b [of ip] assms(1) unfolding bucket_laws_def by blast
    have "same t (bucket_of ra ?l ip') (bucket_of ra ?l' ip')" for ip'
      using a b [of ip'] by (simp add: allow_bucket(2))
    then have "rl_run ra idle evs ?l = rl_run ra idle (filter is_request evs) ?l'"
      using Cons.prems tail Request by (intro Cons.IH) (auto intro: visitors_used_allow)
    with a Request show ?thesis by (simp add: split_beta allow_bucket(1))
  next
    case (Tick t)
    have "same t (bucket_of ra (cleanup_tick idle t l) ip) (bucket_of ra l' ip)" for ip
    proof -
      have "same t (bucket_of ra (cleanup_tick idle t l) ip) (bucket_of ra l ip)"
        using cleanup_bucket [of ra l idle same t ip] assms(1-3) Cons.prems(1,2,5) by simp
      moreover have "same t (bucket_of ra l ip) (bucket_of ra l' ip)" using mono [OF Cons.prems(8)] tail(3) Tick by simp
      ultimately show ?thesis by (rule trans)
    qed
    then have "rl_run ra idle evs (cleanup_tick idle t l) = rl_run ra idle (filter is_request evs) l'"
      using Cons.prems tail Tick by (intro Cons.IH) (auto intro: visitors_used_cleanup)
    with Tick show ?thesis by simp
  qed
qed simp

text \<open>Evicting idle clients is invisible: if the bucket has the documented refill behaviour and a
  bucket unused for ten minutes is full again, then over any sequence of requests in the order of
  time the decisions with the cleanup running are exactly those without it.\<close>

theorem cleanup_invisible:
  assumes "bucket_laws ra rps burst (10 * minute) same" and "sorted_wrt (\<le>) (map event_time evs)"
  shows "rl_run ra (10 * minute) evs (newIPRateLimiter rps burst) =
    rl_run ra (10 * minute) (filter is_request evs) (newIPRateLimiter rps burst)"
proof (cases evs)
  case (Cons ev evs')
  have "same t x x" for t x using assms(1) by (simp add: bucket_laws_def)
  moreover have "list_all (\<lambda>e. event_time ev \<le> event_time e) evs"
    using assms(2) Cons by (auto simp: list_all_iff)
  ultimately show ?thesis
    using assms by (intro cleanup_invisible_run [where same = same and ?t0.0 = "event_time ev"])
      (simp_all add: newIPRateLimiter_def visitors_used_def)
qed simp

text \<open>A token bucket in the unit of one billionth of a token: 20 tokens per second, at most 40.\<close>

definition demo_avail :: "int \<times> time \<Rightarrow> time \<Rightarrow> int" where
  "demo_avail b t = max 0 (min (40 * second) (fst b + 20 * max 0 (t - snd b)))"

definition demo_rate :: "(int \<times> time) rate_api" where
  "demo_rate = \<lparr>NewLimiter = (\<lambda>rps burst. (40 * second, 0)),
     Allow = (\<lambda>b t. if second \<le> demo_avail b t then (True, (demo_avail b t - second, t)) else (False, (demo_avail b t, t)))\<rparr>"

definition demo_same :: "time \<Rightarrow> int \<times> time \<Rightarrow> int \<times> time \<Rightarrow> bool" where
  "demo_same t b c \<longleftrightarrow> (\<forall>u \<ge> t. demo_avail b u = demo_avail c u)"

lemma demo_bucket_laws:
  assumes "2 * second \<le> idle"
  shows "bucket_laws demo_rate (Finite 20) 40 idle demo_same"
proof -
  have "demo_same u (snd (Allow demo_rate b t)) (40 * second, 0)" if u: "u - t > idle" for t u b
    unfolding demo_same_def
  proof (intro allI impI)
    fix v :: time assume "u \<le> v"
    with u assms show "demo_avail (snd (Allow demo_rate b t)) v = demo_avail (40 * second, 0) v"
      by (auto simp: demo_rate_def demo_avail_def)
  qed
  moreover have "fst (Allow demo_rate b t) = fst (Allow demo_rate c t) \<and>
      demo_same t (snd (Allow demo_rate b t)) (snd (Allow demo_rate c t))" if "demo_same t b c" for t b c
  proof -
    have "demo_avail b t = demo_avail c t" using that by (simp add: demo_same_def)
    then show ?thesis by (simp add: demo_rate_def demo_same_def)
  qed
  moreover have "NewLimiter demo_rate (Finite 20) 40 = (40 * second, 0)" by (simp add: demo_rate_def)
  moreover have "demo_same u b c" if "demo_same t b c" "t \<le> u" for t u b c
    using that by (simp add: demo_same_def)
  ultimately show ?thesis unfolding bucket_laws_def by (simp add: demo_same_def)
qed

theorem cleanup_invisible_witness:
  "rl_run demo_rate (10 * minute) [Request 1 ''a'', Tick (20 * minute), Request (21 * minute) ''a''] (newIPRateLimiter (Finite 20) 40) =
   rl_run demo_rate (10 * minute) [Request 1 ''a'', Request (21 * minute) ''a''] (newIPRateLimiter (Finite 20) 40)"
  using cleanup_invisible [OF demo_bucket_laws, of "[Request 1 ''a'', Tick (20 * minute), Request (21 * minute) ''a'']"] by simp

text \<open>The visitor map does not grow without bound: after a cleanup tick every remaining visitor made
  a request within the idle time before the tick, and no visitor seen within it was evicted.\<close>

theorem cleanup_evicts_exactly_idle:
  assumes "min_int64 \<le> maxIdle" and "maxIdle < max_int64"
  shows "rl_visitors (cleanup_tick maxIdle now l) ip =
    (case rl_visitors l ip of None \<Rightarrow> None | Some v \<Rightarrow> if now - vs_lastSeen v \<le> maxIdle then Some v else None)"
  using time_Sub_gt_iff [OF assms] by (auto simp: cleanup_tick_def split: option.split)

theorem cleanup_evicts_exactly_idle_witness:
  "rl_visitors (cleanup_tick (10 * minute) (11 * minute) (snd (allow demo_rate 0 ''a'' (newIPRateLimiter (Finite 20) 40)))) ''a'' = None"
  using cleanup_evicts_exactly_idle [of "10 * minute" "11 * minute" "snd (allow demo_rate 0 ''a'' (newIPRateLimiter (Finite 20) 40))" "''a''"]
  by (simp add: allow_def newIPRateLimiter_def Let_def split_beta)

text \<open>A client is identified by its connection's host alone: for an IPv4 or named remote address the
  port and every header (a forged \<open>X-Forwarded-For\<close> in particular) are irrelevant, so reconnecting
  from another port does not renew the budget.\<close>

theorem clientIP_ignores_port_and_headers:
  assumes "rq_RemoteAddr r = h @ CHR '':'' # p" and "h \<noteq> []"
    and "\<forall>c \<in> {CHR '':'', CHR ''['', CHR '']''}. c \<notin> set h \<and> c \<notin> set p"
  shows "clientIP r = h"
  using assms SplitHostPort_ipv4 [OF assms(2,3)] by (simp add: clientIP_def)

theorem clientIP_ignores_port_and_headers_witness:
  "clientIP \<lparr>rq_Method = ''GET'', rq_Path = ''/sites'', rq_Header = [(''X-Forwarded-For'', ''6.6.6.6'')], rq_Query = [],
     rq_PathValue = [], rq_Body = [], rq_RemoteAddr = ''10.0.0.7:5123'', rq_logger = None\<rparr> = ''10.0.0.7''"
  by (rule clientIP_ignores_port_and_headers [where p = "''5123''"]) simp_all

text \<open>The configured limiter is never degenerate: whatever the environment holds, the rate and the
  burst are positive, so some requests are always allowed.\<close>

theorem rate_limit_config_positive:
  "Finite 0 < rl_rps (rateLimitFromEnv cd getenv) \<and> 1 \<le> rl_burst (rateLimitFromEnv cd getenv)"
  by (auto simp: rateLimitFromEnv_def newIPRateLimiter_def Let_def split: option.split sum.split)

end
