(* ===== verification/Api_Http.thy ===== *)
theory Api_Http
  imports Api_Rules Api_Devices Rate_Limit
begin

text \<open>
  The HTTP side of the API: \<open>routes\<close>, \<open>withCORS\<close> and the handler chain of \<open>api/main.go\<close>,
  \<open>instrument\<close> and \<open>withCorrelationID\<close> of \<open>api/metrics.go\<close>, \<open>withRateLimit\<close> of \<open>api/ratelimit.go\<close>.
  The pattern matching of \<open>http.ServeMux\<close> is modelled for clean paths (the mux redirects others).
\<close>

subsection \<open>Server state\<close>

text \<open>\<open>httpRequestsTotal\<close> by method, route and status, and the number of latency observations by
  method and route.\<close>

record 'l server =
  srv_app :: App
  srv_requests :: "string \<times> string \<times> string \<Rightarrow> nat"
  srv_durations :: "string \<times> string \<Rightarrow> nat"
  srv_limiter :: "'l ipRateLimiter"

type_synonym 'l shandler = "request \<Rightarrow> rwriter \<times> 'l server \<Rightarrow> rwriter \<times> 'l server"

definition http_Error :: "int \<Rightarrow> string \<Rightarrow> rwriter \<Rightarrow> rwriter" where
  "http_Error st message w =
     Write (VText (message @ [CHR 0x0A])) (WriteHeader st
       (Header_Set ''X-Content-Type-Options'' ''nosniff'' (Header_Set ''Content-Type'' ''text/plain; charset=utf-8'' w)))"

subsection \<open>Middleware\<close>

text \<open>\<open>instrument\<close> puts a status writer (initially 200) around the writer and counts afterwards.\<close>

definition instrument :: "string \<Rightarrow> handler \<Rightarrow> 'l shandler" where
  "instrument pattern h r ws =
     (case ws of (w, s) \<Rightarrow>
       let (method, path, _) = GoStd.Cut pattern (CHR '' '');
           (w1, a1) = h r (w\<lparr>rw_sw := Some 200\<rparr>, srv_app s);
           status = (case rw_sw w1 of Some st \<Rightarrow> st | None \<Rightarrow> 200);
           label = (method, path, Itoa status)
       in (w1\<lparr>rw_sw := rw_sw w\<rparr>,
           s\<lparr>srv_app := a1, srv_requests := (srv_requests s)(label := srv_requests s label + 1),
             srv_durations := (srv_durations s)((method, path) := srv_durations s (method, path) + 1)\<rparr>))"

definition withCorrelationID :: "rand_source \<Rightarrow> 'l shandler \<Rightarrow> 'l shandler" where
  "withCorrelationID rnd h r ws =
     (case ws of (w, s) \<Rightarrow>
       let hd = header_Get r ''X-Request-ID'';
           i = (if hd = [] then NewCorrelationID rnd else hd)
       in h (r\<lparr>rq_logger := Some i\<rparr>) (Header_Set ''X-Request-ID'' i w, s))"

definition withRateLimit :: "'l rate_api \<Rightarrow> time \<Rightarrow> 'l shandler \<Rightarrow> 'l shandler" where
  "withRateLimit ra now h r ws =
     (case ws of (w, s) \<Rightarrow>
       (case allow ra now (clientIP r) (srv_limiter s) of
          (False, l) \<Rightarrow>
            (http_Error 429 ''rate limit exceeded'' (Header_Set ''Retry-After'' ''1'' w),
             s\<lparr>srv_limiter := l, srv_app := app_Log r ''rate limit exceeded'' (srv_app s)\<rparr>)
        | (True, l) \<Rightarrow> h r (w, s\<lparr>srv_limiter := l\<rparr>)))"

definition cors_allowed :: "env \<Rightarrow> string list" where
  "cors_allowed getenv =
     (let raw = getenv ''CORS_ALLOWED_ORIGINS'';
          raw = (if raw = [] then ''http://localhost:5173,http://127.0.0.1:5173'' else raw)
      in map TrimSpace (Split raw (CHR '','')))"

definition withCORS :: "env \<Rightarrow> 'l shandler \<Rightarrow> 'l shandler" where
  "withCORS getenv h r ws =
     (case ws of (w, s) \<Rightarrow>
       let origin = header_Get r ''Origin'';
           w = (if origin \<in> set (cors_allowed getenv)
                then Header_Set ''Vary'' ''Origin'' (Header_Set ''Access-Control-Allow-Origin'' origin w) else w);
           w = Header_Set ''Access-Control-Allow-Methods'' ''GET, POST, PATCH, DELETE, OPTIONS'' w;
           w = Header_Set ''Access-Control-Allow-Headers'' ''Content-Type'' w
       in if rq_Method r = ''OPTIONS'' then (WriteHeader 204 w, s) else h r (w, s))"

subsection \<open>Routing\<close>

datatype seg = Lit string | Wild string

definition seg_of :: "string \<Rightarrow> seg" where
  "seg_of s = (if s \<noteq> [] \<and> hd s = CHR ''{'' \<and> last s = CHR ''}'' then Wild (butlast (tl s)) else Lit s)"

definition pattern_segs :: "string \<Rightarrow> seg list" where
  "pattern_segs path = map seg_of (tl (Split path (CHR ''/'')))"

fun match_segs :: "seg list \<Rightarrow> string list \<Rightarrow> (string \<times> string) list option" where
  "match_segs [] [] = Some []"
| "match_segs (Lit l # ps) (s # ss) = (if l = s then match_segs ps ss else None)"
| "match_segs (Wild n # ps) (s # ss) = (if s = [] then None else map_option (Cons (n, s)) (match_segs ps ss))"
| "match_segs _ _ = None"

definition match_path :: "string \<Rightarrow> string \<Rightarrow> (string \<times> string) list option" where
  "match_path pattern path =
     (case GoStd.Cut pattern (CHR '' '') of (_, p, _) \<Rightarrow> match_segs (pattern_segs p) (tl (Split path (CHR ''/''))))"

definition match_method :: "string \<Rightarrow> string \<Rightarrow> bool" where
  "match_method pattern method =
     (case GoStd.Cut pattern (CHR '' '') of (m, _, _) \<Rightarrow> m = method \<or> m = ''GET'' \<and> method = ''HEAD'')"

definition healthz :: handler where
  "healthz r wa = writeJSON 200 (Some (VStatus ''ok'')) wa"

definition route_table :: "codec \<Rightarrow> pgenv \<Rightarrow> (string \<times> handler) list" where
  "route_table cd E =
     [(''GET /healthz'', healthz),
      (''GET /sites'', listSites E),
      (''GET /devices'', listDevices E),
      (''GET /devices/{id}'', getDevice E),
      (''GET /devices/{id}/telemetry'', getDeviceTelemetry cd E),
      (''GET /alerts'', listAlerts E),
      (''POST /alerts/{id}/acknowledge'', acknowledgeAlert cd E),
      (''POST /alerts/{id}/resolve'', resolveAlert cd E),
      (''GET /alert-rules'', listAlertRules E),
      (''POST /alert-rules'', createAlertRule cd E),
      (''PATCH /alert-rules/{id}'', updateAlertRule cd E),
      (''DELETE /alert-rules/{id}'', deleteAlertRule E)]"

definition route_for :: "codec \<Rightarrow> pgenv \<Rightarrow> string \<Rightarrow> string \<Rightarrow> (string \<times> handler \<times> (string \<times> string) list) option" where
  "route_for cd E method path =
     (case List.find (\<lambda>(p, h). match_method p method \<and> match_path p path \<noteq> None) (route_table cd E) of
        None \<Rightarrow> None
      | Some (p, h) \<Rightarrow> Some (p, h, the (match_path p path)))"

definition path_known :: "codec \<Rightarrow> pgenv \<Rightarrow> string \<Rightarrow> bool" where
  "path_known cd E path \<longleftrightarrow> list_ex (\<lambda>(p, h). match_path p path \<noteq> None) (route_table cd E)"

text \<open>
  \<open>routes\<close>: the registered handlers, each instrumented under its pattern, beside the uninstrumented
  exposition of the metrics (\<open>metrics\<close>, a parameter; \<open>None\<close> without a registry); an unknown path is
  404 and a known path with another method 405 (its \<open>Allow\<close> header is left out).
\<close>

definition routes :: "codec \<Rightarrow> pgenv \<Rightarrow> (rwriter \<Rightarrow> rwriter) option \<Rightarrow> 'l shandler" where
  "routes cd E metrics r ws =
     (case ws of (w, s) \<Rightarrow>
       if metrics \<noteq> None \<and> rq_Path r = ''/metrics'' \<and> rq_Method r \<in> {''GET'', ''HEAD''} then (the metrics w, s)
       else
         (case route_for cd E (rq_Method r) (rq_Path r) of
            Some (p, h, vals) \<Rightarrow> instrument p h (r\<lparr>rq_PathValue := vals\<rparr>) (w, s)
          | None \<Rightarrow>
              if path_known cd E (rq_Path r) \<or> metrics \<noteq> None \<and> rq_Path r = ''/metrics''
              then (http_Error 405 ''Method Not Allowed'' w, s)
              else (http_Error 404 ''404 page not found'' w, s)))"

text \<open>The handler of \<open>main\<close>.\<close>

definition api_server ::
  "codec \<Rightarrow> pgenv \<Rightarrow> env \<Rightarrow> rand_source \<Rightarrow> 'l rate_api \<Rightarrow> time \<Rightarrow> (rwriter \<Rightarrow> rwriter) option \<Rightarrow> 'l shandler" where
  "api_server cd E getenv rnd ra now metrics =
     withCORS getenv (withCorrelationID rnd (withRateLimit ra now (routes cd E metrics)))"

definition api_port :: "env \<Rightarrow> string" where
  "api_port getenv = (let port = getenv ''API_PORT'' in if port = [] then ''8080'' else port)"

subsection \<open>Lemmas: routing and the contract\<close>

interpretation health: api_handler E "{200}" healthz for E
  by unfold_locales (auto simp: healthz_def safe_change_same_world)

text \<open>The statuses each route answers with.\<close>

definition route_codes :: "(string \<times> int list) list" where
  "route_codes =
     [(''GET /healthz'', [200]),
      (''GET /sites'', [200, 500]),
      (''GET /devices'', [200, 500]),
      (''GET /devices/{id}'', [200, 404]),
      (''GET /devices/{id}/telemetry'', [200, 500]),
      (''GET /alerts'', [200, 500]),
      (''POST /alerts/{id}/acknowledge'', [200, 400, 404, 409, 500]),
      (''POST /alerts/{id}/resolve'', [200, 400, 404, 409, 500]),
      (''GET /alert-rules'', [200, 500]),
      (''POST /alert-rules'', [201, 400]),
      (''PATCH /alert-rules/{id}'', [200, 400, 404]),
      (''DELETE /alert-rules/{id}'', [204, 404, 409, 500])]"

definition codes_of :: "string \<Rightarrow> int set" where
  "codes_of p = (case map_of route_codes p of None \<Rightarrow> {} | Some cs \<Rightarrow> set cs)"

lemma route_table_codes: "list_all (\<lambda>(p, h). api_handler E (codes_of p) h) (route_table cd E)"
  by (simp add: route_table_def codes_of_def route_codes_def)
    (intro conjI health.api_handler_axioms list_sites.api_handler_axioms list_devices.api_handler_axioms
      get_device.api_handler_axioms device_telemetry.api_handler_axioms list_alerts.api_handler_axioms
      acknowledge.api_handler_axioms resolve.api_handler_axioms list_rules.api_handler_axioms
      create_rule.api_handler_axioms update_rule.api_handler_axioms delete_rule.api_handler_axioms)

lemma route_for_handler:
  "route_for cd E method path = Some (p, h, vals) \<Longrightarrow> (p, h) \<in> set (route_table cd E) \<and> api_handler E (codes_of p) h"
proof -
  assume "route_for cd E method path = Some (p, h, vals)"
  then have "List.find (\<lambda>(p, h). match_method p method \<and> match_path p path \<noteq> None) (route_table cd E) = Some (p, h)"
    by (simp add: route_for_def split: option.splits prod.splits)
  then have "(p, h) \<in> set (route_table cd E)" by (blast dest: find_in_set)
  with route_table_codes [of E cd] show ?thesis unfolding list_all_iff by blast
qed

text \<open>What instrumenting a handler that meets the contract does.\<close>

lemma instrument_contract:
  assumes h: "api_handler E codes h" and w: "rw_sent w = None" and p: "GoStd.Cut pattern (CHR '' '') = (m, path, found)"
  shows "\<exists>st w1 a1. instrument pattern h r (w, s) = (w1,
      s\<lparr>srv_app := a1, srv_requests := (srv_requests s)((m, path, Itoa st) := srv_requests s (m, path, Itoa st) + 1),
        srv_durations := (srv_durations s)((m, path) := srv_durations s (m, path) + 1)\<rparr>) \<and>
    st \<in> codes \<and> rw_sent w1 = Some (st, AList.update ''Content-Type'' ''application/json'' (rw_header w)) \<and>
    safe_change E (srv_app s) a1"
proof -
  let ?w = "w\<lparr>rw_sw := Some 200\<rparr>"
  obtain w1 a1 where o: "h r (?w, srv_app s) = (w1, a1)" by force
  have "rw_sent ?w = None" using w by simp
  then have "answered codes ?w (fst (h r (?w, srv_app s)))" by (rule api_handler.answers [OF h])
  then obtain st where st: "rw_sent w1 = Some (st, AList.update ''Content-Type'' ''application/json'' (rw_header w))" "st \<in> codes"
    "rw_sw w1 = Some st" by (auto simp: answered_def o)
  have "safe_change E (srv_app s) a1" using api_handler.safe [OF h, of "srv_app s" r ?w] o by simp
  with o st p show ?thesis
    by (intro exI [of _ st] exI [of _ "w1\<lparr>rw_sw := rw_sw w\<rparr>"] exI [of _ a1]) (simp add: instrument_def Let_def)
qed

subsection \<open>Lemmas: headers\<close>

lemma canonical_keys [simp]:
  "CanonicalHeaderKey ''X-Request-ID'' = ''X-Request-Id''" "CanonicalHeaderKey ''Retry-After'' = ''Retry-After''"
  "CanonicalHeaderKey ''Content-Type'' = ''Content-Type''" "CanonicalHeaderKey ''Vary'' = ''Vary''"
  "CanonicalHeaderKey ''X-Content-Type-Options'' = ''X-Content-Type-Options''"
  "CanonicalHeaderKey ''Access-Control-Allow-Origin'' = ''Access-Control-Allow-Origin''"
  "CanonicalHeaderKey ''Access-Control-Allow-Methods'' = ''Access-Control-Allow-Methods''"
  "CanonicalHeaderKey ''Access-Control-Allow-Headers'' = ''Access-Control-Allow-Headers''"
  by code_simp+

lemma http_Error_sent:
  "rw_sent w = None \<Longrightarrow> rw_sent (http_Error st m w) = Some (st,
     AList.update ''X-Content-Type-Options'' ''nosniff'' (AList.update ''Content-Type'' ''text/plain; charset=utf-8'' (rw_header w)))"
  by (simp add: http_Error_def http_simps)

lemma headers_of_WriteHeader: "rw_sent w = None \<Longrightarrow> headers_of (WriteHeader st w) = rw_header w"
  by (simp add: headers_of_def http_simps)

definition tracked :: "string list" where
  "tracked = [''X-Request-Id'', ''Access-Control-Allow-Origin'', ''Access-Control-Allow-Methods'', ''Access-Control-Allow-Headers'']"

text \<open>The exposition handler of the Prometheus client sets content headers only.\<close>

definition metrics_ok :: "(rwriter \<Rightarrow> rwriter) option \<Rightarrow> bool" where
  "metrics_ok metrics \<longleftrightarrow> (\<forall>m w k. metrics = Some m \<longrightarrow> rw_sent w = None \<longrightarrow> k \<in> set tracked \<longrightarrow>
     map_of (headers_of (m w)) k = map_of (rw_header w) k)"

lemma routes_headers:
  assumes "rw_sent w = None" "metrics_ok metrics" "k \<in> set tracked"
  shows "map_of (headers_of (fst (routes cd E metrics r (w, s)))) k = map_of (rw_header w) k"
proof -
  have k: "k \<noteq> ''Content-Type''" "k \<noteq> ''X-Content-Type-Options''" using assms(3) by (auto simp: tracked_def)
  have err: "map_of (headers_of (http_Error st m w)) k = map_of (rw_header w) k" for st m
    using k by (simp add: headers_of_def http_Error_sent [OF assms(1)] update_conv')
  have ins: "map_of (headers_of (fst (instrument p h r' (w, s)))) k = map_of (rw_header w) k" if "api_handler E codes h" for p h r' codes
  proof -
    obtain m path found where "GoStd.Cut p (CHR '' '') = (m, path, found)" by (metis prod_cases3)
    from instrument_contract [OF that assms(1) this, of r' s] k show ?thesis by (auto simp: headers_of_def update_conv')
  qed
  show ?thesis
    using assms err ins
    by (auto simp: routes_def metrics_ok_def dest!: route_for_handler split: option.split)
qed

definition request_id :: "rand_source \<Rightarrow> request \<Rightarrow> string" where
  "request_id rnd r = (if header_Get r ''X-Request-ID'' = [] then NewCorrelationID rnd else header_Get r ''X-Request-ID'')"

text \<open>The headers \<open>withCORS\<close> sets before anything else runs.\<close>

definition cors_headers :: "env \<Rightarrow> request \<Rightarrow> rwriter \<Rightarrow> rwriter" where
  "cors_headers getenv r w =
     Header_Set ''Access-Control-Allow-Headers'' ''Content-Type''
       (Header_Set ''Access-Control-Allow-Methods'' ''GET, POST, PATCH, DELETE, OPTIONS''
         (if header_Get r ''Origin'' \<in> set (cors_allowed getenv)
          then Header_Set ''Vary'' ''Origin'' (Header_Set ''Access-Control-Allow-Origin'' (header_Get r ''Origin'') w) else w))"

lemma clientIP_logger [simp]: "clientIP (r\<lparr>rq_logger := i\<rparr>) = clientIP r"
  by (cases "SplitHostPort (rq_RemoteAddr r)") (simp_all add: clientIP_def)

lemma api_server_chain:
  "api_server cd E getenv rnd ra now metrics r (w, s) =
     (if rq_Method r = ''OPTIONS'' then (WriteHeader 204 (cors_headers getenv r w), s)
      else withRateLimit ra now (routes cd E metrics) (r\<lparr>rq_logger := Some (request_id rnd r)\<rparr>)
        (Header_Set ''X-Request-ID'' (request_id rnd r) (cors_headers getenv r w), s))"
  by (simp add: api_server_def withCORS_def withCorrelationID_def cors_headers_def request_id_def Let_def)

lemma cors_headers_sel [simp]: "rw_sent (cors_headers getenv r w) = rw_sent w" "rw_body (cors_headers getenv r w) = rw_body w"
  by (simp_all add: cors_headers_def http_simps)

lemma cors_headers_set:
  "map_of (rw_header (cors_headers getenv r new_writer)) ''Access-Control-Allow-Origin'' =
     (if header_Get r ''Origin'' \<in> set (cors_allowed getenv) then Some (header_Get r ''Origin'') else None)"
  "map_of (rw_header (cors_headers getenv r new_writer)) ''Access-Control-Allow-Methods'' = Some ''GET, POST, PATCH, DELETE, OPTIONS''"
  "map_of (rw_header (cors_headers getenv r new_writer)) ''Access-Control-Allow-Headers'' = Some ''Content-Type''"
  "map_of (rw_header (cors_headers getenv r new_writer)) ''X-Request-Id'' = None"
  by (simp_all add: cors_headers_def http_simps update_conv' new_writer_def)

lemma rate_limited_headers:
  assumes "rw_sent w = None" "metrics_ok metrics" "k \<in> set tracked"
  shows "map_of (headers_of (fst (withRateLimit ra now (routes cd E metrics) r (w, s)))) k = map_of (rw_header w) k"
proof -
  have k: "k \<noteq> ''Content-Type''" "k \<noteq> ''X-Content-Type-Options''" "k \<noteq> ''Retry-After''" using assms(3) by (auto simp: tracked_def)
  have sent: "rw_sent (Header_Set ''Retry-After'' ''1'' w) = None" using assms(1) by (simp add: http_simps)
  show ?thesis
    using k routes_headers [OF assms, of cd E r]
    by (auto simp: withRateLimit_def headers_of_def http_Error_sent [OF sent] http_simps update_conv' split: prod.split bool.split)
qed

subsection \<open>Lemmas: the log of a request\<close>

lemma transitionAlert_logs: "logs_for r a (snd (transitionAlert cd E spec r (w, a)))"
proof -
  obtain q a1 where 1: "app_stmt (ts_query spec E (app_now a) (path_value r ''id'') user) a = (q user, a1 user)" for user
    by (meson surj_pair)
  obtain ex a2 where 2: "app_stmt (stmt_exists E (path_value r ''id'')) (a1 user) = (ex user, a2 user)" for user
    by (meson surj_pair)
  have "app_log (a1 user) = app_log a" "app_log (a2 user) = app_log a" for user
    using app_stmt_log [OF 1] app_stmt_log [OF 2] by simp_all
  then show ?thesis
    by (auto simp: transitionAlert_def 1 2 Let_def split: option.split sum.split pgerr.split)
qed

lemma rule_handlers_log:
  "logs_for r a (snd (createAlertRule cd E r (w, a)))" "logs_for r a (snd (updateAlertRule cd E r (w, a)))"
  "logs_for r a (snd (deleteAlertRule E r (w, a)))"
  by (auto simp: createAlertRule_def updateAlertRule_def deleteAlertRule_def Let_def dest: app_stmt_log
      split: option.split prod.split sum.split pgerr.split)

lemma device_handlers_log:
  "logs_for r a (snd (getDevice E r (w, a)))" "logs_for r a (snd (getDeviceTelemetry cd E r (w, a)))"
  by (auto simp: getDevice_def getDeviceTelemetry_def run_find_def Let_def dest: app_stmt_log
      intro!: close_cursor_logs split: prod.split sum.split)

lemma route_table_logs: "list_all (\<lambda>(p, h). \<forall>r w a. logs_for r a (snd (h r (w, a)))) (route_table cd E)"
  by (auto simp: route_table_def healthz_def listSites_def listDevices_def listAlerts_def listAlertRules_def acknowledgeAlert_def
      resolveAlert_def list_response_logs transitionAlert_logs rule_handlers_log device_handlers_log split: prod.split)

lemma routes_logs: "logs_for r (srv_app s) (srv_app (snd (routes cd E metrics r (w, s))))"
proof (cases "route_for cd E (rq_Method r) (rq_Path r)")
  case (Some x)
  obtain p h vals where x: "x = (p, h, vals)" by (metis prod_cases3)
  from Some x route_for_handler have "(p, h) \<in> set (route_table cd E)" by blast
  with route_table_logs [of cd E] have "logs_for (r\<lparr>rq_PathValue := vals\<rparr>) a (snd (h (r\<lparr>rq_PathValue := vals\<rparr>) (w, a)))" for w a
    by (auto simp: list_all_iff)
  then have "logs_for r a (snd (h (r\<lparr>rq_PathValue := vals\<rparr>) (w, a)))" for w a by (simp add: logs_for_def)
  with Some x show ?thesis by (auto simp: routes_def instrument_def Let_def split_beta)
qed (auto simp: routes_def)

subsection \<open>Properties\<close>

text \<open>A preflight request never consumes budget: an \<open>OPTIONS\<close> request is answered 204 with the CORS
  headers and an empty body, and leaves the limiter, the metrics, the databases and the log exactly
  as they were.\<close>

theorem preflight_free:
  assumes "rq_Method r = ''OPTIONS''"
  shows "snd (api_server cd E getenv rnd ra now metrics r (new_writer, s)) = s \<and>
    status_of (fst (api_server cd E getenv rnd ra now metrics r (new_writer, s))) = 204 \<and>
    rw_body (fst (api_server cd E getenv rnd ra now metrics r (new_writer, s))) = [] \<and>
    map_of (headers_of (fst (api_server cd E getenv rnd ra now metrics r (new_writer, s)))) ''Access-Control-Allow-Origin'' =
      (if header_Get r ''Origin'' \<in> set (cors_allowed getenv) then Some (header_Get r ''Origin'') else None)"
  using assms cors_headers_set(1) [of getenv r]
  by (simp add: api_server_chain http_simps status_of_def headers_of_def) (simp add: new_writer_def)

definition demo_http :: "string \<Rightarrow> string \<Rightarrow> request" where
  "demo_http method path = \<lparr>rq_Method = method, rq_Path = path, rq_Header = [(''Origin'', ''http://localhost:5173'')],
     rq_Query = [], rq_PathValue = [], rq_Body = [], rq_RemoteAddr = ''10.0.0.7:5123'', rq_logger = None\<rparr>"

definition demo_server :: "(int \<times> time) server" where
  "demo_server = \<lparr>srv_app = demo_app demo_db [], srv_requests = (\<lambda>_. 0), srv_durations = (\<lambda>_. 0),
     srv_limiter = newIPRateLimiter (Finite 20) 40\<rparr>"

definition demo_rnd :: rand_source where
  "demo_rnd n = Some (replicate n 0)"

theorem preflight_free_witness:
  "snd (api_server api_codec demo_env (\<lambda>_. []) demo_rnd demo_rate 0 None (demo_http ''OPTIONS'' ''/sites'') (new_writer, demo_server)) = demo_server"
  by (rule preflight_free [THEN conjunct1]) (simp add: demo_http_def)

text \<open>C36: The headers of every response, whatever the route and the outcome, 404, 405 and 429 included.
  \<open>X-Request-Id\<close> is the caller's id or a fresh one on every response but that of a preflight
  request, which has none; \<open>Access-Control-Allow-Origin\<close> is present if and only if the request's
  \<open>Origin\<close> is in the list, and then repeats that origin; the allowed methods and headers are sent to
  every origin.\<close>

theorem response_headers:
  assumes "metrics_ok metrics" and "hs = map_of (headers_of (fst (api_server cd E getenv rnd ra now metrics r (new_writer, s))))"
  shows "hs ''X-Request-Id'' = (if rq_Method r = ''OPTIONS'' then None else Some (request_id rnd r)) \<and>
    hs ''Access-Control-Allow-Origin'' =
      (if header_Get r ''Origin'' \<in> set (cors_allowed getenv) then Some (header_Get r ''Origin'') else None) \<and>
    hs ''Access-Control-Allow-Methods'' = Some ''GET, POST, PATCH, DELETE, OPTIONS'' \<and>
    hs ''Access-Control-Allow-Headers'' = Some ''Content-Type''"
proof -
  let ?w = "Header_Set ''X-Request-ID'' (request_id rnd r) (cors_headers getenv r new_writer)"
  have w: "rw_sent ?w = None" by (simp add: http_simps)
  have hs: "hs k = map_of (rw_header (if rq_Method r = ''OPTIONS'' then cors_headers getenv r new_writer else ?w)) k"
    if "k \<in> set tracked" for k
    unfolding assms(2) using new_writer_fresh
    by (simp add: api_server_chain rate_limited_headers [OF w assms(1) that] headers_of_WriteHeader)
  note C = cors_headers_set [of getenv r]
  show ?thesis
    using C by (simp add: hs tracked_def) (simp add: http_simps update_conv')
qed

theorem response_headers_witness:
  "map_of (headers_of (fst (api_server api_codec demo_env (\<lambda>_. []) demo_rnd demo_rate 0 None (demo_http ''GET'' ''/sites'')
     (new_writer, demo_server)))) ''Access-Control-Allow-Origin'' = Some ''http://localhost:5173'' \<and>
   map_of (headers_of (fst (api_server api_codec demo_env (\<lambda>_. []) demo_rnd demo_rate 0 None (demo_http ''OPTIONS'' ''/sites'')
     (new_writer, demo_server)))) ''X-Request-Id'' = None"
proof -
  have "header_Get (demo_http ''GET'' ''/sites'') ''Origin'' = ''http://localhost:5173''" by code_simp
  moreover have "''http://localhost:5173'' \<in> set (cors_allowed (\<lambda>_. []))" by code_simp
  moreover have m: "metrics_ok None" by (simp add: metrics_ok_def)
  moreover have "rq_Method (demo_http ''OPTIONS'' ''/sites'') = ''OPTIONS''" by (simp add: demo_http_def)
  ultimately show ?thesis
    using response_headers [OF m refl, of api_codec demo_env "\<lambda>_. []" demo_rnd demo_rate 0 "demo_http ''GET'' ''/sites''" demo_server]
      response_headers [OF m refl, of api_codec demo_env "\<lambda>_. []" demo_rnd demo_rate 0 "demo_http ''OPTIONS'' ''/sites''" demo_server]
    by simp
qed

text \<open>A throttled request does nothing: when the client's bucket refuses, the answer is 429 with
  \<open>Retry-After: 1\<close>, no handler runs, databases and request metrics are unchanged, and the one log line
  written carries the request's id.\<close>

theorem throttled_request:
  assumes "rq_Method r \<noteq> ''OPTIONS''" and "\<not> fst (allow ra now (clientIP r) (srv_limiter s))"
  shows "case api_server cd E getenv rnd ra now metrics r (new_writer, s) of (w', s') \<Rightarrow>
    status_of w' = 429 \<and> map_of (headers_of w') ''Retry-After'' = Some ''1'' \<and>
    app_world (srv_app s') = app_world (srv_app s) \<and> srv_requests s' = srv_requests s \<and> srv_durations s' = srv_durations s \<and>
    app_log (srv_app s') = app_log (srv_app s) @ [(Some (request_id rnd r), ''rate limit exceeded'')]"
proof -
  obtain l where l: "allow ra now (clientIP r) (srv_limiter s) = (False, l)" using assms(2) by (cases "allow ra now (clientIP r) (srv_limiter s)") auto
  let ?w = "Header_Set ''Retry-After'' ''1'' (Header_Set ''X-Request-ID'' (request_id rnd r) (cors_headers getenv r new_writer))"
  have w: "rw_sent ?w = None" by (simp add: http_simps)
  show ?thesis
    using assms(1) l
    by (simp add: api_server_chain withRateLimit_def status_of_def headers_of_def http_Error_sent [OF w] app_Log_def app_logged_def)
      (simp add: http_simps update_conv')
qed

definition demo_empty_server :: "(int \<times> time) server" where
  "demo_empty_server = demo_server\<lparr>srv_limiter := (newIPRateLimiter (Finite 20) 40)
     \<lparr>rl_visitors := [''10.0.0.7'' \<mapsto> \<lparr>vs_limiter = (0, 0), vs_lastSeen = 0\<rparr>]\<rparr>\<rparr>"

theorem throttled_request_witness:
  "status_of (fst (api_server api_codec demo_env (\<lambda>_. []) demo_rnd demo_rate 0 None (demo_http ''GET'' ''/sites'')
     (new_writer, demo_empty_server))) = 429"
proof -
  have "\<not> fst (allow demo_rate 0 (clientIP (demo_http ''GET'' ''/sites'')) (srv_limiter demo_empty_server))" by code_simp
  moreover have "rq_Method (demo_http ''GET'' ''/sites'') \<noteq> ''OPTIONS''" by (simp add: demo_http_def)
  ultimately show ?thesis
    using throttled_request [of "demo_http ''GET'' ''/sites''" demo_rate 0 demo_empty_server,
        where cd = api_codec and E = demo_env and getenv = "\<lambda>_. []" and rnd = demo_rnd and metrics = None]
    by (simp add: split_beta)
qed

text \<open>C37: Every routed request is counted once under its route: for an admitted request that matches a
  route, the counter of (method, route pattern, status sent) and the latency histogram of (method,
  route pattern) grow by exactly one and no other does; the labels come from the twelve registered
  patterns, never from the URL, and the status is one of those \<open>route_codes\<close> lists for that
  pattern.\<close>

theorem routed_request_counted:
  assumes "rq_Method r \<noteq> ''OPTIONS''" and "fst (allow ra now (clientIP r) (srv_limiter s))"
    and "route_for cd E (rq_Method r) (rq_Path r) = Some (p, h, vals)" and "GoStd.Cut p (CHR '' '') = (m, path, found)"
    and "rq_Path r \<noteq> ''/metrics''"
  shows "case api_server cd E getenv rnd ra now metrics r (new_writer, s) of (w', s') \<Rightarrow>
    p \<in> fst ` set (route_table cd E) \<and>
    srv_requests s' = (srv_requests s)((m, path, Itoa (status_of w')) := srv_requests s (m, path, Itoa (status_of w')) + 1) \<and>
    srv_durations s' = (srv_durations s)((m, path) := srv_durations s (m, path) + 1) \<and>
    status_of w' \<in> codes_of p \<and> safe_change E (srv_app s) (srv_app s')"
proof -
  obtain l where l: "allow ra now (clientIP r) (srv_limiter s) = (True, l)" using assms(2) by (cases "allow ra now (clientIP r) (srv_limiter s)") auto
  note R = route_for_handler [OF assms(3)]
  let ?w = "Header_Set ''X-Request-ID'' (request_id rnd r) (cors_headers getenv r new_writer)"
  let ?r = "r\<lparr>rq_logger := Some (request_id rnd r), rq_PathValue := vals\<rparr>"
  have w: "rw_sent ?w = None" by (simp add: http_simps)
  obtain st w1 a1 where out: "instrument p h ?r (?w, s\<lparr>srv_limiter := l\<rparr>) = (w1, (s\<lparr>srv_limiter := l\<rparr>)
      \<lparr>srv_app := a1, srv_requests := (srv_requests s)((m, path, Itoa st) := srv_requests s (m, path, Itoa st) + 1),
        srv_durations := (srv_durations s)((m, path) := srv_durations s (m, path) + 1)\<rparr>)"
    "st \<in> codes_of p" "rw_sent w1 = Some (st, AList.update ''Content-Type'' ''application/json'' (rw_header ?w))" "safe_change E (srv_app s) a1"
    using instrument_contract [OF conjunct2 [OF R] w assms(4), of ?r "s\<lparr>srv_limiter := l\<rparr>"] by auto
  have "api_server cd E getenv rnd ra now metrics r (new_writer, s) = instrument p h ?r (?w, s\<lparr>srv_limiter := l\<rparr>)"
    using assms(1,3,5) l by (simp add: api_server_chain withRateLimit_def routes_def)
  with out R show ?thesis by (auto simp: status_of_def intro: rev_image_eqI)
qed

theorem routed_request_counted_witness:
  "srv_durations (snd (api_server api_codec demo_env (\<lambda>_. []) demo_rnd demo_rate 0 None (demo_http ''GET'' ''/devices/d1'')
     (new_writer, demo_server))) (''GET'', ''/devices/{id}'') = 1"
proof -
  let ?r = "demo_http ''GET'' ''/devices/d1''"
  have "fst (allow demo_rate 0 (clientIP ?r) (srv_limiter demo_server))" by code_simp
  moreover have "rq_Method ?r \<noteq> ''OPTIONS''" "rq_Path ?r \<noteq> ''/metrics''" "rq_Method ?r = ''GET''" "rq_Path ?r = ''/devices/d1''"
    by (simp_all add: demo_http_def)
  moreover have c: "GoStd.Cut ''GET /devices/{id}'' (CHR '' '') = (''GET'', ''/devices/{id}'', True)" by code_simp
  moreover have "route_for api_codec demo_env ''GET'' ''/devices/d1'' = Some (''GET /devices/{id}'', getDevice demo_env, [(''id'', ''d1'')])"
    by (simp add: route_for_def route_table_def match_method_def match_path_def pattern_segs_def seg_of_def)
  moreover have "srv_durations demo_server = (\<lambda>_. 0)" by (simp add: demo_server_def)
  ultimately show ?thesis
    using routed_request_counted [of ?r demo_rate 0 demo_server api_codec demo_env "''GET /devices/{id}''" "getDevice demo_env"
        "[(''id'', ''d1'')]" "''GET''" "''/devices/{id}''" True, where getenv = "\<lambda>_. []" and rnd = demo_rnd and metrics = None]
    by (simp add: split_beta)
qed

text \<open>Requests reach their handlers: for every id that is a non-empty path segment, the paths of a
  device, its telemetry, the two alert transitions and a rule are routed to exactly the intended
  handler with that id as path value, and a path with an empty id is routed nowhere.\<close>

theorem routing_correct:
  assumes "i \<noteq> []" and "CHR ''/'' \<notin> set i"
  shows "route_for cd E ''GET'' (''/devices/'' @ i) = Some (''GET /devices/{id}'', getDevice E, [(''id'', i)]) \<and>
    route_for cd E ''GET'' (''/devices/'' @ i @ ''/telemetry'') =
      Some (''GET /devices/{id}/telemetry'', getDeviceTelemetry cd E, [(''id'', i)]) \<and>
    route_for cd E ''POST'' (''/alerts/'' @ i @ ''/acknowledge'') =
      Some (''POST /alerts/{id}/acknowledge'', acknowledgeAlert cd E, [(''id'', i)]) \<and>
    route_for cd E ''POST'' (''/alerts/'' @ i @ ''/resolve'') =
      Some (''POST /alerts/{id}/resolve'', resolveAlert cd E, [(''id'', i)]) \<and>
    route_for cd E ''PATCH'' (''/alert-rules/'' @ i) = Some (''PATCH /alert-rules/{id}'', updateAlertRule cd E, [(''id'', i)]) \<and>
    route_for cd E ''DELETE'' (''/alert-rules/'' @ i) = Some (''DELETE /alert-rules/{id}'', deleteAlertRule E, [(''id'', i)]) \<and>
    route_for cd E ''GET'' ''/devices/'' = None"
proof -
  have s1: "Split i (CHR ''/'') = [i]" using assms(2) by (rule Split_free)
  have s2: "Split (i @ CHR ''/'' # t) (CHR ''/'') = i # Split t (CHR ''/'')" for t using assms(2) by (rule Split_append)
  show ?thesis
    using assms(1)
    by (simp add: route_for_def route_table_def match_method_def match_path_def pattern_segs_def seg_of_def s1 s2)
qed

theorem routing_correct_witness:
  "route_for api_codec demo_env ''DELETE'' ''/alert-rules/r1'' =
     Some (''DELETE /alert-rules/{id}'', deleteAlertRule demo_env, [(''id'', ''r1'')])"
  using routing_correct [of "''r1''" api_codec demo_env] by simp

text \<open>C38: The log of a request carries its id: whatever route is taken and whatever fails, every line a
  request adds to the log, the rate limiter's included, is written through the logger with the id
  that the response's \<open>X-Request-Id\<close> header shows, with one exception: the line of \<open>writeJSON\<close>
  about a value it cannot encode goes through the global logger and carries no id.\<close>

theorem request_log_correlated:
  "\<exists>ls. app_log (srv_app (snd (api_server cd E getenv rnd ra now metrics r (w, s)))) = app_log (srv_app s) @ ls \<and>
     list_all (\<lambda>l. fst l = Some (request_id rnd r) \<or> l = (None, ''encode response'')) ls"
proof (cases "rq_Method r = ''OPTIONS''")
  case False
  let ?r = "r\<lparr>rq_logger := Some (request_id rnd r)\<rparr>"
  let ?w = "Header_Set ''X-Request-ID'' (request_id rnd r) (cors_headers getenv r w)"
  obtain ok l where al: "allow ra now (clientIP ?r) (srv_limiter s) = (ok, l)" by force
  have "logs_for ?r (srv_app s) (srv_app (snd (withRateLimit ra now (routes cd E metrics) ?r (?w, s))))"
    using routes_logs [of ?r "s\<lparr>srv_limiter := l\<rparr>" cd E metrics ?w] al
    by (auto simp: withRateLimit_def split: bool.split)
  with False show ?thesis by (simp add: api_server_chain logs_for_def)
qed (simp add: api_server_chain)

end
