(* ===== verification/Api_Alert_List.thy ===== *)
theory Api_Alert_List
  imports Api_Alerts
begin

text \<open>
  What \<open>listAlerts\<close> returns: the conditions the builder assembles and the placeholders it numbers
  select exactly the alerts the parameters ask for, newest first, page by page; no parameter value
  reaches the SQL text.
\<close>

subsection \<open>Specification\<close>

definition alert_matches :: "pgenv \<Rightarrow> request \<Rightarrow> pgdb \<Rightarrow> Alert \<Rightarrow> bool" where
  "alert_matches E r db a \<longleftrightarrow>
     (query_Get r ''site_id'' = [] \<or>
        (\<exists>d \<in> set (devices db). dev_ID d = al_DeviceID a \<and> uuid_parse E (query_Get r ''site_id'') = Some (dev_SiteID d))) \<and>
     (query_Get r ''status'' = [] \<or> al_Status a = query_Get r ''status'') \<and>
     (query_Get r ''device_id'' = [] \<or> uuid_parse E (query_Get r ''device_id'') = Some (al_DeviceID a))"

definition params_ok :: "pgenv \<Rightarrow> request \<Rightarrow> bool" where
  "params_ok E r \<longleftrightarrow>
     (query_Get r ''site_id'' = [] \<or> uuid_parse E (query_Get r ''site_id'') \<noteq> None) \<and>
     (query_Get r ''status'' = [] \<or> text_valid E (query_Get r ''status'')) \<and>
     (query_Get r ''device_id'' = [] \<or> uuid_parse E (query_Get r ''device_id'') \<noteq> None)"

abbreviation list_limit :: "request \<Rightarrow> int" where
  "list_limit r \<equiv> parseIntParam (rq_Query r) ''limit'' 50 500"

abbreviation list_offset :: "request \<Rightarrow> int" where
  "list_offset r \<equiv> parseIntParam (rq_Query r) ''offset'' 0 1000000"

subsection \<open>Lemmas\<close>

text \<open>The row predicate the conditions amount to.\<close>

definition row_matches :: "pgenv \<Rightarrow> request \<Rightarrow> Alert \<times> Device option \<Rightarrow> bool" where
  "row_matches E r x \<longleftrightarrow>
     (query_Get r ''site_id'' = [] \<or> (\<exists>d. snd x = Some d \<and> uuid_parse E (query_Get r ''site_id'') = Some (dev_SiteID d))) \<and>
     (query_Get r ''status'' = [] \<or> al_Status (fst x) = query_Get r ''status'') \<and>
     (query_Get r ''device_id'' = [] \<or> uuid_parse E (query_Get r ''device_id'') = Some (al_DeviceID (fst x)))"

lemma arg_at_simps [simp]:
  "arg_at (x # xs) (Suc 0) = Some x" "arg_at (x # xs) (Suc (Suc k)) = arg_at xs (Suc k)"
  "arg_at (x # y # xs) 2 = Some y" "arg_at (x # y # z # xs) 3 = Some z" "arg_at (x # y # z # u # xs) 4 = Some u"
  "arg_at (x # y # z # u # v # xs) 5 = Some v"
  by (auto simp: arg_at_def numeral_eq_Suc)

text \<open>
  The eight texts the builder can produce, one for every set of filters present.
\<close>

definition alert_query_text :: "bool \<Rightarrow> bool \<Rightarrow> bool \<Rightarrow> string" where
  "alert_query_text site status device =
     alert_select @
     (case (site, status, device) of
        (False, False, False) \<Rightarrow> '' ORDER BY a.triggered_at DESC LIMIT $1 OFFSET $2''
      | (False, False, True) \<Rightarrow> '' WHERE a.device_id = $1 ORDER BY a.triggered_at DESC LIMIT $2 OFFSET $3''
      | (False, True, False) \<Rightarrow> '' WHERE a.status = $1 ORDER BY a.triggered_at DESC LIMIT $2 OFFSET $3''
      | (False, True, True) \<Rightarrow>
          '' WHERE a.status = $1 AND a.device_id = $2 ORDER BY a.triggered_at DESC LIMIT $3 OFFSET $4''
      | (True, False, False) \<Rightarrow>
          '' JOIN devices d ON d.id = a.device_id WHERE d.site_id = $1 ORDER BY a.triggered_at DESC LIMIT $2 OFFSET $3''
      | (True, False, True) \<Rightarrow>
          '' JOIN devices d ON d.id = a.device_id WHERE d.site_id = $1 AND a.device_id = $2'' @
          '' ORDER BY a.triggered_at DESC LIMIT $3 OFFSET $4''
      | (True, True, False) \<Rightarrow>
          '' JOIN devices d ON d.id = a.device_id WHERE d.site_id = $1 AND a.status = $2'' @
          '' ORDER BY a.triggered_at DESC LIMIT $3 OFFSET $4''
      | (True, True, True) \<Rightarrow>
          '' JOIN devices d ON d.id = a.device_id WHERE d.site_id = $1 AND a.status = $2 AND a.device_id = $3'' @
          '' ORDER BY a.triggered_at DESC LIMIT $4 OFFSET $5'')"

lemma Itoa_small: "Itoa 1 = ''1''" "Itoa 2 = ''2''" "Itoa 3 = ''3''" "Itoa 4 = ''4''" "Itoa 5 = ''5''"
  by code_simp+

lemma build_alert_query_eq:
  "build_alert_query r =
     (alert_query_text (query_Get r ''site_id'' \<noteq> []) (query_Get r ''status'' \<noteq> []) (query_Get r ''device_id'' \<noteq> []),
      map ArgStr (filter (\<lambda>v. v \<noteq> []) [query_Get r ''site_id'', query_Get r ''status'', query_Get r ''device_id'']) @
        [ArgInt (list_limit r), ArgInt (list_offset r)])"
  by (cases "query_Get r ''site_id'' = []"; cases "query_Get r ''status'' = []"; cases "query_Get r ''device_id'' = []")
    (simp_all add: build_alert_query_def alert_filters_def Let_def alert_query_text_def Itoa_small)

text \<open>The query the server reads in each of them.\<close>

lemma parse_alert_query_text:
  "parse_alert_query (alert_query_text site status device) = Some
     \<lparr>aq_join = site,
      aq_conds = (if site then [SiteEq 1] else []) @ (if status then [StatusEq (1 + of_bool site)] else []) @
        (if device then [DeviceEq (1 + of_bool site + of_bool status)] else []),
      aq_limit = 1 + of_bool site + of_bool status + of_bool device,
      aq_offset = 2 + of_bool site + of_bool status + of_bool device\<rparr>"
proof -
  have "\<forall>site status device. parse_alert_query (alert_query_text site status device) = Some
     \<lparr>aq_join = site,
      aq_conds = (if site then [SiteEq 1] else []) @ (if status then [StatusEq (1 + of_bool site)] else []) @
        (if device then [DeviceEq (1 + of_bool site + of_bool status)] else []),
      aq_limit = 1 + of_bool site + of_bool status + of_bool device,
      aq_offset = 2 + of_bool site + of_bool status + of_bool device\<rparr>"
    by code_simp
  then show ?thesis by blast
qed

lemma built_preds:
  assumes "params_ok E r" "build_alert_query r = (query, args)"
  shows "\<exists>q P. parse_alert_query query = Some q \<and> cond_preds E args (aq_conds q) = Inr P \<and> (\<forall>x. P x \<longleftrightarrow> row_matches E r x) \<and>
    arg_at args (aq_limit q) = Some (ArgInt (list_limit r)) \<and> arg_at args (aq_offset q) = Some (ArgInt (list_offset r)) \<and>
    (aq_join q \<longleftrightarrow> query_Get r ''site_id'' \<noteq> [])"
  using assms unfolding build_alert_query_eq prod.inject
  by (cases "query_Get r ''site_id'' = []"; cases "query_Get r ''status'' = []"; cases "query_Get r ''device_id'' = []")
    (auto simp: parse_alert_query_text params_ok_def row_matches_def split: option.splits)

lemma join_rows:
  assumes "distinct (map dev_ID devs)" "\<And>a. a \<in> set as \<Longrightarrow> al_DeviceID a \<in> dev_ID ` set devs"
  shows "map fst (filter P (concat (map (\<lambda>a. map (\<lambda>d. (a, Some d)) (filter (\<lambda>d. dev_ID d = al_DeviceID a) devs)) as))) =
    filter (\<lambda>a. \<exists>d \<in> set devs. dev_ID d = al_DeviceID a \<and> P (a, Some d)) as"
  using assms(2)
proof (induction as)
  case (Cons a as)
  from Cons.prems obtain d where d: "d \<in> set devs" "dev_ID d = al_DeviceID a" by force
  then obtain e where e: "List.find (\<lambda>d. dev_ID d = al_DeviceID a) devs = Some e"
    by (cases "List.find (\<lambda>d. dev_ID d = al_DeviceID a) devs") (auto simp: find_None_iff)
  then have "e \<in> set devs" "dev_ID e = al_DeviceID a" by (auto simp: find_Some_iff)
  with d have "e = d" using distinct_map_eqD [OF assms(1), of e d] by simp
  with e have one: "filter (\<lambda>d. dev_ID d = al_DeviceID a) devs = [d]"
    using filter_unique [OF assms(1), of "al_DeviceID a" "\<lambda>_. True"] by simp
  have "(\<exists>d \<in> set devs. dev_ID d = al_DeviceID a \<and> P (a, Some d)) \<longleftrightarrow> P (a, Some d)"
  proof -
    have "e' = d" if "e' \<in> set devs" "dev_ID e' = al_DeviceID a" for e'
      using distinct_map_eqD [OF assms(1) that(1) d(1)] that(2) d(2) by simp
    with d show ?thesis by blast
  qed
  with Cons one show ?case by simp
qed simp

lemma selected_rows:
  assumes "pgenv_ok E" "db_ok E db" "aq_join q \<longleftrightarrow> query_Get r ''site_id'' \<noteq> []"
  shows "mset (map fst (filter (row_matches E r) (in_scan_order E (alert_rows q db)))) =
    mset (filter (alert_matches E r db) (alerts db))"
proof -
  have "mset (map fst (filter (row_matches E r) (in_scan_order E (alert_rows q db)))) =
    mset (map fst (filter (row_matches E r) (alert_rows q db)))"
    by (simp add: mset_in_scan_order [OF assms(1)])
  moreover have "map fst (filter (row_matches E r) (alert_rows q db)) = filter (alert_matches E r db) (alerts db)"
  proof (cases "query_Get r ''site_id'' = []")
    case True
    then show ?thesis
      using assms(3) by (simp add: alert_rows_def filter_map comp_def row_matches_def alert_matches_def [abs_def])
  next
    case False
    have dist: "distinct (map dev_ID (devices db))" and fk: "\<And>a. a \<in> set (alerts db) \<Longrightarrow> al_DeviceID a \<in> dev_ID ` set (devices db)"
      using assms(2) by (auto simp: db_ok_def schema_ok_def list_all_iff alert_row_ok_def)
    have "(\<exists>d \<in> set (devices db). dev_ID d = al_DeviceID a \<and> row_matches E r (a, Some d)) \<longleftrightarrow> alert_matches E r db a" for a
      using False by (auto simp: row_matches_def alert_matches_def)
    then show ?thesis using False assms(3) join_rows [OF dist fk, where P = "row_matches E r"] by (simp add: alert_rows_def)
  qed
  ultimately show ?thesis by simp
qed

lemma sorted_newest_first:
  "sorted_wrt (\<lambda>a b. al_TriggeredAt b \<le> al_TriggeredAt a) (sort_key (\<lambda>a. - al_TriggeredAt a) xs)"
proof -
  have "sorted (map (\<lambda>a. - al_TriggeredAt a) (sort_key (\<lambda>a. - al_TriggeredAt a) xs))" by simp
  then show ?thesis by (simp add: sorted_wrt_map)
qed

lemma eval_built_query:
  assumes "pgenv_ok E" "db_ok E db" "params_ok E r" "build_alert_query r = (query, args)"
  shows "\<exists>ys. eval_alert_query E query args db = Inr (take (nat (list_limit r)) (drop (nat (list_offset r)) ys)) \<and>
    mset ys = mset (filter (alert_matches E r db) (alerts db)) \<and>
    sorted_wrt (\<lambda>a b. al_TriggeredAt b \<le> al_TriggeredAt a) ys"
proof -
  obtain q P where q: "parse_alert_query query = Some q" and P: "cond_preds E args (aq_conds q) = Inr P" "\<And>x. P x \<longleftrightarrow> row_matches E r x"
    and lim: "arg_at args (aq_limit q) = Some (ArgInt (list_limit r))" "arg_at args (aq_offset q) = Some (ArgInt (list_offset r))"
    and join: "aq_join q \<longleftrightarrow> query_Get r ''site_id'' \<noteq> []"
    using built_preds [OF assms(3,4)] by blast
  have "P = row_matches E r" using P(2) by blast
  let ?xs = "map fst (filter P (in_scan_order E (alert_rows q db)))"
  have "mset (sort_key (\<lambda>a. - al_TriggeredAt a) ?xs) = mset (filter (alert_matches E r db) (alerts db))"
    using selected_rows [OF assms(1,2) join] \<open>P = row_matches E r\<close> by (simp del: mset_map)
  with q P(1) lim sorted_newest_first [of ?xs] show ?thesis
    unfolding eval_alert_query_def run_alert_query_def
    by (intro exI [of _ "sort_key (\<lambda>a. - al_TriggeredAt a) ?xs"]) simp
qed

lemma parseIntParam_bounds: "0 \<le> dflt \<Longrightarrow> dflt \<le> mx \<Longrightarrow> 0 \<le> parseIntParam q key dflt mx \<and> parseIntParam q key dflt mx \<le> mx"
  by (auto simp: parseIntParam_def split: option.split list.split sum.split)

lemma concat_pages: "concat (map (\<lambda>k. take L (drop (k * L) ys)) [0..<n]) = take (n * L) ys"
proof (induction n)
  case (Suc n)
  then show ?case by (simp add: take_add [symmetric] add.commute)
qed simp

lemma sort_key_unique:
  assumes "mset ys = mset xs" "sorted_wrt (\<lambda>a b. f b \<le> f a) ys" "distinct (map f xs)"
  shows "ys = sort_key (\<lambda>a. - (f a :: int)) xs"
proof -
  have "inj_on (\<lambda>a. - f a) (set xs)" using assms(3) by (auto simp: distinct_map inj_on_def)
  moreover have "sorted (map (\<lambda>a. - f a) ys)" using assms(2) by (simp add: sorted_wrt_map)
  ultimately show ?thesis using sort_key_inj_key_eq [of xs ys "\<lambda>a. - f a"] assms(1) by simp
qed

subsection \<open>Properties\<close>

text \<open>C7: Listing alerts without faults is correct: for valid filter values the handler answers 200
  with one page (limit and offset as parsed, never more than 500 alerts) of the alerts that match
  exactly the given site, status and device, every one of them once and newest first.\<close>

theorem listAlerts_exact:
  assumes "pgenv_ok E" and "db_ok E (app_db a)" and "params_ok E r" and "w_faults (app_world a) = []"
  shows "\<exists>ys. listAlerts E r (w, a) =
      writeJSON 200 (Some (VAlerts (take (nat (list_limit r)) (drop (nat (list_offset r)) ys)))) (w, a) \<and>
    mset ys = mset (filter (alert_matches E r (app_db a)) (alerts (app_db a))) \<and>
    sorted_wrt (\<lambda>x y. al_TriggeredAt y \<le> al_TriggeredAt x) ys \<and>
    length (take (nat (list_limit r)) (drop (nat (list_offset r)) ys)) \<le> 500"
proof -
  obtain q args where b: "build_alert_query r = (q, args)" by force
  obtain ys where ys: "eval_alert_query E q args (app_db a) = Inr (take (nat (list_limit r)) (drop (nat (list_offset r)) ys))"
    "mset ys = mset (filter (alert_matches E r (app_db a)) (alerts (app_db a)))"
    "sorted_wrt (\<lambda>a b. al_TriggeredAt b \<le> al_TriggeredAt a) ys"
    using eval_built_query [OF assms(1-3) b] by blast
  have "listAlerts E r (w, a) = writeJSON 200 (Some (VAlerts (take (nat (list_limit r)) (drop (nat (list_offset r)) ys)))) (w, a)"
    using b ys(1) by (simp add: listAlerts_def list_response_no_fault [OF assms(4)])
  moreover have "length (take (nat (list_limit r)) (drop (nat (list_offset r)) ys)) \<le> 500"
    using parseIntParam_bounds [of 50 500 "rq_Query r" "''limit''"] by (simp add: min_def) linarith
  ultimately show ?thesis using ys(2,3) by blast
qed

definition demo_list_request :: request where
  "demo_list_request = (demo_request [] [])\<lparr>rq_Query := [(''status'', [''open'']), (''limit'', [''10''])]\<rparr>"

theorem listAlerts_exact_witness:
  "\<exists>ys. listAlerts demo_env demo_list_request (new_writer, demo_app demo_alert_db []) =
      writeJSON 200 (Some (VAlerts (take 10 ys))) (new_writer, demo_app demo_alert_db []) \<and> mset ys = {#demo_open_alert#}"
proof -
  have p: "params_ok demo_env demo_list_request" by code_simp
  have l: "list_limit demo_list_request = 10" "list_offset demo_list_request = 0" by code_simp+
  have f: "filter (alert_matches demo_env demo_list_request demo_alert_db) (alerts demo_alert_db) = [demo_open_alert]" by code_simp
  show ?thesis
    using listAlerts_exact [OF demo_env_ok _ p, of "demo_app demo_alert_db []" new_writer]
    unfolding l by (auto simp: demo_alert_db_ok f)
qed

text \<open>The pages of a listing partition it: with distinct trigger times, the pages of size L at
  offsets 0, L, 2L, ... put together are exactly the matching alerts in order, each once, even
  though the server may scan its rows in a different order for every page.\<close>

theorem listAlerts_pages_partition:
  assumes page: "\<forall>k < n. pgenv_ok (E k) \<and> db_ok (E k) db \<and> params_ok (E k) (r k) \<and>
      list_limit (r k) = int L \<and> list_offset (r k) = int (k * L) \<and>
      list_all (\<lambda>a. alert_matches (E k) (r k) db a = M a) (alerts db) \<and>
      eval_alert_query (E k) (fst (build_alert_query (r k))) (snd (build_alert_query (r k))) db = Inr (pg k)"
    and dist: "distinct (map al_TriggeredAt (filter M (alerts db)))" and size: "length (filter M (alerts db)) \<le> n * L"
  shows "concat (map pg [0..<n]) = sort_key (\<lambda>a. - al_TriggeredAt a) (filter M (alerts db))"
proof -
  let ?ys = "sort_key (\<lambda>a. - al_TriggeredAt a) (filter M (alerts db))"
  have "pg k = take L (drop (k * L) ?ys)" if "k < n" for k
  proof -
    obtain q args where b: "build_alert_query (r k) = (q, args)" by force
    from page that have k: "pgenv_ok (E k)" "db_ok (E k) db" "params_ok (E k) (r k)" "list_limit (r k) = int L"
      "list_offset (r k) = int (k * L)" "list_all (\<lambda>a. alert_matches (E k) (r k) db a = M a) (alerts db)"
      "eval_alert_query (E k) q args db = Inr (pg k)" using b by auto
    have m: "filter (alert_matches (E k) (r k) db) (alerts db) = filter M (alerts db)"
      using k(6) by (intro filter_cong) (auto simp: list_all_iff)
    from eval_built_query [OF k(1-3) b] k(4,5,7) m obtain ys where
      "pg k = take L (drop (k * L) ys)" "mset ys = mset (filter M (alerts db))"
      "sorted_wrt (\<lambda>a b. al_TriggeredAt b \<le> al_TriggeredAt a) ys" by (auto simp: nat_mult_distrib)
    with sort_key_unique [OF _ _ dist] show ?thesis by blast
  qed
  then have "concat (map pg [0..<n]) = concat (map (\<lambda>k. take L (drop (k * L) ?ys)) [0..<n])"
    by (intro arg_cong [of _ _ concat] map_cong) auto
  also have "\<dots> = ?ys" using size by (simp add: concat_pages)
  finally show ?thesis .
qed

definition demo_two_alerts :: pgdb where
  "demo_two_alerts = demo_db\<lparr>alerts := [demo_open_alert, demo_open_alert\<lparr>al_ID := ''a2'', al_AlertRuleID := ''r2'', al_TriggeredAt := 2000\<rparr>]\<rparr>"

lemma demo_two_alerts_ok: "db_ok demo_env demo_two_alerts"
  by (simp add: db_ok_def schema_ok_def alert_devices_ok_def device_row_ok_def site_types_def device_types_def demo_db_def demo_env_def demo_rule_row_def
      rule_row_ok_def operators_def severities_def all_ids_def demo_two_alerts_def demo_open_alert_def alert_row_ok_def
      statuses_def lifecycle_ok_def)

definition demo_page_request :: "nat \<Rightarrow> request" where
  "demo_page_request k = (demo_request [] [])\<lparr>rq_Query := [(''limit'', [''1'']), (''offset'', [Itoa (int k)])]\<rparr>"

definition demo_page :: "nat \<Rightarrow> Alert list" where
  "demo_page k = (case eval_alert_query demo_env (fst (build_alert_query (demo_page_request k)))
     (snd (build_alert_query (demo_page_request k))) demo_two_alerts of Inr xs \<Rightarrow> xs | Inl _ \<Rightarrow> [])"

theorem listAlerts_pages_partition_witness:
  "concat (map demo_page [0..<2]) = sort_key (\<lambda>a. - al_TriggeredAt a) (alerts demo_two_alerts)"
proof -
  have ok: "list_all (\<lambda>k. params_ok demo_env (demo_page_request k) \<and> list_limit (demo_page_request k) = 1 \<and>
      list_offset (demo_page_request k) = int k \<and>
      list_all (alert_matches demo_env (demo_page_request k) demo_two_alerts) (alerts demo_two_alerts) \<and>
      eval_alert_query demo_env (fst (build_alert_query (demo_page_request k)))
        (snd (build_alert_query (demo_page_request k))) demo_two_alerts = Inr (demo_page k)) [0..<2]"
    by code_simp
  have f: "filter (\<lambda>a. True) (alerts demo_two_alerts) = alerts demo_two_alerts" by simp
  have d: "distinct (map al_TriggeredAt (alerts demo_two_alerts)) \<and> length (alerts demo_two_alerts) \<le> 2" by code_simp
  show ?thesis
    using listAlerts_pages_partition [of 2 "\<lambda>_. demo_env" demo_two_alerts demo_page_request 1 "\<lambda>_. True" demo_page]
      ok d demo_env_ok demo_two_alerts_ok
    unfolding f by (auto simp: list_all_iff)
qed

text \<open>C29: The query is parameterised. Whatever the parameters of the request, the SQL text the builder
  concatenates is one of eight constant texts, chosen only by which of the three filters are
  present, and the values travel as arguments: the non-empty filter values as the client sent
  them, in the order the placeholders number them, then limit and offset.\<close>

theorem alert_query_parameterised:
  "fst (build_alert_query r) =
     alert_query_text (query_Get r ''site_id'' \<noteq> []) (query_Get r ''status'' \<noteq> []) (query_Get r ''device_id'' \<noteq> []) \<and>
   snd (build_alert_query r) =
     map ArgStr (filter (\<lambda>v. v \<noteq> []) [query_Get r ''site_id'', query_Get r ''status'', query_Get r ''device_id'']) @
     [ArgInt (list_limit r), ArgInt (list_offset r)]"
  unfolding build_alert_query_eq by simp

text \<open>C30: A broken result stream is not reported. The handler never consults \<open>rows.Err()\<close>: when the
  connection fails after k rows it answers 200 with these k alerts as if they were all, and when the
  server rejects the query (a site id that is not a UUID, say) it answers 200 with an empty list.\<close>

theorem listAlerts_hides_stream_errors:
  assumes "rw_sent w = None" and "list_all (\<lambda>x. finite64 (al_TriggeredValue x)) xs"
    and "eval_alert_query E (fst (build_alert_query r)) (snd (build_alert_query r)) (app_db a) = Inr xs"
      "w_faults (app_world a) = Cut k m # fs"
    and "eval_alert_query E (fst (build_alert_query r')) (snd (build_alert_query r')) (app_db a') = Inl e"
      "w_faults (app_world a') = []"
  shows "status_of (fst (listAlerts E r (w, a))) = 200 \<and>
    rw_body (fst (listAlerts E r (w, a))) = rw_body w @ [VAlerts (take k xs)] \<and>
    status_of (fst (listAlerts E r' (w, a'))) = 200 \<and>
    rw_body (fst (listAlerts E r' (w, a'))) = rw_body w @ [VAlerts []]"
proof -
  have t: "list_all (\<lambda>x. finite64 (al_TriggeredValue x)) (take k xs)"
    using assms(2) by (auto simp: list_all_iff dest: in_set_takeD)
  show ?thesis
    using list_response_broken [where q = "eval_alert_query E (fst (build_alert_query r)) (snd (build_alert_query r))", OF assms(4,3)]
      list_response_server_error [where q = "eval_alert_query E (fst (build_alert_query r')) (snd (build_alert_query r'))", OF assms(6,5)] t
    by (simp add: listAlerts_def split_beta writeJSON_fresh [OF assms(1)] status_of_def)
qed

definition demo_bad_request :: request where
  "demo_bad_request = (demo_request [] [])\<lparr>rq_Query := [(''site_id'', [''!''])]\<rparr>"

theorem listAlerts_hides_stream_errors_witness:
  "status_of (fst (listAlerts demo_env demo_list_request (new_writer, demo_app demo_alert_db [Cut 0 ''eof'']))) = 200 \<and>
   rw_body (fst (listAlerts demo_env demo_list_request (new_writer, demo_app demo_alert_db [Cut 0 ''eof'']))) = [VAlerts []] \<and>
   status_of (fst (listAlerts demo_env demo_bad_request (new_writer, demo_app demo_alert_db []))) = 200"
proof -
  have e1: "eval_alert_query demo_env (fst (build_alert_query demo_list_request)) (snd (build_alert_query demo_list_request)) demo_alert_db =
    Inr [demo_open_alert]" by code_simp
  have e2: "eval_alert_query demo_env (fst (build_alert_query demo_bad_request)) (snd (build_alert_query demo_bad_request)) demo_alert_db =
    Inl invalid_uuid" by code_simp
  show ?thesis
    using listAlerts_hides_stream_errors [of new_writer "[demo_open_alert]" demo_env demo_list_request
        "demo_app demo_alert_db [Cut 0 ''eof'']" 0 "''eof''" "[]" demo_bad_request "demo_app demo_alert_db []" invalid_uuid] e1 e2
    by (simp add: demo_open_alert_def) (simp add: new_writer_def)
qed

end
