(* ===== verification/Ingest_Apply.thy ===== *)
theory Ingest_Apply
  imports Ingest_Store Demo_Data
begin

text \<open>
  What \<open>ApplyDecisions\<close> and its retry do to the alerts under faults: one pass applies a prefix of
  the decisions and keeps at most one active alert per rule; the retry is bounded, masks failures
  that happen before any effect, is idempotent for auto-resolves, and repeats creates that had
  already been committed.
\<close>

subsection \<open>Demonstration data\<close>

definition demo_store :: "fault list \<Rightarrow> Store" where
  "demo_store fs = NewStore \<lparr>w_db = demo_db, w_telemetry = [], w_faults = fs, w_slept = []\<rparr>"

definition demo_create :: "string \<Rightarrow> RuleDecision" where
  "demo_create i = \<lparr>rd_Rule = rule_of_row (demo_rule_row i), rd_Decision = CreateAlert, rd_Value = Finite 33\<rparr>"

subsection \<open>One pass\<close>

definition decision_stmt :: "pgenv \<Rightarrow> string \<Rightarrow> time \<Rightarrow> RuleDecision \<Rightarrow> pgdb \<Rightarrow> pgerr + unit \<times> pgdb" where
  "decision_stmt E dev t d = (case rd_Decision d of
      CreateAlert \<Rightarrow> stmt_insert_alert E (rule_ID (rd_Rule d)) dev (rd_Value d) (rule_Severity (rd_Rule d)) t
    | AutoResolve \<Rightarrow> stmt_auto_resolve E t (rule_ID (rd_Rule d))
    | NoAction \<Rightarrow> (\<lambda>db. Inr ((), db)))"

definition decision_error :: "RuleDecision \<Rightarrow> pgerr \<Rightarrow> store_error" where
  "decision_error d e = (if rd_Decision d = CreateAlert then InsertAlert (rule_ID (rd_Rule d)) e
     else ResolveAlert (rule_ID (rd_Rule d)) e)"

abbreviation pg_apply :: "pgenv \<Rightarrow> string \<Rightarrow> time \<Rightarrow> RuleDecision list \<Rightarrow> pgdb \<Rightarrow> bool \<times> pgdb" where
  "pg_apply E dev t \<equiv> apply_all (pg_create E dev t) (pg_resolve E t)"

abbreviation store_db :: "Store \<Rightarrow> pgdb" where
  "store_db s \<equiv> w_db (st_world s)"

lemma ApplyDecisions_act:
  "rd_Decision d \<noteq> NoAction \<Longrightarrow>
   ApplyDecisions E dev (d # ds) t s =
     (case run_stmt (decision_stmt E dev t d) (st_world s) of
        (Inl e, w) \<Rightarrow> (Some (decision_error d e), s\<lparr>st_world := w\<rparr>)
      | (Inr _, w) \<Rightarrow> ApplyDecisions E dev ds t (s\<lparr>st_world := w\<rparr>))"
  by (cases "rd_Decision d") (simp_all add: decision_stmt_def decision_error_def split: prod.split sum.split)

lemma ApplyDecisions_skip:
  "rd_Decision d = NoAction \<Longrightarrow> ApplyDecisions E dev (d # ds) t s = ApplyDecisions E dev ds t s"
  by simp

lemma pg_apply_Cons:
  "pg_apply E dev t (d # ds) db =
     (case committed (decision_stmt E dev t d db) of None \<Rightarrow> (False, db) | Some db' \<Rightarrow> pg_apply E dev t ds db')"
  by (cases "rd_Decision d") (simp_all add: decision_stmt_def pg_create_def pg_resolve_def)

declare ApplyDecisions.simps(2) [simp del] apply_all.simps(2) [simp del]

lemma ApplyDecisions_frame:
  "w_telemetry (st_world (snd (ApplyDecisions E dev ds t s))) = w_telemetry (st_world s) \<and>
   w_slept (st_world (snd (ApplyDecisions E dev ds t s))) = w_slept (st_world s) \<and>
   st_lastSeenSent (snd (ApplyDecisions E dev ds t s)) = st_lastSeenSent s"
proof (induction ds arbitrary: s)
  case (Cons d ds)
  obtain r w where R: "run_stmt (decision_stmt E dev t d) (st_world s) = (r, w)" by force
  have w: "w_telemetry w = w_telemetry (st_world s)" "w_slept w = w_slept (st_world s)"
    using run_stmt_frame [of "decision_stmt E dev t d" "st_world s"] R by simp_all
  show ?case
  proof (cases "rd_Decision d = NoAction")
    case True
    with Cons show ?thesis by (simp add: ApplyDecisions_skip)
  next
    case False
    with R w Cons [of "s\<lparr>st_world := w\<rparr>"] show ?thesis
      by (simp add: ApplyDecisions_act split: sum.split)
  qed
qed simp

lemmas ApplyDecisions_frames [simp] =
  ApplyDecisions_frame [THEN conjunct1] ApplyDecisions_frame [THEN conjunct2, THEN conjunct1]
  ApplyDecisions_frame [THEN conjunct2, THEN conjunct2]

text \<open>Under any faults, one pass leaves the database as some prefix of the decisions does, all of
  them if it reports success.\<close>

lemma ApplyDecisions_prefix:
  "\<exists>k \<le> length ds.
     pg_apply E dev t (take k ds) (store_db s) = (True, store_db (snd (ApplyDecisions E dev ds t s))) \<and>
     (fst (ApplyDecisions E dev ds t s) = None \<longrightarrow> k = length ds)"
proof (induction ds arbitrary: s)
  case (Cons d ds)
  show ?case
  proof (cases "rd_Decision d = NoAction")
    case True
    from Cons.IH obtain k where "k \<le> length ds"
      "pg_apply E dev t (take k ds) (store_db s) = (True, store_db (snd (ApplyDecisions E dev ds t s)))"
      "fst (ApplyDecisions E dev ds t s) = None \<longrightarrow> k = length ds" by blast
    with True show ?thesis
      by (intro exI [of _ "Suc k"]) (simp add: ApplyDecisions_skip pg_apply_Cons decision_stmt_def)
  next
    case False
    let ?f = "decision_stmt E dev t d"
    obtain r w where R: "run_stmt ?f (st_world s) = (r, w)" by force
    show ?thesis
    proof (cases r)
      case (Inl e)
      from run_stmt_db [of ?f "st_world s"] R
      consider "w_db w = store_db s" | x where "?f (store_db s) = Inr (x, w_db w)" by auto
      then show ?thesis
      proof cases
        case 1
        with False R Inl show ?thesis by (intro exI [of _ 0]) (simp add: ApplyDecisions_act)
      next
        case 2
        with False R Inl show ?thesis
          by (intro exI [of _ "Suc 0"]) (simp add: ApplyDecisions_act pg_apply_Cons)
      qed
    next
      case (Inr x)
      then have "?f (store_db s) = Inr (x, w_db w)"
        using run_stmt_Inr [of ?f "st_world s" x] R by simp
      moreover from Cons.IH [of "s\<lparr>st_world := w\<rparr>"] obtain k where "k \<le> length ds"
        "pg_apply E dev t (take k ds) (w_db w) = (True, store_db (snd (ApplyDecisions E dev ds t (s\<lparr>st_world := w\<rparr>))))"
        "fst (ApplyDecisions E dev ds t (s\<lparr>st_world := w\<rparr>)) = None \<longrightarrow> k = length ds" by auto
      ultimately show ?thesis
        using False R Inr by (intro exI [of _ "Suc k"]) (simp add: ApplyDecisions_act pg_apply_Cons)
    qed
  qed
qed simp

lemma ApplyDecisions_no_fault:
  assumes "w_faults (st_world s) = []"
  shows "(fst (ApplyDecisions E dev ds t s) = None \<longleftrightarrow> fst (pg_apply E dev t ds (store_db s))) \<and>
    st_world (snd (ApplyDecisions E dev ds t s)) = (st_world s)\<lparr>w_db := snd (pg_apply E dev t ds (store_db s))\<rparr>"
  using assms
proof (induction ds arbitrary: s)
  case (Cons d ds)
  show ?case
  proof (cases "rd_Decision d = NoAction")
    case True
    with Cons show ?thesis by (simp add: ApplyDecisions_skip pg_apply_Cons decision_stmt_def)
  next
    case False
    let ?f = "decision_stmt E dev t d"
    show ?thesis
    proof (cases "?f (store_db s)")
      case (Inl e)
      with Cons.prems False show ?thesis
        by (simp add: ApplyDecisions_act pg_apply_Cons run_stmt_no_fault)
    next
      case (Inr p)
      obtain x db' where "p = (x, db')" by (cases p)
      with Inr Cons.prems False Cons.IH [of "s\<lparr>st_world := (st_world s)\<lparr>w_db := db'\<rparr>\<rparr>"] show ?thesis
        by (simp add: ApplyDecisions_act pg_apply_Cons run_stmt_no_fault)
    qed
  qed
qed simp

lemma ApplyDecisions_one_active:
  assumes "distinct (map (\<lambda>d. rule_ID (rd_Rule d)) ds)" and "\<forall>d \<in> set ds. pg_known E (rd_Rule d)"
    and "\<forall>d \<in> set ds. rd_Decision d = CreateAlert \<longrightarrow> active_count (rule_ID (rd_Rule d)) (store_db s) = 0"
    and "one_active (store_db s)"
  shows "one_active (store_db (snd (ApplyDecisions E dev ds t s)))"
proof -
  obtain k where k: "pg_apply E dev t (take k ds) (store_db s) = (True, store_db (snd (ApplyDecisions E dev ds t s)))"
    using ApplyDecisions_prefix [of ds E dev t s] by blast
  have "active_count i (snd (pg_apply E dev t (take k ds) (store_db s))) \<le> 1" for i
  proof (rule pg_sink.apply_all_at_most_one)
    show "distinct (map (\<lambda>d. rule_ID (rd_Rule d)) (take k ds))"
      using assms(1) by (simp add: take_map [symmetric] distinct_take)
  qed (use assms in \<open>auto simp: one_active_def dest: in_set_takeD\<close>)
  then show ?thesis unfolding k one_active_def by simp
qed

subsection \<open>The retry\<close>

lemma retry_unfold:
  "applyDecisionsWithRetry E dev ds t s =
     (case ApplyDecisions E dev ds t s of
        (None, s1) \<Rightarrow> (None, s1)
      | (Some e1, s1) \<Rightarrow>
          (case ApplyDecisions E dev ds t (sleep (100 * millisecond) s1) of
             (None, s2) \<Rightarrow> (None, s2)
           | (Some e2, s2) \<Rightarrow>
               (case ApplyDecisions E dev ds t (sleep (200 * millisecond) s2) of
                  (None, s3) \<Rightarrow> (None, s3)
                | (Some e3, s3) \<Rightarrow> (Some (ApplyAfter 3 e3), s3))))"
  by (simp add: applyDecisionsWithRetry_def maxAttempts_def
      apply_attempts.simps [of E dev ds t "Suc 0"] apply_attempts.simps [of E dev ds t "Suc (Suc 0)"]
      apply_attempts.simps [of E dev ds t "Suc (Suc (Suc 0))"] eval_nat_numeral
      split: prod.split option.split)

lemma sleep_simps [simp]:
  "store_db (sleep d s) = store_db s" "w_telemetry (st_world (sleep d s)) = w_telemetry (st_world s)"
  "w_faults (st_world (sleep d s)) = w_faults (st_world s)"
  "w_slept (st_world (sleep d s)) = w_slept (st_world s) @ [d]"
  "st_lastSeenSent (sleep d s) = st_lastSeenSent s"
  by (simp_all add: sleep_def)

text \<open>The retry is up to three passes: each pass applies a prefix of the decisions, a successful
  one all of them.\<close>

lemma retry_passes:
  "\<exists>k1 k2 k3. store_db (snd (applyDecisionsWithRetry E dev ds t s)) =
       snd (pg_apply E dev t (take k3 ds) (snd (pg_apply E dev t (take k2 ds)
         (snd (pg_apply E dev t (take k1 ds) (store_db s)))))) \<and>
     (fst (applyDecisionsWithRetry E dev ds t s) = None \<longrightarrow> k3 = length ds)"
proof -
  obtain r1 s1 where 1: "ApplyDecisions E dev ds t s = (r1, s1)" by force
  obtain r2 s2 where 2: "ApplyDecisions E dev ds t (sleep (100 * millisecond) s1) = (r2, s2)" by force
  obtain r3 s3 where 3: "ApplyDecisions E dev ds t (sleep (200 * millisecond) s2) = (r3, s3)" by force
  obtain k1 where k1: "pg_apply E dev t (take k1 ds) (store_db s) = (True, store_db s1)"
    "r1 = None \<Longrightarrow> k1 = length ds" using ApplyDecisions_prefix [of ds E dev t s] 1 by auto
  obtain k2 where k2: "pg_apply E dev t (take k2 ds) (store_db s1) = (True, store_db s2)"
    "r2 = None \<Longrightarrow> k2 = length ds"
    using ApplyDecisions_prefix [of ds E dev t "sleep (100 * millisecond) s1"] 2 by auto
  obtain k3 where k3: "pg_apply E dev t (take k3 ds) (store_db s2) = (True, store_db s3)"
    "r3 = None \<Longrightarrow> k3 = length ds"
    using ApplyDecisions_prefix [of ds E dev t "sleep (200 * millisecond) s2"] 3 by auto
  show ?thesis
  proof (cases r1)
    case None
    with k1 1 show ?thesis
      by (intro exI [of _ 0] exI [of _ 0] exI [of _ "length ds"]) (simp add: retry_unfold)
  next
    case r1: (Some e1)
    show ?thesis
    proof (cases r2)
      case None
      with r1 k1 k2 1 2 show ?thesis
        by (intro exI [of _ 0] exI [of _ k1] exI [of _ "length ds"]) (simp add: retry_unfold)
    next
      case (Some e2)
      with r1 k1 k2 k3 1 2 3 show ?thesis
        by (intro exI [of _ k1] exI [of _ k2] exI [of _ k3]) (cases r3; simp add: retry_unfold)
    qed
  qed
qed

lemma ApplyDecisions_Fail_first:
  assumes "rd_Decision (hd ds) \<noteq> NoAction" "ds \<noteq> []" "w_faults (st_world s) = Fail m # fs"
  shows "ApplyDecisions E dev ds t s =
    (Some (decision_error (hd ds) (ClientErr m)), s\<lparr>st_world := (st_world s)\<lparr>w_faults := fs\<rparr>\<rparr>)"
  using assms by (cases ds) (simp_all add: ApplyDecisions_act run_stmt_def next_fault_def)

text \<open>Auto-resolving the alerts of a set of rules in one go.\<close>

definition resolve_set :: "string set \<Rightarrow> time \<Rightarrow> pgdb \<Rightarrow> pgdb" where
  "resolve_set A t db = update_alerts (\<lambda>a. al_AlertRuleID a \<in> A \<and> is_active a) (auto_resolved t) db"

lemma resolve_set_union: "resolve_set A t (resolve_set B t db) = resolve_set (A \<union> B) t db"
proof -
  have "(\<lambda>a. if al_AlertRuleID a \<in> A \<and> is_active a then auto_resolved t a else a) \<circ>
      (\<lambda>a. if al_AlertRuleID a \<in> B \<and> is_active a then auto_resolved t a else a) =
    (\<lambda>a. if al_AlertRuleID a \<in> A \<union> B \<and> is_active a then auto_resolved t a else a)"
    by (auto intro!: ext)
  then show ?thesis by (simp add: resolve_set_def update_alerts_def)
qed

lemma pg_resolve_set: "pg_known E r \<Longrightarrow> pg_resolve E t r db = Some (resolve_set {rule_ID r} t db)"
  by (simp add: pg_resolve_def stmt_auto_resolve_def pg_known_def resolve_set_def is_active_def)

lemma pg_apply_resolves:
  "(\<And>d. d \<in> set ds \<Longrightarrow> rd_Decision d = AutoResolve \<and> pg_known E (rd_Rule d)) \<Longrightarrow>
   pg_apply E dev t ds db = (True, resolve_set ((\<lambda>d. rule_ID (rd_Rule d)) ` set ds) t db)"
proof (induction ds arbitrary: db)
  case Nil
  show ?case by (simp add: resolve_set_def update_alerts_def)
next
  case (Cons d ds)
  then have "pg_apply E dev t (d # ds) db = pg_apply E dev t ds (resolve_set {rule_ID (rd_Rule d)} t db)"
    by (simp add: apply_all.simps pg_resolve_set)
  with Cons show ?case by (simp add: resolve_set_union)
qed

subsection \<open>Properties\<close>

text \<open>C11: The retry is bounded: it sleeps 100 ms and then 200 ms at most, reports an error only after
  three failed attempts and both pauses, and otherwise reports success; telemetry and the
  last-seen cache are never touched.\<close>

theorem retry_is_bounded:
  "case applyDecisionsWithRetry E dev ds t s of (r, s') \<Rightarrow>
     (case r of
        None \<Rightarrow> \<exists>k \<le> 2. w_slept (st_world s') = w_slept (st_world s) @ take k [100 * millisecond, 200 * millisecond]
      | Some e \<Rightarrow> w_slept (st_world s') = w_slept (st_world s) @ [100 * millisecond, 200 * millisecond] \<and>
          (\<exists>e'. e = ApplyAfter 3 e')) \<and>
     w_telemetry (st_world s') = w_telemetry (st_world s) \<and> st_lastSeenSent s' = st_lastSeenSent s"
proof -
  obtain r1 s1 where 1: "ApplyDecisions E dev ds t s = (r1, s1)" by force
  obtain r2 s2 where 2: "ApplyDecisions E dev ds t (sleep (100 * millisecond) s1) = (r2, s2)" by force
  obtain r3 s3 where 3: "ApplyDecisions E dev ds t (sleep (200 * millisecond) s2) = (r3, s3)" by force
  note frames = ApplyDecisions_frame [of E dev ds t s] ApplyDecisions_frame [of E dev ds t "sleep (100 * millisecond) s1"]
    ApplyDecisions_frame [of E dev ds t "sleep (200 * millisecond) s2"]
  have k: "\<exists>k \<le> 2. xs = take k xs \<and> take k xs = take k [a, b]" if "xs \<in> {[], [a], [a, b]}" for xs and a b :: duration
    using that by (auto intro: exI [of _ "0::nat"] exI [of _ "1::nat"] exI [of _ "2::nat"])
  show ?thesis
    using frames 1 2 3 k [of "[]"] k [of "[100 * millisecond]" "100 * millisecond"]
    by (cases r1; cases r2; cases r3) (auto simp: retry_unfold intro: exI [of _ "2::nat"] exI [of _ "1::nat"] exI [of _ "0::nat"])
qed

text \<open>C20: The retry masks failures at the first statement of an attempt: if at most two attempts fail,
  each at its first statement and without effect, no later statement fails and the decisions can be
  applied, then the retry reports success, the database is exactly what one undisturbed pass
  produces, and it has slept once per failed attempt, 100 ms and then 200 ms.\<close>

theorem retry_masks_clean_failures:
  assumes "w_faults (st_world s) = map Fail ms" and "length ms \<le> 2"
    and "ds \<noteq> []" and "rd_Decision (hd ds) \<noteq> NoAction" and "fst (pg_apply E dev t ds (store_db s))"
  shows "fst (applyDecisionsWithRetry E dev ds t s) = None \<and>
    store_db (snd (applyDecisionsWithRetry E dev ds t s)) = snd (pg_apply E dev t ds (store_db s)) \<and>
    w_slept (st_world (snd (applyDecisionsWithRetry E dev ds t s))) =
      w_slept (st_world s) @ take (length ms) [100 * millisecond, 200 * millisecond]"
proof -
  have pass: "fst (ApplyDecisions E dev ds t s') = None \<and>
      store_db (snd (ApplyDecisions E dev ds t s')) = snd (pg_apply E dev t ds (store_db s))"
    if "w_faults (st_world s') = []" "store_db s' = store_db s" for s'
    using ApplyDecisions_no_fault [OF that(1), of E dev ds t] that(2) assms(5) by simp
  have slept: "w_slept (st_world b) = w_slept (st_world s')" if "ApplyDecisions E dev ds t s' = (r, b)" for s' r b
    using ApplyDecisions_frame [of E dev ds t s'] unfolding that by simp
  consider "ms = []" | m where "ms = [m]" | m n where "ms = [m, n]"
    using assms(2) by (cases ms; cases "tl ms"; cases "tl (tl ms)") auto
  then show ?thesis
  proof cases
    case 1
    with pass [of s] assms(1) show ?thesis
      by (cases "ApplyDecisions E dev ds t s") (simp add: retry_unfold slept)
  next
    case (2 m)
    let ?s = "sleep (100 * millisecond) (s\<lparr>st_world := (st_world s)\<lparr>w_faults := []\<rparr>\<rparr>)"
    from 2 assms pass [of ?s] show ?thesis
      by (cases "ApplyDecisions E dev ds t ?s") (simp add: retry_unfold ApplyDecisions_Fail_first slept)
  next
    case (3 m n)
    let ?s1 = "sleep (100 * millisecond) (s\<lparr>st_world := (st_world s)\<lparr>w_faults := [Fail n]\<rparr>\<rparr>)"
    let ?s = "sleep (200 * millisecond) (?s1\<lparr>st_world := (st_world ?s1)\<lparr>w_faults := []\<rparr>\<rparr>)"
    from 3 assms pass [of ?s] show ?thesis
      by (cases "ApplyDecisions E dev ds t ?s") (simp add: retry_unfold ApplyDecisions_Fail_first slept)
  qed
qed

theorem retry_masks_clean_failures_witness:
  "fst (applyDecisionsWithRetry demo_env ''d1'' [demo_create ''r1''] 5 (demo_store [Fail ''x'', Fail ''y''])) = None \<and>
   w_slept (st_world (snd (applyDecisionsWithRetry demo_env ''d1'' [demo_create ''r1''] 5 (demo_store [Fail ''x'', Fail ''y''])))) =
     [100 * millisecond, 200 * millisecond]"
proof -
  have "fst (pg_apply demo_env ''d1'' 5 [demo_create ''r1''] demo_db)"
    by (simp add: apply_all.simps demo_create_def rule_of_row_def demo_rule_row_def pg_create_def
        stmt_insert_alert_def demo_env_def demo_db_def severities_def)
  then show ?thesis
    using retry_masks_clean_failures [of "demo_store [Fail ''x'', Fail ''y'']" "[''x'', ''y'']"
        "[demo_create ''r1'']" demo_env "''d1''" 5]
    by (simp add: demo_store_def NewStore_def demo_create_def)
qed

text \<open>Retrying is safe for auto-resolves: if all decisions are auto-resolves, then under any faults
  a reported success leaves exactly the database one undisturbed pass produces, no matter which
  statements of earlier attempts had already taken effect.\<close>

theorem retry_idempotent_for_resolves:
  assumes "\<forall>d \<in> set ds. rd_Decision d = AutoResolve \<and> pg_known E (rd_Rule d)"
    and "fst (applyDecisionsWithRetry E dev ds t s) = None"
  shows "store_db (snd (applyDecisionsWithRetry E dev ds t s)) = snd (pg_apply E dev t ds (store_db s))"
proof -
  let ?ids = "\<lambda>ds. (\<lambda>d. rule_ID (rd_Rule d)) ` set ds"
  have res: "pg_apply E dev t (take k ds) db = (True, resolve_set (?ids (take k ds)) t db)" for k db
    using assms(1) by (intro pg_apply_resolves) (auto dest: in_set_takeD)
  have full: "pg_apply E dev t ds db = (True, resolve_set (?ids ds) t db)" for db
    using res [of "length ds"] by simp
  obtain k1 k2 k3 where
    db: "store_db (snd (applyDecisionsWithRetry E dev ds t s)) =
       snd (pg_apply E dev t (take k3 ds) (snd (pg_apply E dev t (take k2 ds)
         (snd (pg_apply E dev t (take k1 ds) (store_db s))))))"
    and k3: "fst (applyDecisionsWithRetry E dev ds t s) = None \<longrightarrow> k3 = length ds"
    using retry_passes [of E dev ds t s] by (elim exE conjE)
  have "?ids ds \<union> ?ids (take k2 ds) \<union> ?ids (take k1 ds) = ?ids ds"
    by (auto dest: in_set_takeD)
  with db k3 assms(2) show ?thesis
    by (simp add: res full resolve_set_union Un_assoc)
qed

definition demo_resolve :: "string \<Rightarrow> RuleDecision" where
  "demo_resolve i = (demo_create i)\<lparr>rd_Decision := AutoResolve\<rparr>"

definition demo_alert :: "string \<Rightarrow> Alert" where
  "demo_alert i = new_alert (''a-'' @ i) i ''d1'' (Finite 33) ''warning'' 1000"

definition demo_alert_store :: "fault list \<Rightarrow> Store" where
  "demo_alert_store fs = NewStore \<lparr>w_db = demo_db\<lparr>alerts := [demo_alert ''r1'', demo_alert ''r2'']\<rparr>,
     w_telemetry = [], w_faults = fs, w_slept = []\<rparr>"

theorem retry_idempotent_for_resolves_witness:
  "store_db (snd (applyDecisionsWithRetry demo_env ''d1'' [demo_resolve ''r1'', demo_resolve ''r2''] 5
      (demo_alert_store [Lost ''x'']))) =
   snd (pg_apply demo_env ''d1'' 5 [demo_resolve ''r1'', demo_resolve ''r2''] (store_db (demo_alert_store [])))"
proof -
  let ?ds = "[demo_resolve ''r1'', demo_resolve ''r2'']"
  have "fst (applyDecisionsWithRetry demo_env ''d1'' ?ds 5 (demo_alert_store [Lost ''x''])) = None"
    by (simp add: retry_unfold ApplyDecisions_act run_stmt_def next_fault_def decision_stmt_def
        demo_alert_store_def NewStore_def demo_resolve_def demo_create_def stmt_auto_resolve_def
        rule_of_row_def demo_rule_row_def demo_env_def sleep_def)
  then show ?thesis
    using retry_idempotent_for_resolves [of ?ds demo_env "''d1''" 5 "demo_alert_store [Lost ''x'']"]
    by (simp add: demo_resolve_def demo_create_def rule_of_row_def demo_rule_row_def pg_known_def demo_env_def
        demo_alert_store_def NewStore_def)
qed

text \<open>C21: Retrying is not safe for creates. There is no transaction around a pass, so when the second
  of two inserts fails after the first was committed, the next attempt inserts the first alert
  again: the retry reports success and the rule has gained two active alerts.\<close>

theorem retry_duplicates_created_alert:
  assumes "w_faults (st_world s) = [Ok, Fail m]"
    and "pg_known E (rd_Rule c)" "rd_Decision c = CreateAlert"
    and "pg_known E (rd_Rule d)" "rd_Decision d = CreateAlert" "rule_ID (rd_Rule d) \<noteq> rule_ID (rd_Rule c)"
    and "pg_create E dev t (rd_Rule c) (rd_Value c) (store_db s) = Some db1"
    and "fst (pg_apply E dev t [c, d] db1)"
  shows "fst (applyDecisionsWithRetry E dev [c, d] t s) = None \<and>
    active_count (rule_ID (rd_Rule c)) (store_db (snd (applyDecisionsWithRetry E dev [c, d] t s))) =
      active_count (rule_ID (rd_Rule c)) (store_db s) + 2"
proof -
  let ?w1 = "(st_world s)\<lparr>w_faults := [], w_db := db1\<rparr>"
  let ?i = "rule_ID (rd_Rule c)"
  have "decision_stmt E dev t c (store_db s) = Inr ((), db1)"
    using assms(3,7) by (simp add: decision_stmt_def pg_create_def committed_Some)
  then have first: "ApplyDecisions E dev [c, d] t s = (Some (decision_error d (ClientErr m)), s\<lparr>st_world := ?w1\<rparr>)"
    using assms(1,3,5) by (simp add: ApplyDecisions_act run_stmt_def next_fault_def)
  let ?s1 = "sleep (100 * millisecond) (s\<lparr>st_world := ?w1\<rparr>)"
  have second: "fst (ApplyDecisions E dev [c, d] t ?s1) = None"
    "store_db (snd (ApplyDecisions E dev [c, d] t ?s1)) = snd (pg_apply E dev t [c, d] db1)"
    using ApplyDecisions_no_fault [of ?s1 E dev "[c, d]" t] assms(8) by simp_all
  obtain db2 db3 where db2: "pg_create E dev t (rd_Rule c) (rd_Value c) db1 = Some db2"
    and db3: "pg_create E dev t (rd_Rule d) (rd_Value d) db2 = Some db3"
    and "snd (pg_apply E dev t [c, d] db1) = db3"
    using assms(3,5,8) by (auto simp: apply_all.simps split: option.splits)
  moreover have "active_count ?i db3 = active_count ?i (store_db s) + 2"
    using pg_sink.create_active [OF assms(2,7), of ?i] pg_sink.create_active [OF assms(2) db2, of ?i]
      pg_sink.create_active [OF assms(4) db3, of ?i] assms(6) by simp
  ultimately show ?thesis
    using second first by (cases "ApplyDecisions E dev [c, d] t ?s1") (simp add: retry_unfold)
qed

theorem retry_duplicates_created_alert_witness:
  "active_count ''r1'' (store_db (snd (applyDecisionsWithRetry demo_env ''d1''
     [demo_create ''r1'', demo_create ''r2''] 5 (demo_store [Ok, Fail ''x''])))) = 2"
proof -
  note defs = demo_create_def rule_of_row_def demo_rule_row_def pg_create_def stmt_insert_alert_def
    demo_env_def demo_db_def severities_def demo_store_def NewStore_def pg_known_def
  obtain db1 where db1: "pg_create demo_env ''d1'' 5 (rd_Rule (demo_create ''r1'')) (rd_Value (demo_create ''r1'')) demo_db = Some db1"
    by (simp add: defs)
  have "fst (pg_apply demo_env ''d1'' 5 [demo_create ''r1'', demo_create ''r2''] db1)"
    using db1 by (auto simp: defs apply_all.simps new_alert_def)
  with db1 show ?thesis
    using retry_duplicates_created_alert [of "demo_store [Ok, Fail ''x'']" "''x''" demo_env "demo_create ''r1''"
        "demo_create ''r2''" "''d1''" 5 db1]
    by (simp add: demo_store_def NewStore_def demo_create_def rule_of_row_def demo_rule_row_def pg_known_def
        demo_env_def) (simp add: active_count_def demo_db_def)
qed

end
