(* ===== verification/Ingest_Decide.thy ===== *)
theory Ingest_Decide
  imports Ingest_Apply
begin

text \<open>
  Deciding for one device: what the two load queries return, which decisions the tracker reaches
  on them, and that these decisions can all be applied and have exactly the intended effect on the
  device's active alerts. These lemmas carry the proofs about \<open>process\<close> and about the worker pool.
\<close>

subsection \<open>Fresh ids and applicable decisions\<close>

text \<open>The decision is for a rule of device \<open>u\<close> that is in the database.\<close>

definition decision_ok :: "string \<Rightarrow> pgdb \<Rightarrow> RuleDecision \<Rightarrow> bool" where
  "decision_ok u db d \<longleftrightarrow> rule_Severity (rd_Rule d) \<in> set severities \<and>
     (\<exists>row \<in> set (alert_rules db). ar_ID row = rule_ID (rd_Rule d) \<and> ar_DeviceID row = u)"

lemma db_ok_rule_row:
  "db_ok E db \<Longrightarrow> r \<in> set (alert_rules db) \<Longrightarrow>
   uuid_parse E (ar_ID r) = Some (ar_ID r) \<and> ar_DeviceID r \<in> dev_ID ` set (devices db) \<and> ar_Severity r \<in> set severities"
  by (auto simp: db_ok_def schema_ok_def list_all_iff rule_row_ok_def all_ids_def)

lemma db_ok_rules_distinct: "db_ok E db \<Longrightarrow> distinct (map ar_ID (alert_rules db))"
  by (simp add: db_ok_def schema_ok_def)

lemma decision_ok_known: "db_ok E db \<Longrightarrow> decision_ok u db d \<Longrightarrow> pg_known E (rd_Rule d)"
  using db_ok_rule_row by (fastforce simp: decision_ok_def pg_known_def)

lemma ids_fresh_insert:
  "ids_fresh E db \<Longrightarrow> al_ID a = gen_random_uuid E (uuids_drawn db) \<Longrightarrow>
   ids_fresh E (db\<lparr>alerts := alerts db @ [a], uuids_drawn := Suc (uuids_drawn db)\<rparr>)"
  by (auto simp: ids_fresh_def dest: injD)

lemma decision_stmt_ok:
  assumes E: "pgenv_ok E" and db: "db_ok E db" and fresh: "ids_fresh E db"
    and dev: "uuid_parse E dev = Some u" and d: "decision_ok u db d"
  shows "\<exists>db'. decision_stmt E dev t d db = Inr ((), db') \<and> db_ok E db' \<and> ids_fresh E db' \<and>
    alert_rules db' = alert_rules db \<and> devices db' = devices db"
proof -
  from d obtain row where row: "row \<in> set (alert_rules db)" "ar_ID row = rule_ID (rd_Rule d)" "ar_DeviceID row = u"
    and sev: "rule_Severity (rd_Rule d) \<in> set severities" by (auto simp: decision_ok_def)
  from decision_ok_known [OF db d] have known: "uuid_parse E (rule_ID (rd_Rule d)) = Some (rule_ID (rd_Rule d))"
    by (simp add: pg_known_def)
  show ?thesis
  proof (cases "rd_Decision d")
    case NoAction
    with db fresh show ?thesis by (simp add: decision_stmt_def)
  next
    case AutoResolve
    let ?db = "update_alerts (\<lambda>a. al_AlertRuleID a = rule_ID (rd_Rule d) \<and>
      al_Status a \<in> {''open'', ''acknowledged''}) (auto_resolved t) db"
    have s: "stmt_auto_resolve E t (rule_ID (rd_Rule d)) db = Inr ((), ?db)"
      by (simp add: stmt_auto_resolve_def known)
    have "ids_fresh E ?db" using fresh by (simp add: ids_fresh_update_alerts auto_resolved_def)
    with s stmt_auto_resolve_ok(2) [OF s db] AutoResolve show ?thesis by (simp add: decision_stmt_def)
  next
    case CreateAlert
    let ?i = "gen_random_uuid E (uuids_drawn db)"
    let ?a = "new_alert ?i (rule_ID (rd_Rule d)) u (rd_Value d) (rule_Severity (rd_Rule d)) t"
    let ?db = "db\<lparr>alerts := alerts db @ [?a], uuids_drawn := Suc (uuids_drawn db)\<rparr>"
    have "?i \<notin> al_ID ` set (alerts db)" using fresh by (simp add: ids_fresh_def)
    moreover have "rule_ID (rd_Rule d) \<in> ar_ID ` set (alert_rules db)" using row by force
    moreover have "u \<in> dev_ID ` set (devices db)" using db_ok_rule_row [OF db row(1)] row(3) by simp
    ultimately have s: "stmt_insert_alert E (rule_ID (rd_Rule d)) dev (rd_Value d) (rule_Severity (rd_Rule d)) t db =
      Inr ((), ?db)" using known dev sev by (simp add: stmt_insert_alert_Inr)
    have "db_ok E ?db"
    proof (rule stmt_insert_alert_ok [OF E db s])
      fix row' r assume "uuid_parse E (rule_ID (rd_Rule d)) = Some r" "row' \<in> set (alert_rules db)" "ar_ID row' = r"
      with known row have "row' = row" using distinct_map_eqD [OF db_ok_rules_distinct [OF db]] by simp
      with dev row show "uuid_parse E dev = Some (ar_DeviceID row')" by simp
    qed
    moreover have "ids_fresh E ?db" using fresh by (rule ids_fresh_insert) (simp add: new_alert_def)
    ultimately show ?thesis using s CreateAlert by (simp add: decision_stmt_def)
  qed
qed

lemma decision_ok_cong: "alert_rules db' = alert_rules db \<Longrightarrow> decision_ok u db' = decision_ok u db"
  by (intro ext) (simp add: decision_ok_def)

lemma pg_apply_ok:
  assumes "pgenv_ok E" "db_ok E db" "ids_fresh E db" "uuid_parse E dev = Some u" "\<forall>d \<in> set ds. decision_ok u db d"
  shows "fst (pg_apply E dev t ds db) \<and> db_ok E (snd (pg_apply E dev t ds db)) \<and>
    ids_fresh E (snd (pg_apply E dev t ds db)) \<and> alert_rules (snd (pg_apply E dev t ds db)) = alert_rules db \<and>
    devices (snd (pg_apply E dev t ds db)) = devices db"
  using assms(2,3,5)
proof (induction ds arbitrary: db)
  case (Cons d ds)
  obtain db' where db': "decision_stmt E dev t d db = Inr ((), db')" "db_ok E db'" "ids_fresh E db'"
    "alert_rules db' = alert_rules db" "devices db' = devices db"
    using decision_stmt_ok [OF assms(1) Cons.prems(1,2) assms(4)] Cons.prems(3) by (meson list.set_intros(1))
  with Cons.IH [of db'] Cons.prems(3) decision_ok_cong [of db' db u] show ?case
    by (simp add: pg_apply_Cons)
qed simp

subsection \<open>What the load queries return\<close>

definition enabled_rules :: "pgenv \<Rightarrow> string \<Rightarrow> pgdb \<Rightarrow> Rule list" where
  "enabled_rules E u db =
     map rule_of_row (filter (\<lambda>r. ar_DeviceID r = u \<and> ar_Enabled r) (in_scan_order E (alert_rules db)))"

definition active_ids :: "pgenv \<Rightarrow> string \<Rightarrow> pgdb \<Rightarrow> id_set" where
  "active_ids E u db = id_set_of (map al_AlertRuleID
     (filter (\<lambda>a. al_DeviceID a = u \<and> al_Status a \<in> {''open'', ''acknowledged''}) (in_scan_order E (alerts db))))"

lemma Load_frames [simp]:
  "store_db (snd (LoadEnabledRules E dev s)) = store_db s"
  "w_telemetry (st_world (snd (LoadEnabledRules E dev s))) = w_telemetry (st_world s)"
  "st_lastSeenSent (snd (LoadEnabledRules E dev s)) = st_lastSeenSent s"
  "store_db (snd (LoadActiveRuleIDs E dev s)) = store_db s"
  "w_telemetry (st_world (snd (LoadActiveRuleIDs E dev s))) = w_telemetry (st_world s)"
  "st_lastSeenSent (snd (LoadActiveRuleIDs E dev s)) = st_lastSeenSent s"
  by (simp_all add: LoadEnabledRules_def LoadActiveRuleIDs_def Let_def split_beta)

lemma LoadEnabledRules_no_fault:
  "w_faults (st_world s) = [] \<Longrightarrow> uuid_parse E dev = Some u \<Longrightarrow>
   LoadEnabledRules E dev s = (Inr (enabled_rules E u (store_db s)), s)"
  by (simp add: LoadEnabledRules_def run_query_no_fault query_enabled_rules_def enabled_rules_def)

lemma LoadActiveRuleIDs_no_fault:
  "w_faults (st_world s) = [] \<Longrightarrow> uuid_parse E dev = Some u \<Longrightarrow>
   LoadActiveRuleIDs E dev s = (Inr (active_ids E u (store_db s)), s)"
  by (simp add: LoadActiveRuleIDs_def run_query_no_fault query_active_rule_ids_def active_ids_def)

text \<open>Under any faults, a load that reports success returned the complete answer.\<close>

lemma LoadEnabledRules_complete:
  "fst (LoadEnabledRules E dev s) = Inr rules \<Longrightarrow>
   \<exists>u. uuid_parse E dev = Some u \<and> rules = enabled_rules E u (store_db s)"
  by (auto simp: LoadEnabledRules_def query_enabled_rules_def enabled_rules_def Let_def split_beta
      dest!: scan_rows_complete run_query_complete split: sum.splits option.splits)

lemma LoadActiveRuleIDs_complete:
  "fst (LoadActiveRuleIDs E dev s) = Inr act \<Longrightarrow>
   \<exists>u. uuid_parse E dev = Some u \<and> act = active_ids E u (store_db s)"
  by (auto simp: LoadActiveRuleIDs_def query_active_rule_ids_def active_ids_def Let_def split_beta
      dest!: scan_rows_complete run_query_complete split: sum.splits option.splits)

lemma fold_id_set: "map_get False (fold (\<lambda>i m. m(i \<mapsto> True)) ids m) i \<longleftrightarrow> i \<in> set ids \<or> map_get False m i"
  by (induction ids arbitrary: m) auto

lemma id_set_of_get: "map_get False (id_set_of ids) i \<longleftrightarrow> i \<in> set ids"
  by (simp add: id_set_of_def fold_id_set)

lemma active_ids_correct:
  assumes "pgenv_ok E" "db_ok E db" "r \<in> set (alert_rules db)" "ar_DeviceID r = u"
  shows "map_get False (active_ids E u db) (ar_ID r) \<longleftrightarrow> 0 < active_count (ar_ID r) db"
proof -
  have "al_DeviceID a = u" if "a \<in> set (alerts db)" "al_AlertRuleID a = ar_ID r" for a
    using assms(2-4) that by (auto simp: db_ok_def alert_devices_ok_def)
  then have "(\<exists>a \<in> set (alerts db). al_AlertRuleID a = ar_ID r \<and> P a) \<longleftrightarrow>
      ar_ID r \<in> al_AlertRuleID ` {a \<in> set (alerts db). al_DeviceID a = u \<and> P a}" for P
    unfolding image_iff mem_Collect_eq bex_simps by metis
  from this [of is_active] assms(1) show ?thesis by (simp add: active_ids_def id_set_of_get active_count_pos is_active_def)
qed

lemma enabled_rules_distinct: "pgenv_ok E \<Longrightarrow> db_ok E db \<Longrightarrow> distinct (map rule_ID (enabled_rules E u db))"
proof -
  assume E: "pgenv_ok E" and db: "db_ok E db"
  have "map rule_ID (enabled_rules E u db) =
    map ar_ID (filter (\<lambda>r. ar_DeviceID r = u \<and> ar_Enabled r) (in_scan_order E (alert_rules db)))"
    by (simp add: enabled_rules_def rule_of_row_def)
  then show ?thesis
    using db_ok_rules_distinct [OF db] distinct_map_in_scan_order [OF E, of ar_ID "alert_rules db"]
    by (simp add: distinct_map_filter)
qed

lemma enabled_rules_member:
  "pgenv_ok E \<Longrightarrow> q \<in> set (enabled_rules E u db) \<longleftrightarrow>
     (\<exists>r \<in> set (alert_rules db). ar_DeviceID r = u \<and> ar_Enabled r \<and> q = rule_of_row r)"
  by (auto simp: enabled_rules_def)

subsection \<open>The decisions reached and their effect\<close>

text \<open>The number of active alerts a rule should have after a reading, by the decision table.\<close>

definition target_active :: "Rule \<Rightarrow> readings \<Rightarrow> BreachState \<Rightarrow> int \<Rightarrow> nat \<Rightarrow> nat" where
  "target_active r rs streak n k =
     (case verdict r rs of None \<Rightarrow> k
      | Some trig \<Rightarrow> if n \<le> bs_Count (next_streak trig streak) then (if trig then 1 else 0) else k)"

lemma find_append_None: "List.find P xs = None \<Longrightarrow> List.find P (xs @ ys) = List.find P ys"
  by (induction xs) (auto split: if_splits)

lemma find_concat_distinct:
  assumes "distinct (map f xs)" "x \<in> set xs" "\<And>y d. y \<in> set xs \<Longrightarrow> d \<in> set (g y) \<Longrightarrow> k d = f y"
  shows "List.find (\<lambda>d. k d = f x) (concat (map g xs)) = (case g x of [] \<Rightarrow> None | d # _ \<Rightarrow> Some d)"
  using assms
proof (induction xs)
  case (Cons y xs)
  show ?case
  proof (cases "x = y")
    case True
    show ?thesis
    proof (cases "g x")
      case Nil
      have "k d \<noteq> f x" if "z \<in> set xs" "d \<in> set (g z)" for z d
        using Cons.prems(3) [of z d] that True distinct_map_ConsD [OF Cons.prems(1) that(1)] by simp
      then show ?thesis using True Nil by (auto simp: find_None_iff)
    next
      case (Cons d ds)
      with True Cons.prems(3) [of y d] show ?thesis by simp
    qed
  next
    case False
    then have x: "x \<in> set xs" using Cons.prems(2) by simp
    have "k d \<noteq> f x" if "d \<in> set (g y)" for d
      using Cons.prems(3) [of y d] that distinct_map_ConsD [OF Cons.prems(1) x] by simp
    then have "List.find (\<lambda>d. k d = f x) (g y) = None" by (auto simp: find_None_iff)
    with Cons x show ?thesis by (simp add: find_append_None)
  qed
qed simp

text \<open>The decisions for one device, given what was loaded for it.\<close>

abbreviation decisions_for :: "Rule list \<Rightarrow> readings \<Rightarrow> id_set \<Rightarrow> streak_map \<Rightarrow> int \<Rightarrow> RuleDecision list" where
  "decisions_for rules rs act st n \<equiv> concat (map (\<lambda>r. table_decisions r rs act st n) rules)"

lemma decisions_for_distinct:
  assumes "distinct (map rule_ID rules)"
  shows "distinct (map (\<lambda>d. rule_ID (rd_Rule d)) (decisions_for rules rs act st n))"
  using assms
proof (induction rules)
  case (Cons r rules)
  have one: "distinct (map (\<lambda>d. rule_ID (rd_Rule d)) (table_decisions r rs act st n))"
    by (simp add: table_decisions_def Let_def split: option.split)
  have "rule_ID (rd_Rule d) \<noteq> rule_ID (rd_Rule e)" if "d \<in> set (table_decisions r rs act st n)"
    "e \<in> set (decisions_for rules rs act st n)" for d e
    using that Cons.prems by (fastforce dest: table_decisions_rule)
  with one Cons show ?case by (auto simp: image_iff)
qed simp

lemma decisions_for_ok:
  assumes E: "pgenv_ok E" and db: "db_ok E db" and d: "d \<in> set (decisions_for (enabled_rules E u db) rs act st n)"
  shows "decision_ok u db d"
proof -
  from d obtain q where "q \<in> set (enabled_rules E u db)" "rd_Rule d = q" by (auto dest: table_decisions_rule)
  then obtain r where "r \<in> set (alert_rules db)" "ar_DeviceID r = u" "rd_Rule d = rule_of_row r"
    using enabled_rules_member [OF E] by auto
  with db_ok_rule_row [OF db] show ?thesis by (auto simp: decision_ok_def rule_of_row_def)
qed

lemma table_decisions_effect:
  "(case (case table_decisions r rs act st n of [] \<Rightarrow> None | d # _ \<Rightarrow> Some d) of None \<Rightarrow> k
    | Some d \<Rightarrow> (case rd_Decision d of CreateAlert \<Rightarrow> k + 1 | AutoResolve \<Rightarrow> 0 | NoAction \<Rightarrow> k)) =
   target_active r rs (map_get BreachState_zero st (rule_ID r)) n k"
  if "map_get False act (rule_ID r) \<longleftrightarrow> 0 < k" "k \<le> 1"
proof (cases "map_of rs (rule_Metric r)")
  case (Some v)
  with that show ?thesis
    by (auto simp: table_decisions_def target_active_def verdict_def Let_def decision_table_eq)
qed (simp add: table_decisions_def target_active_def verdict_def)

text \<open>Applying the decisions reached on a consistent view brings every rule to its target.\<close>

lemma decisions_for_others:
  assumes E: "pgenv_ok E" and db: "db_ok E db" and r: "r \<in> set (alert_rules db)" "\<not> (ar_DeviceID r = u \<and> ar_Enabled r)"
    and d: "d \<in> set (decisions_for (enabled_rules E u db) rs act st n)"
  shows "rule_ID (rd_Rule d) \<noteq> ar_ID r"
proof
  assume i: "rule_ID (rd_Rule d) = ar_ID r"
  from d obtain q where "q \<in> set (enabled_rules E u db)" "rd_Rule d = q" by (auto dest: table_decisions_rule)
  then obtain r' where r': "r' \<in> set (alert_rules db)" "ar_DeviceID r' = u" "ar_Enabled r'" "rd_Rule d = rule_of_row r'"
    using enabled_rules_member [OF E] by auto
  with i have "ar_ID r' = ar_ID r" by (simp add: rule_of_row_def)
  with r r' have "r' = r" using distinct_map_eqD [OF db_ok_rules_distinct [OF db]] by blast
  with r r' show False by simp
qed

lemma decisions_reach_target:
  assumes E: "pgenv_ok E" and db: "db_ok E db" and fresh: "ids_fresh E db" and one: "one_active db"
    and dev: "uuid_parse E dev = Some u" and r: "r \<in> set (alert_rules db)"
  shows "active_count (ar_ID r)
      (snd (pg_apply E dev t (decisions_for (enabled_rules E u db) rs (active_ids E u db) st n) db)) =
    (if ar_DeviceID r = u \<and> ar_Enabled r
     then target_active (rule_of_row r) rs (map_get BreachState_zero st (ar_ID r)) n (active_count (ar_ID r) db)
     else active_count (ar_ID r) db)"
proof -
  let ?rules = "enabled_rules E u db" and ?act = "active_ids E u db"
  let ?ds = "decisions_for ?rules rs ?act st n" and ?q = "rule_of_row r"
  have ok: "\<forall>d \<in> set ?ds. decision_ok u db d" using decisions_for_ok [OF E db] by blast
  have id: "rule_ID ?q = ar_ID r" by (simp add: rule_of_row_def)
  have eff: "active_count (ar_ID r) (snd (pg_apply E dev t ?ds db)) =
    (case List.find (\<lambda>d. rule_ID (rd_Rule d) = rule_ID ?q) ?ds of None \<Rightarrow> active_count (ar_ID r) db
     | Some d \<Rightarrow> (case rd_Decision d of CreateAlert \<Rightarrow> active_count (ar_ID r) db + 1
        | AutoResolve \<Rightarrow> 0 | NoAction \<Rightarrow> active_count (ar_ID r) db))"
    unfolding id
    by (rule pg_sink.apply_all_effect [OF decisions_for_distinct [OF enabled_rules_distinct [OF E db]]])
      (use ok decision_ok_known [OF db] pg_apply_ok [OF E db fresh dev ok] in auto)
  show ?thesis
  proof (cases "ar_DeviceID r = u \<and> ar_Enabled r")
    case True
    then have "?q \<in> set ?rules" using enabled_rules_member [OF E] r by blast
    then have "List.find (\<lambda>d. rule_ID (rd_Rule d) = rule_ID ?q) ?ds =
      (case table_decisions ?q rs ?act st n of [] \<Rightarrow> None | d # _ \<Rightarrow> Some d)"
      by (rule find_concat_distinct [OF enabled_rules_distinct [OF E db]]) (simp add: table_decisions_rule)
    moreover have "map_get False ?act (rule_ID ?q) \<longleftrightarrow> 0 < active_count (ar_ID r) db"
      using active_ids_correct [OF E db r] True id by simp
    moreover have "active_count (ar_ID r) db \<le> 1" using one by (simp add: one_active_def)
    ultimately show ?thesis using eff table_decisions_effect [of ?act ?q "active_count (ar_ID r) db" rs st n] True id
      by simp
  next
    case False
    have "rule_ID (rd_Rule d) \<noteq> ar_ID r" if d: "d \<in> set ?ds" for d
      by (rule decisions_for_others [OF E db r False d])
    then have "List.find (\<lambda>d. rule_ID (rd_Rule d) = rule_ID ?q) ?ds = None" by (auto simp: find_None_iff id)
    with eff False show ?thesis by auto
  qed
qed

subsection \<open>Properties\<close>

text \<open>The tracker creates an alert only for a rule the loaded set shows without one.\<close>

lemma table_decisions_create:
  "d \<in> set (table_decisions r rs act st n) \<Longrightarrow> rd_Decision d = CreateAlert \<Longrightarrow> \<not> map_get False act (rule_ID r)"
  by (auto simp: table_decisions_def Let_def split: option.splits if_splits elim!: decision_table.elims)

lemma decisions_for_create:
  assumes "pgenv_ok E" "db_ok E db"
    and "d \<in> set (decisions_for (enabled_rules E u db) rs (active_ids E u db) st n)" "rd_Decision d = CreateAlert"
  shows "active_count (rule_ID (rd_Rule d)) db = 0"
proof -
  from assms(3) obtain q where q: "q \<in> set (enabled_rules E u db)" "d \<in> set (table_decisions q rs (active_ids E u db) st n)"
    by auto
  then obtain r where r: "r \<in> set (alert_rules db)" "ar_DeviceID r = u" "q = rule_of_row r"
    using enabled_rules_member [OF assms(1)] by auto
  have "rd_Rule d = q" using q(2) by (rule table_decisions_rule)
  with r table_decisions_create [OF q(2) assms(4)] active_ids_correct [OF assms(1,2) r(1,2)] show ?thesis
    by (simp add: rule_of_row_def)
qed

text \<open>C19: One evaluation and one pass keep at most one active alert per rule. When the rules and the
  active alerts of a device have been loaded from a database and nobody else writes before the
  decisions the tracker reaches on them are applied, then after one pass of \<open>ApplyDecisions\<close> no rule
  has more than one active alert, whatever the readings and the streaks are, whichever statements
  of the pass fail, and whether or not a failed one had taken effect.\<close>

theorem single_pass_keeps_one_active:
  assumes "pgenv_ok E" and "db_ok E (store_db s)" and "one_active (store_db s)"
    and "LoadEnabledRules E dev s = (Inr rules, s1)" and "LoadActiveRuleIDs E dev s1 = (Inr act, s2)"
    and "tracker_Evaluate tr rules rs act n = (ds, tr')"
  shows "one_active (store_db (snd (ApplyDecisions E dev ds t s2)))"
proof -
  from assms(4) Load_frames(1) [of E dev s] have s1: "store_db s1 = store_db s" by simp
  from assms(5) Load_frames(4) [of E dev s1] s1 have s2: "store_db s2 = store_db s" by simp
  obtain u where u: "uuid_parse E dev = Some u" "rules = enabled_rules E u (store_db s)" "act = active_ids E u (store_db s)"
    using LoadEnabledRules_complete [of E dev s rules] LoadActiveRuleIDs_complete [of E dev s1 act] assms(4,5) s1 by auto
  note dist = enabled_rules_distinct [OF assms(1,2), of u]
  have ds: "ds = decisions_for rules rs act (tr_streaks tr) n"
    using tracker_Evaluate_decisions [of rules tr rs act n] dist assms(6) u(2) by simp
  show ?thesis
  proof (rule ApplyDecisions_one_active)
    show "distinct (map (\<lambda>d. rule_ID (rd_Rule d)) ds)" unfolding ds u(2) by (rule decisions_for_distinct [OF dist])
    show "\<forall>d \<in> set ds. pg_known E (rd_Rule d)"
      using decisions_for_ok [OF assms(1,2)] decision_ok_known [OF assms(2)] unfolding ds u(2) by blast
    show "\<forall>d \<in> set ds. rd_Decision d = CreateAlert \<longrightarrow> active_count (rule_ID (rd_Rule d)) (store_db s2) = 0"
      using decisions_for_create [OF assms(1,2)] unfolding ds u(2,3) s2 by blast
    show "one_active (store_db s2)" using assms(3) s2 by simp
  qed
qed

theorem single_pass_keeps_one_active_witness:
  "fst (tracker_Evaluate NewBreachTracker (map (\<lambda>i. rule_of_row (demo_rule_row i)) [''r1'', ''r2'']) [(''t'', Finite 33)] Map.empty 1) =
     [demo_create ''r1'', demo_create ''r2''] \<and>
   one_active (store_db (snd (ApplyDecisions demo_env ''d1'' [demo_create ''r1'', demo_create ''r2''] 5 (demo_store [Ok, Lost ''x'']))))"
proof -
  let ?s = "demo_store [Ok, Ok, Ok, Lost ''x'']" and ?s1 = "demo_store [Ok, Ok, Lost ''x'']" and ?s2 = "demo_store [Ok, Lost ''x'']"
  let ?rules = "map (\<lambda>i. rule_of_row (demo_rule_row i)) [''r1'', ''r2'']"
  have l1: "LoadEnabledRules demo_env ''d1'' ?s = (Inr ?rules, ?s1)"
    by (simp add: LoadEnabledRules_def run_query_def next_fault_def query_enabled_rules_def demo_store_def NewStore_def
        demo_env_def demo_db_def in_scan_order_def demo_rule_row_def scan_rows_def rows_Err_def)
  have l2: "LoadActiveRuleIDs demo_env ''d1'' ?s1 = (Inr Map.empty, ?s2)"
    by (simp add: LoadActiveRuleIDs_def run_query_def next_fault_def query_active_rule_ids_def demo_store_def NewStore_def
        demo_env_def demo_db_def in_scan_order_def id_set_of_def scan_rows_def rows_Err_def)
  have ev: "fst (tracker_Evaluate NewBreachTracker ?rules [(''t'', Finite 33)] Map.empty 1) = [demo_create ''r1'', demo_create ''r2'']"
    by code_simp
  then obtain tr' where tr': "tracker_Evaluate NewBreachTracker ?rules [(''t'', Finite 33)] Map.empty 1 = ([demo_create ''r1'', demo_create ''r2''], tr')"
    by (metis prod.collapse)
  have db: "store_db ?s = demo_db" by (simp add: demo_store_def NewStore_def)
  show ?thesis
    using ev single_pass_keeps_one_active [OF demo_env_ok _ _ l1 l2 tr', of 5] unfolding db by (simp add: demo_db_ok demo_one_active)
qed

end
