(* ===== verification/Ingest_Process.thy ===== *)
theory Ingest_Process
  imports Ingest_Decide Shared
begin

text \<open>
  \<open>ingestion/main.go\<close>: configuration, the bounded job queue between the MQTT callback and the
  workers, and \<open>process\<close>, which handles one message end to end. The theorems: a rejected message
  changes nothing, telemetry is durable before anything is evaluated, and an undisturbed
  \<open>process\<close> brings the alerts of the device exactly to what the decision table asks for.
\<close>

subsection \<open>Configuration\<close>

definition defaultWorkerCount :: int where "defaultWorkerCount = 4"
definition defaultQueueSize :: int where "defaultQueueSize = 256"
definition defaultDebounceBreaches :: int where "defaultDebounceBreaches = 3"

definition intFromEnv :: "env \<Rightarrow> string \<Rightarrow> int \<Rightarrow> int" where
  "intFromEnv getenv key fallback =
     (let raw = getenv key in
      if raw = [] then fallback
      else case Atoi raw of
          Inl _ \<Rightarrow> fallback
        | Inr n \<Rightarrow> if n \<le> 0 then fallback else n)"

record ingest_config =
  cf_metricsPort :: string
  cf_workerCount :: int
  cf_queueSize :: int
  cf_debounceN :: int

definition ingest_config_from_env :: "env \<Rightarrow> ingest_config" where
  "ingest_config_from_env getenv =
     \<lparr>cf_metricsPort = (let p = getenv ''INGESTION_PORT'' in if p = [] then ''8081'' else p),
      cf_workerCount = intFromEnv getenv ''INGESTION_WORKER_COUNT'' defaultWorkerCount,
      cf_queueSize = intFromEnv getenv ''INGESTION_QUEUE_SIZE'' defaultQueueSize,
      cf_debounceN = intFromEnv getenv ''ALERT_DEBOUNCE_BREACHES'' defaultDebounceBreaches\<rparr>"

subsection \<open>The service state\<close>

record job =
  job_topic :: string
  job_payload :: string

datatype process_error =
    ContractError contract_error
  | IdMismatch string string string string
  | StoreError store_error

datatype log_line =
    LogLastSeenFailed string string store_error
  | LogDecision string string string string float64
  | LogProcessFailed string process_error
  | LogQueueFull string

text \<open>
  What the goroutines of the service share: the store, the breach tracker, the four metrics of
  \<open>metrics.go\<close> and the log.
\<close>

record Service =
  sv_store :: Store
  sv_tracker :: BreachTracker
  sv_messagesReceived :: nat
  sv_messagesDropped :: nat
  sv_processingDuration :: "duration list"
  sv_alertDecisionsTotal :: "string \<Rightarrow> nat"
  sv_log :: "log_line list"

definition NewService :: "world \<Rightarrow> Service" where
  "NewService w =
     \<lparr>sv_store = NewStore w, sv_tracker = NewBreachTracker, sv_messagesReceived = 0,
      sv_messagesDropped = 0, sv_processingDuration = [], sv_alertDecisionsTotal = (\<lambda>_. 0), sv_log = []\<rparr>"

definition sv_logged :: "log_line \<Rightarrow> Service \<Rightarrow> Service" where
  "sv_logged l sv = sv\<lparr>sv_log := sv_log sv @ [l]\<rparr>"

subsection \<open>Processing one message\<close>

definition decisionLabel :: "Decision \<Rightarrow> string" where
  "decisionLabel d = (case d of CreateAlert \<Rightarrow> ''create'' | AutoResolve \<Rightarrow> ''auto_resolve'' | NoAction \<Rightarrow> ''none'')"

text \<open>The body of the loop over the decisions: one statement counts, the next one logs.\<close>

definition count_inc :: "RuleDecision \<Rightarrow> Service \<Rightarrow> Service" where
  "count_inc d sv =
     (let label = decisionLabel (rd_Decision d); n = sv_alertDecisionsTotal sv
      in sv\<lparr>sv_alertDecisionsTotal := n(label := n label + 1)\<rparr>)"

definition count_log :: "string \<Rightarrow> string \<Rightarrow> RuleDecision \<Rightarrow> Service \<Rightarrow> Service" where
  "count_log cid deviceID d sv =
     sv_logged (LogDecision cid deviceID (rule_ID (rd_Rule d)) (decisionLabel (rd_Decision d)) (rd_Value d)) sv"

fun count_decisions :: "string \<Rightarrow> string \<Rightarrow> RuleDecision list \<Rightarrow> Service \<Rightarrow> Service" where
  "count_decisions cid deviceID [] sv = sv"
| "count_decisions cid deviceID (d # ds) sv =
     count_decisions cid deviceID ds (count_log cid deviceID d (count_inc d sv))"

text \<open>The second half of \<open>process\<close>: load the rules and active alerts, evaluate, apply, count.\<close>

definition process_alerts ::
  "pgenv \<Rightarrow> int \<Rightarrow> string \<Rightarrow> TelemetryMessage \<Rightarrow> time \<Rightarrow> Service \<Rightarrow> process_error option \<times> Service" where
  "process_alerts E debounceN cid msg now sv =
     (case LoadEnabledRules E (tm_DeviceID msg) (sv_store sv) of
        (Inl e, s1) \<Rightarrow> (Some (StoreError e), sv\<lparr>sv_store := s1\<rparr>)
      | (Inr rules, s1) \<Rightarrow>
          if length rules = 0 then (None, sv\<lparr>sv_store := s1\<rparr>)
          else
            (case LoadActiveRuleIDs E (tm_DeviceID msg) s1 of
               (Inl e, s2) \<Rightarrow> (Some (StoreError e), sv\<lparr>sv_store := s2\<rparr>)
             | (Inr active, s2) \<Rightarrow>
                 let (decisions, tr) = tracker_Evaluate (sv_tracker sv) rules (tm_Readings msg) active debounceN;
                     sv2 = sv\<lparr>sv_store := s2, sv_tracker := tr\<rparr>
                 in if length decisions = 0 then (None, sv2)
                    else
                      (case applyDecisionsWithRetry E (tm_DeviceID msg) decisions now s2 of
                         (Some e, s3) \<Rightarrow> (Some (StoreError e), sv2\<lparr>sv_store := s3\<rparr>)
                       | (None, s3) \<Rightarrow>
                           (None, count_decisions cid (tm_DeviceID msg) decisions (sv2\<lparr>sv_store := s3\<rparr>)))))"

text \<open>The first half's outcome: what the topic and the payload say, or why the message is rejected.\<close>

definition check_message :: "codec \<Rightarrow> job \<Rightarrow> process_error + TelemetryMessage" where
  "check_message cd j =
     (case parseTopic (job_topic j) of
        Inl e \<Rightarrow> Inl (ContractError e)
      | Inr (siteID, deviceID) \<Rightarrow>
          (case parseTelemetryMessage cd (job_payload j) of
             Inl e \<Rightarrow> Inl (ContractError e)
           | Inr msg \<Rightarrow>
               if tm_SiteID msg \<noteq> siteID \<or> tm_DeviceID msg \<noteq> deviceID
               then Inl (IdMismatch (tm_SiteID msg) (tm_DeviceID msg) siteID deviceID)
               else Inr msg))"

text \<open>\<open>t\<close> is the clock when the document is stamped, \<open>now\<close> the clock after the write.\<close>

definition process ::
  "codec \<Rightarrow> pgenv \<Rightarrow> int \<Rightarrow> rand_source \<Rightarrow> time \<Rightarrow> time \<Rightarrow> job \<Rightarrow> Service \<Rightarrow> process_error option \<times> Service" where
  "process cd E debounceN rnd t now j sv =
     (let cid = NewCorrelationID rnd in
      case check_message cd j of
        Inl e \<Rightarrow> (Some e, sv)
      | Inr msg \<Rightarrow>
          (case WriteTelemetry msg t (sv_store sv) of
             (Some e, s1) \<Rightarrow> (Some (StoreError e), sv\<lparr>sv_store := s1\<rparr>)
           | (None, s1) \<Rightarrow>
               (case MaybeUpdateLastSeen E (tm_DeviceID msg) now s1 of
                  (None, s2) \<Rightarrow> process_alerts E debounceN cid msg now (sv\<lparr>sv_store := s2\<rparr>)
                | (Some e, s2) \<Rightarrow>
                    process_alerts E debounceN cid msg now
                      (sv_logged (LogLastSeenFailed cid (tm_DeviceID msg) e) (sv\<lparr>sv_store := s2\<rparr>)))))"

subsection \<open>The job queue and a worker\<close>

text \<open>A buffered channel of jobs: its capacity and its contents, oldest first.\<close>

record job_chan =
  ch_cap :: nat
  ch_buf :: "job list"

definition make_chan :: "int \<Rightarrow> job_chan" where
  "make_chan n = \<lparr>ch_cap = nat n, ch_buf = []\<rparr>"

definition chan_trySend :: "job \<Rightarrow> job_chan \<Rightarrow> job_chan option" where
  "chan_trySend j c = (if length (ch_buf c) < ch_cap c then Some (c\<lparr>ch_buf := ch_buf c @ [j]\<rparr>) else None)"

definition chan_recv :: "job_chan \<Rightarrow> (job \<times> job_chan) option" where
  "chan_recv c = (case ch_buf c of [] \<Rightarrow> None | j # js \<Rightarrow> Some (j, c\<lparr>ch_buf := js\<rparr>))"

text \<open>
  The subscription callback: its \<open>select\<close> queues the message or counts it as dropped, never blocking;
  a drop is then logged.
\<close>

definition on_message_select :: "string \<Rightarrow> string \<Rightarrow> job_chan \<times> Service \<Rightarrow> string option \<times> job_chan \<times> Service" where
  "on_message_select topic payload st =
     (case st of (c, sv) \<Rightarrow>
       (case chan_trySend \<lparr>job_topic = topic, job_payload = payload\<rparr> c of
          Some c' \<Rightarrow> (None, c', sv)
        | None \<Rightarrow> (Some topic, c, sv\<lparr>sv_messagesDropped := sv_messagesDropped sv + 1\<rparr>)))"

definition on_message_warn :: "string \<Rightarrow> Service \<Rightarrow> Service" where
  "on_message_warn topic sv = sv_logged (LogQueueFull topic) sv"

definition on_message :: "string \<Rightarrow> string \<Rightarrow> job_chan \<times> Service \<Rightarrow> job_chan \<times> Service" where
  "on_message topic payload st =
     (case on_message_select topic payload st of
        (None, c, sv) \<Rightarrow> (c, sv)
      | (Some dropped, c, sv) \<Rightarrow> (c, on_message_warn dropped sv))"

text \<open>One iteration of \<open>worker\<close> on a received job; the clock is read four times.\<close>

definition worker_iteration ::
  "codec \<Rightarrow> pgenv \<Rightarrow> int \<Rightarrow> rand_source \<Rightarrow> time \<times> time \<times> time \<times> time \<Rightarrow> job \<Rightarrow> Service \<Rightarrow> Service" where
  "worker_iteration cd E debounceN rnd clk j sv =
     (case clk of (start, t, now, stop) \<Rightarrow>
       (case process cd E debounceN rnd t now j (sv\<lparr>sv_messagesReceived := sv_messagesReceived sv + 1\<rparr>) of
          (err, sv1) \<Rightarrow>
            let sv2 = sv1\<lparr>sv_processingDuration := sv_processingDuration sv1 @ [time_Sub stop start]\<rparr>
            in (case err of None \<Rightarrow> sv2 | Some e \<Rightarrow> sv_logged (LogProcessFailed (job_topic j) e) sv2)))"

subsection \<open>Lemmas\<close>

abbreviation sv_db :: "Service \<Rightarrow> pgdb" where
  "sv_db sv \<equiv> store_db (sv_store sv)"

abbreviation sv_telemetry :: "Service \<Rightarrow> TelemetryDoc list" where
  "sv_telemetry sv \<equiv> w_telemetry (st_world (sv_store sv))"

lemma sv_logged_sel [simp]:
  "sv_store (sv_logged l sv) = sv_store sv" "sv_tracker (sv_logged l sv) = sv_tracker sv"
  "sv_messagesReceived (sv_logged l sv) = sv_messagesReceived sv"
  "sv_messagesDropped (sv_logged l sv) = sv_messagesDropped sv"
  "sv_log (sv_logged l sv) = sv_log sv @ [l]"
  by (simp_all add: sv_logged_def)

lemma count_step_sel [simp]:
  "sv_store (count_inc d sv) = sv_store sv" "sv_store (count_log cid dev d sv) = sv_store sv"
  "sv_tracker (count_inc d sv) = sv_tracker sv" "sv_tracker (count_log cid dev d sv) = sv_tracker sv"
  "sv_messagesReceived (count_inc d sv) = sv_messagesReceived sv" "sv_messagesReceived (count_log cid dev d sv) = sv_messagesReceived sv"
  "sv_messagesDropped (count_inc d sv) = sv_messagesDropped sv" "sv_messagesDropped (count_log cid dev d sv) = sv_messagesDropped sv"
  by (simp_all add: count_inc_def count_log_def Let_def)

lemma on_message_eq:
  "on_message topic payload (c, sv) =
     (case chan_trySend \<lparr>job_topic = topic, job_payload = payload\<rparr> c of
        Some c' \<Rightarrow> (c', sv)
      | None \<Rightarrow> (c, sv_logged (LogQueueFull topic) (sv\<lparr>sv_messagesDropped := sv_messagesDropped sv + 1\<rparr>)))"
  by (simp add: on_message_def on_message_select_def on_message_warn_def split: option.split)

lemma count_decisions_sel [simp]:
  "sv_store (count_decisions cid dev ds sv) = sv_store sv"
  "sv_tracker (count_decisions cid dev ds sv) = sv_tracker sv"
  "sv_messagesReceived (count_decisions cid dev ds sv) = sv_messagesReceived sv"
  "sv_messagesDropped (count_decisions cid dev ds sv) = sv_messagesDropped sv"
  by (induction cid dev ds sv rule: count_decisions.induct) simp_all

lemma retry_frame:
  "w_telemetry (st_world (snd (applyDecisionsWithRetry E dev ds t s))) = w_telemetry (st_world s)"
  "st_lastSeenSent (snd (applyDecisionsWithRetry E dev ds t s)) = st_lastSeenSent s"
  by (simp_all add: retry_unfold split_beta split: option.split prod.split)

lemma process_alerts_frame:
  "sv_telemetry (snd (process_alerts E n cid msg now sv)) = sv_telemetry sv \<and>
   st_lastSeenSent (sv_store (snd (process_alerts E n cid msg now sv))) = st_lastSeenSent (sv_store sv)"
proof -
  obtain r1 s1 where 1: "LoadEnabledRules E (tm_DeviceID msg) (sv_store sv) = (r1, s1)" by force
  obtain r2 s2 where 2: "LoadActiveRuleIDs E (tm_DeviceID msg) s1 = (r2, s2)" by force
  have a: "w_telemetry (st_world s1) = sv_telemetry sv" "st_lastSeenSent s1 = st_lastSeenSent (sv_store sv)"
    using Load_frames(2,3) [of E "tm_DeviceID msg" "sv_store sv"] 1 by simp_all
  have b: "w_telemetry (st_world s2) = sv_telemetry sv" "st_lastSeenSent s2 = st_lastSeenSent (sv_store sv)"
    using Load_frames(5,6) [of E "tm_DeviceID msg" s1] 2 a by simp_all
  have c: "w_telemetry (st_world s3) = sv_telemetry sv" "st_lastSeenSent s3 = st_lastSeenSent (sv_store sv)"
    if "applyDecisionsWithRetry E (tm_DeviceID msg) ds now s2 = (r, s3)" for ds r s3
    using retry_frame [of E "tm_DeviceID msg" ds now s2] that b by simp_all
  show ?thesis
    using 1 2 a b c by (auto simp: process_alerts_def Let_def split: sum.split prod.split option.split)
qed

lemma MaybeUpdateLastSeen_frame:
  "w_telemetry (st_world (snd (MaybeUpdateLastSeen E dev now s))) = w_telemetry (st_world s)"
  by (simp add: MaybeUpdateLastSeen_def Let_def split_beta)

lemma WriteTelemetry_cases:
  "WriteTelemetry msg t s = (r, s') \<Longrightarrow>
   store_db s' = store_db s \<and> st_lastSeenSent s' = st_lastSeenSent s \<and>
   (case r of None \<Rightarrow> w_telemetry (st_world s') = w_telemetry (st_world s) @ [telemetry_doc msg t]
    | Some e \<Rightarrow> (\<exists>m. e = MongoInsert m) \<and>
        w_telemetry (st_world s') \<in> {w_telemetry (st_world s), w_telemetry (st_world s) @ [telemetry_doc msg t]})"
  by (auto simp: WriteTelemetry_def Let_def dest!: next_faultD split: prod.splits fault.splits)

lemma check_message_Inr:
  "check_message cd j = Inr msg \<longleftrightarrow>
     parseTopic (job_topic j) = Inr (tm_SiteID msg, tm_DeviceID msg) \<and> parseTelemetryMessage cd (job_payload j) = Inr msg"
  by (auto simp: check_message_def split: sum.splits if_splits)

lemma WriteTelemetry_no_fault:
  "w_faults (st_world s) = [] \<Longrightarrow> WriteTelemetry msg t s =
     (None, s\<lparr>st_world := (st_world s)\<lparr>w_telemetry := w_telemetry (st_world s) @ [telemetry_doc msg t]\<rparr>\<rparr>)"
  by (simp add: WriteTelemetry_def)

lemma MaybeUpdateLastSeen_no_fault:
  assumes "w_faults (st_world s) = []" "uuid_parse E dev = Some u"
  shows "\<exists>s'. MaybeUpdateLastSeen E dev now s = (None, s') \<and> w_faults (st_world s') = [] \<and>
    (store_db s' = store_db s \<or> stmt_last_seen E dev now (store_db s) = Inr ((), store_db s'))"
proof (cases "last_seen_due dev now s")
  case True
  obtain db' where "stmt_last_seen E dev now (store_db s) = Inr ((), db')"
    using assms(2) by (simp add: stmt_last_seen_def)
  with True assms(1) show ?thesis by (simp add: MaybeUpdateLastSeen_def run_stmt_no_fault)
qed (use assms in \<open>simp add: MaybeUpdateLastSeen_def\<close>)

lemma retry_no_fault:
  assumes "w_faults (st_world s) = []" "fst (pg_apply E dev t ds (store_db s))"
  shows "\<exists>s'. applyDecisionsWithRetry E dev ds t s = (None, s') \<and> store_db s' = snd (pg_apply E dev t ds (store_db s)) \<and>
    w_faults (st_world s') = []"
  using ApplyDecisions_no_fault [OF assms(1), of E dev ds t] assms
  by (cases "ApplyDecisions E dev ds t s") (simp add: retry_unfold)

text \<open>Alert evaluation without faults: success, and the database the decisions produce.\<close>

lemma process_alerts_no_fault:
  assumes E: "pgenv_ok E" and db: "db_ok E (sv_db sv)" and fresh: "ids_fresh E (sv_db sv)"
    and nf: "w_faults (st_world (sv_store sv)) = []" and dev: "uuid_parse E (tm_DeviceID msg) = Some u"
    and ds_def: "ds = decisions_for (enabled_rules E u (sv_db sv)) (tm_Readings msg) (active_ids E u (sv_db sv))
    (tr_streaks (sv_tracker sv)) n"
  shows "fst (process_alerts E n cid msg now sv) = None \<and>
    sv_db (snd (process_alerts E n cid msg now sv)) = snd (pg_apply E (tm_DeviceID msg) now ds (sv_db sv)) \<and>
    w_faults (st_world (sv_store (snd (process_alerts E n cid msg now sv)))) = []"
proof -
  let ?rules = "enabled_rules E u (sv_db sv)" and ?act = "active_ids E u (sv_db sv)"
  obtain ds' tr where ev: "tracker_Evaluate (sv_tracker sv) ?rules (tm_Readings msg) ?act n = (ds', tr)" by force
  have ds': "ds' = ds"
    using tracker_Evaluate_decisions [OF enabled_rules_distinct [OF E db], of "sv_tracker sv" u "tm_Readings msg" ?act n] ev
    by (simp add: ds_def)
  have "\<forall>d \<in> set ds. decision_ok u (sv_db sv) d" unfolding ds_def using decisions_for_ok [OF E db] by blast
  then have "fst (pg_apply E (tm_DeviceID msg) now ds (sv_db sv))"
    using pg_apply_ok [OF E db fresh dev] by blast
  from retry_no_fault [OF nf this] obtain s' where
    "applyDecisionsWithRetry E (tm_DeviceID msg) ds now (sv_store sv) = (None, s')"
    "store_db s' = snd (pg_apply E (tm_DeviceID msg) now ds (sv_db sv))" "w_faults (st_world s') = []" by blast
  moreover have "ds = []" if "?rules = []" using that by (simp add: ds_def)
  ultimately show ?thesis
    using nf ev ds' LoadEnabledRules_no_fault [OF nf dev] LoadActiveRuleIDs_no_fault [OF nf dev]
    by (auto simp: process_alerts_def Let_def)
qed

lemma one_active_rules:
  assumes "db_ok E db" "\<And>r. r \<in> set (alert_rules db) \<Longrightarrow> active_count (ar_ID r) db \<le> 1"
  shows "one_active db"
proof -
  have "active_count i db = 0" if "i \<notin> ar_ID ` set (alert_rules db)" for i
    using that assms(1) active_count_pos [of i db]
    by (auto simp: db_ok_def schema_ok_def list_all_iff alert_row_ok_def)
  then show ?thesis using assms(2) unfolding one_active_def by (metis image_iff zero_le)
qed

lemma target_active_le_1: "k \<le> 1 \<Longrightarrow> target_active r rs st n k \<le> 1"
  by (simp add: target_active_def split: option.split)

subsection \<open>Properties\<close>

text \<open>C22: A message is accepted exactly when its topic is the publisher's topic for the site and
  device the payload names, the payload decodes, and all required fields and at least one reading
  are present; any other message is reported as an error and changes nothing: no telemetry, no
  rows, no debounce state, no counters, no cache entry.\<close>

theorem process_accepts_exactly:
  "(check_message cd j = Inr msg \<longleftrightarrow>
      job_topic j = telemetryTopic (tm_SiteID msg) (tm_DeviceID msg) \<and>
      CHR ''/'' \<notin> set (tm_SiteID msg) \<and> CHR ''/'' \<notin> set (tm_DeviceID msg) \<and>
      unmarshal_telemetry cd (job_payload j) = Some msg \<and>
      tm_DeviceID msg \<noteq> [] \<and> tm_SiteID msg \<noteq> [] \<and> tm_DeviceType msg \<noteq> [] \<and> tm_Readings msg \<noteq> []) \<and>
   (check_message cd j = Inl e \<longrightarrow> process cd E n rnd t now j sv = (Some e, sv))"
  by (simp add: check_message_Inr parseTelemetryMessage_Inr parseTopic_iff process_def conj_assoc)

definition demo_cd :: codec where
  "demo_cd = demo_codec [(''{}'', telemetry_payload demo_fmt demo_message)]"

definition demo_job :: job where
  "demo_job = \<lparr>job_topic = ''sitewatch/s1/d1/telemetry'', job_payload = ''{}''\<rparr>"

definition demo_rand :: rand_source where
  "demo_rand n = Some (replicate n 0)"

definition demo_service :: "fault list \<Rightarrow> Service" where
  "demo_service fs = NewService \<lparr>w_db = demo_db, w_telemetry = [], w_faults = fs, w_slept = []\<rparr>"

lemma demo_check_message: "check_message demo_cd demo_job = Inr demo_message"
proof -
  have "unmarshal_telemetry demo_cd ''{}'' = Some demo_message"
    using decode_telemetry_payload [of demo_cd demo_fmt demo_message]
    by (simp add: unmarshal_telemetry_def demo_cd_def demo_codec_def demo_fmt_def demo_message_def)
  then show ?thesis
    by (simp add: check_message_Inr parseTelemetryMessage_Inr parseTopic_iff demo_job_def)
      (simp add: demo_message_def telemetryTopic_def)
qed

lemma demo_ids_fresh: "ids_fresh demo_env demo_db"
  by (auto simp: ids_fresh_def inj_def demo_env_def demo_db_def demo_rule_row_def)

theorem process_accepts_exactly_witness:
  "process demo_cd demo_env 3 demo_rand 1 2 \<lparr>job_topic = ''sitewatch/s1/d1'', job_payload = ''{}''\<rparr> (demo_service []) =
     (Some (ContractError (TopicMismatch ''sitewatch/s1/d1'')), demo_service [])"
  by (rule process_accepts_exactly [THEN conjunct2, THEN mp])
    (simp add: check_message_def parseTopic_def)

text \<open>C10: Telemetry is durable before anything is evaluated, under any faults: after an accepted
  message either the Mongo insert failed, and then PostgreSQL, the debounce streaks and the
  last-seen cache are untouched, or exactly one document with the message's readings was appended;
  no later failure loses it or adds another.\<close>

theorem telemetry_before_evaluation:
  assumes "check_message cd j = Inr msg"
  shows "case process cd E n rnd t now j sv of (r, sv') \<Rightarrow>
    ((\<exists>m. r = Some (StoreError (MongoInsert m))) \<and> sv_db sv' = sv_db sv \<and> sv_tracker sv' = sv_tracker sv \<and>
       st_lastSeenSent (sv_store sv') = st_lastSeenSent (sv_store sv) \<and>
       sv_telemetry sv' \<in> {sv_telemetry sv, sv_telemetry sv @ [telemetry_doc msg t]}) \<or>
    sv_telemetry sv' = sv_telemetry sv @ [telemetry_doc msg t]"
proof -
  obtain r1 s1 where w: "WriteTelemetry msg t (sv_store sv) = (r1, s1)" by force
  obtain r2 s2 where l: "MaybeUpdateLastSeen E (tm_DeviceID msg) now s1 = (r2, s2)" by force
  note W = WriteTelemetry_cases [OF w]
  have s2: "w_telemetry (st_world s2) = w_telemetry (st_world s1)"
    using MaybeUpdateLastSeen_frame [of E "tm_DeviceID msg" now s1] l by simp
  show ?thesis
  proof (cases r1)
    case (Some e)
    with W w assms show ?thesis by (auto simp: process_def)
  next
    case None
    have "sv_telemetry (snd (process cd E n rnd t now j sv)) = sv_telemetry sv @ [telemetry_doc msg t]"
      using None W w l s2 assms
        process_alerts_frame [of E n "NewCorrelationID rnd" msg now, THEN conjunct1]
      by (simp add: process_def Let_def split: option.split)
    then show ?thesis by (cases "process cd E n rnd t now j sv") simp
  qed
qed

theorem telemetry_before_evaluation_witness:
  "case process demo_cd demo_env 1 demo_rand 1 2 demo_job (demo_service [Ok, Fail ''x'', Fail ''y'']) of (r, sv') \<Rightarrow>
     ((\<exists>m. r = Some (StoreError (MongoInsert m))) \<and> sv_db sv' = demo_db \<and> sv_tracker sv' = NewBreachTracker \<and>
        st_lastSeenSent (sv_store sv') = Map.empty \<and> sv_telemetry sv' \<in> {[], [telemetry_doc demo_message 1]}) \<or>
     sv_telemetry sv' = [telemetry_doc demo_message 1]"
  using telemetry_before_evaluation [OF demo_check_message, where E = demo_env and n = 1 and rnd = demo_rand and t = 1 and now = 2
      and sv = "demo_service [Ok, Fail ''x'', Fail ''y'']"]
  by (simp add: demo_service_def NewService_def NewStore_def)

text \<open>C5: End to end, without faults: processing an accepted message for a device succeeds and
  leaves, for every rule, exactly the number of active alerts the decision table asks for (one
  after the debounced breach, none after the debounced recovery, the previous number otherwise);
  rules of other devices and disabled rules are unaffected, the database stays well formed, and at
  most one alert per rule is active.\<close>

theorem process_reaches_target:
  assumes E: "pgenv_ok E" and db: "db_ok E (sv_db sv)" and fresh: "ids_fresh E (sv_db sv)" and one: "one_active (sv_db sv)"
    and nf: "w_faults (st_world (sv_store sv)) = []"
    and msg: "check_message cd j = Inr msg" and dev: "uuid_parse E (tm_DeviceID msg) = Some u"
  shows "case process cd E n rnd t now j sv of (r, sv') \<Rightarrow>
    r = None \<and> db_ok E (sv_db sv') \<and> one_active (sv_db sv') \<and> alert_rules (sv_db sv') = alert_rules (sv_db sv) \<and>
    (\<forall>r \<in> set (alert_rules (sv_db sv)). active_count (ar_ID r) (sv_db sv') =
      (if ar_DeviceID r = u \<and> ar_Enabled r
       then target_active (rule_of_row r) (tm_Readings msg) (streak_of (sv_tracker sv) (ar_ID r)) n
              (active_count (ar_ID r) (sv_db sv))
       else active_count (ar_ID r) (sv_db sv)))"
proof -
  let ?s1 = "(sv_store sv)\<lparr>st_world := (st_world (sv_store sv))\<lparr>w_telemetry := sv_telemetry sv @ [telemetry_doc msg t]\<rparr>\<rparr>"
  obtain s2 where s2: "MaybeUpdateLastSeen E (tm_DeviceID msg) now ?s1 = (None, s2)" "w_faults (st_world s2) = []"
    and same: "store_db s2 = sv_db sv \<or> stmt_last_seen E (tm_DeviceID msg) now (sv_db sv) = Inr ((), store_db s2)"
    using MaybeUpdateLastSeen_no_fault [of ?s1 E "tm_DeviceID msg" u now] nf dev by auto
  let ?sv = "sv\<lparr>sv_store := s2\<rparr>"
  have db2: "db_ok E (sv_db ?sv)" and rules2: "alert_rules (sv_db ?sv) = alert_rules (sv_db sv)"
    and cnt2: "\<And>i. active_count i (sv_db ?sv) = active_count i (sv_db sv)" and al2: "alerts (sv_db ?sv) = alerts (sv_db sv)"
    using same db stmt_last_seen_ok(2-5) by fastforce+
  have drawn2: "uuids_drawn (sv_db ?sv) = uuids_drawn (sv_db sv)"
    using same stmt_last_seen_ok(6) by fastforce
  have fresh2: "ids_fresh E (sv_db ?sv)" using fresh al2 rules2 drawn2 by (simp add: ids_fresh_def)
  have one2: "one_active (sv_db ?sv)" using one cnt2 by (simp add: one_active_def)
  let ?ds = "decisions_for (enabled_rules E u (sv_db ?sv)) (tm_Readings msg) (active_ids E u (sv_db ?sv)) (tr_streaks (sv_tracker ?sv)) n"
  let ?out = "process_alerts E n (NewCorrelationID rnd) msg now ?sv"
  have out: "process cd E n rnd t now j sv = ?out"
    using msg s2 nf by (simp add: process_def WriteTelemetry_no_fault)
  have res: "fst ?out = None" "sv_db (snd ?out) = snd (pg_apply E (tm_DeviceID msg) now ?ds (sv_db ?sv))"
    using process_alerts_no_fault [OF E db2 fresh2, where msg = msg and u = u and n = n] s2 dev by simp_all
  have "\<forall>d \<in> set ?ds. decision_ok u (sv_db ?sv) d" using decisions_for_ok [OF E db2] by blast
  from pg_apply_ok [OF E db2 fresh2 dev this, of now] res
  have ok: "db_ok E (sv_db (snd ?out))" "alert_rules (sv_db (snd ?out)) = alert_rules (sv_db sv)" using rules2 by simp_all
  have target: "active_count (ar_ID r) (sv_db (snd ?out)) =
      (if ar_DeviceID r = u \<and> ar_Enabled r
       then target_active (rule_of_row r) (tm_Readings msg) (streak_of (sv_tracker sv) (ar_ID r)) n
              (active_count (ar_ID r) (sv_db sv))
       else active_count (ar_ID r) (sv_db sv))" if "r \<in> set (alert_rules (sv_db sv))" for r
    using decisions_reach_target [OF E db2 fresh2 one2 dev, of r] res(2) that rules2 cnt2 by simp
  have "one_active (sv_db (snd ?out))"
    by (rule one_active_rules [OF ok(1)])
      (use ok(2) target target_active_le_1 one in \<open>auto simp: one_active_def\<close>)
  with ok target res(1) show ?thesis unfolding out by (cases ?out) simp
qed

theorem process_reaches_target_witness:
  "fst (process demo_cd demo_env 1 demo_rand 1 2 demo_job (demo_service [])) = None \<and>
   active_count ''r1'' (sv_db (snd (process demo_cd demo_env 1 demo_rand 1 2 demo_job (demo_service [])))) = 1"
proof -
  have "uuid_parse demo_env (tm_DeviceID demo_message) = Some ''d1''" by (simp add: demo_env_def demo_message_def)
  note process_reaches_target [OF demo_env_ok _ _ _ _ demo_check_message this, where sv = "demo_service []" and n = 1
      and rnd = demo_rand and t = 1 and now = 2]
  moreover have "demo_rule_row ''r1'' \<in> set (alert_rules demo_db)" by (simp add: demo_db_def)
  moreover have "target_active (rule_of_row (demo_rule_row ''r1'')) (tm_Readings demo_message) BreachState_zero 1 0 = 1"
    by (simp add: target_active_def verdict_def demo_message_def rule_of_row_def demo_rule_row_def
        compareThreshold_def next_streak_def BreachState_zero_def)
  moreover have "active_count ''r1'' demo_db = 0" by (simp add: active_count_def demo_db_def)
  ultimately show ?thesis
    by (auto simp: demo_service_def NewService_def NewStore_def demo_db_ok demo_ids_fresh demo_one_active split_beta
        demo_rule_row_def)
qed

subsection \<open>The debounced last-seen update\<close>

text \<open>A sequence of calls of \<open>MaybeUpdateLastSeen\<close>, collecting those that go to the database.\<close>

fun last_seen_calls :: "pgenv \<Rightarrow> (string \<times> time) list \<Rightarrow> Store \<Rightarrow> (string \<times> time) list \<times> Store" where
  "last_seen_calls E [] s = ([], s)"
| "last_seen_calls E ((dev, t) # cs) s =
     (let (ws, s') = last_seen_calls E cs (snd (MaybeUpdateLastSeen E dev t s))
      in (if last_seen_due dev t s then (dev, t) # ws else ws, s'))"

abbreviation writes_of :: "string \<Rightarrow> (string \<times> time) list \<Rightarrow> time list" where
  "writes_of dev ws \<equiv> map snd (filter (\<lambda>w. fst w = dev) ws)"

lemma MaybeUpdateLastSeen_sent:
  "st_lastSeenSent (snd (MaybeUpdateLastSeen E dev t s)) =
     (if last_seen_due dev t s then (st_lastSeenSent s)(dev \<mapsto> t) else st_lastSeenSent s)"
  by (simp add: MaybeUpdateLastSeen_def Let_def split_beta)

lemma last_seen_calls_spaced:
  "successively (\<lambda>a b. lastSeenDebounce \<le> b - a)
     ((case st_lastSeenSent s dev of None \<Rightarrow> [] | Some p \<Rightarrow> [p]) @ writes_of dev (fst (last_seen_calls E cs s)))"
proof (induction cs arbitrary: s)
  case Nil
  show ?case by (simp split: option.split)
next
  case (Cons c cs)
  obtain d t where c: "c = (d, t)" by (cases c)
  let ?s = "snd (MaybeUpdateLastSeen E d t s)"
  have due: "last_seen_due d t s \<Longrightarrow> st_lastSeenSent s d = Some p \<Longrightarrow> lastSeenDebounce \<le> t - p" for p
    by (simp add: last_seen_due_def lastSeenDebounce_def time_Sub_ge_iff)
  from Cons [of ?s] due show ?case
    by (cases "d = dev"; cases "st_lastSeenSent s dev")
      (auto simp: c MaybeUpdateLastSeen_sent split_beta successively_Cons split: if_splits)
qed

text \<open>C23: A device's \<open>last_seen_at\<close> is written at most once per minute: over any sequence of
  messages, clock readings and database faults, the updates sent for one device id, as the messages
  spell it, are at least sixty seconds apart, and a message that falls inside the window changes neither the database nor the
  cache, even when the update that opened the window had failed.\<close>

theorem last_seen_spaced:
  "successively (\<lambda>a b. 60 * second \<le> b - a) (writes_of dev (fst (last_seen_calls E cs s))) \<and>
   (st_lastSeenSent s dev = Some p \<and> t - p < 60 * second \<longrightarrow> MaybeUpdateLastSeen E dev t s = (None, s))"
  using last_seen_calls_spaced [of s dev E cs]
  by (auto simp: lastSeenDebounce_def successively_append_iff MaybeUpdateLastSeen_def last_seen_due_def
      time_Sub_ge_iff split: option.splits)

theorem last_seen_spaced_witness:
  "MaybeUpdateLastSeen demo_env ''d1'' (59 * second) (snd (MaybeUpdateLastSeen demo_env ''d1'' 0 (demo_store [Fail ''x'']))) =
     (None, snd (MaybeUpdateLastSeen demo_env ''d1'' 0 (demo_store [Fail ''x''])))"
  by (rule last_seen_spaced [THEN conjunct2, THEN mp, of _ _ 0])
    (simp add: MaybeUpdateLastSeen_sent last_seen_due_def demo_store_def NewStore_def)

subsection \<open>Properties: the log of a message\<close>

fun log_cid :: "log_line \<Rightarrow> string option" where
  "log_cid (LogLastSeenFailed cid _ _) = Some cid"
| "log_cid (LogDecision cid _ _ _ _) = Some cid"
| "log_cid (LogProcessFailed _ _) = None"
| "log_cid (LogQueueFull _) = None"

definition decision_lines :: "string \<Rightarrow> string \<Rightarrow> RuleDecision list \<Rightarrow> log_line list" where
  "decision_lines cid deviceID = map (\<lambda>d. LogDecision cid deviceID (rule_ID (rd_Rule d)) (decisionLabel (rd_Decision d)) (rd_Value d))"

lemma count_decisions_log: "sv_log (count_decisions cid dev ds sv) = sv_log sv @ decision_lines cid dev ds"
  by (induction cid dev ds sv rule: count_decisions.induct) (simp_all add: decision_lines_def count_inc_def count_log_def Let_def)

definition extends_log :: "string \<Rightarrow> Service \<Rightarrow> Service \<Rightarrow> bool" where
  "extends_log cid sv sv' \<longleftrightarrow> (\<exists>ls. sv_log sv' = sv_log sv @ ls \<and> list_all (\<lambda>l. log_cid l = Some cid) ls)"

lemma process_alerts_log: "extends_log cid sv (snd (process_alerts E n cid msg now sv))"
  by (auto simp: extends_log_def process_alerts_def count_decisions_log decision_lines_def list_all_iff Let_def
      split: prod.split sum.split option.split)

lemma process_log: "extends_log (NewCorrelationID rnd) sv (snd (process cd E n rnd t now j sv))"
proof -
  let ?cid = "NewCorrelationID rnd"
  have start: "extends_log ?cid sv (snd (process_alerts E n ?cid msg now sv'))" if "extends_log ?cid sv sv'" for msg sv'
    using that process_alerts_log [of ?cid sv' E n msg now] unfolding extends_log_def by force
  have ok: "extends_log ?cid sv (sv\<lparr>sv_store := st\<rparr>)" for st by (simp add: extends_log_def)
  have failed: "extends_log ?cid sv (sv_logged (LogLastSeenFailed ?cid dev e) (sv\<lparr>sv_store := st\<rparr>))" for dev e st
    by (simp add: extends_log_def)
  have "extends_log ?cid sv sv" by (simp add: extends_log_def)
  then show ?thesis
    using start [OF ok] start [OF failed] ok
    by (simp add: process_def Let_def split: sum.split prod.split option.split)
qed

text \<open>C39: The log of a message carries one id, except for its failure: every line that processing a
  message adds is tagged with the one correlation id drawn for it, but when processing fails the
  worker reports the error through the service's own logger, so that last line carries no id and the
  id of the message does not lead to the reason it failed.\<close>

theorem message_log_correlated:
  "\<exists>ls. list_all (\<lambda>l. log_cid l = Some (NewCorrelationID rnd)) ls \<and>
     sv_log (worker_iteration cd E n rnd (start, t, now, stop) j sv) = sv_log sv @ ls @
       (case fst (process cd E n rnd t now j (sv\<lparr>sv_messagesReceived := sv_messagesReceived sv + 1\<rparr>)) of
          None \<Rightarrow> [] | Some e \<Rightarrow> [LogProcessFailed (job_topic j) e])"
proof -
  let ?sv = "sv\<lparr>sv_messagesReceived := sv_messagesReceived sv + 1\<rparr>"
  obtain r sv1 where p: "process cd E n rnd t now j ?sv = (r, sv1)" by force
  with process_log [of rnd ?sv cd E n t now j] obtain ls where
    "sv_log sv1 = sv_log sv @ ls" "list_all (\<lambda>l. log_cid l = Some (NewCorrelationID rnd)) ls"
    by (auto simp: extends_log_def)
  with p show ?thesis by (intro exI [of _ ls]) (simp add: worker_iteration_def Let_def split: option.split)
qed

end
