(* ===== verification/Ingest_Queue.thy ===== *)
theory Ingest_Queue
  imports Ingest_Process
begin

text \<open>
  The bounded job queue between the MQTT callback and the workers. The interface
  \<open>bounded_buffer\<close> states what a Go channel used with a non-blocking send promises; the FIFO and
  accounting laws are proved from it and hold for the service's job channel.
\<close>

subsection \<open>The interface\<close>

text \<open>
  A sequence of events at a buffer: \<open>Some x\<close> is an arrival, \<open>None\<close> a consumer asking for the next
  element (nothing happens when the buffer is empty). The result lists what was delivered and
  what was dropped, both in order.
\<close>

fun buffer_run :: "('a \<Rightarrow> 'q \<Rightarrow> 'q option) \<Rightarrow> ('q \<Rightarrow> ('a \<times> 'q) option) \<Rightarrow> 'a option list \<Rightarrow> 'q \<Rightarrow> 'a list \<times> 'a list \<times> 'q" where
  "buffer_run put get [] q = ([], [], q)"
| "buffer_run put get (Some x # evs) q =
     (case put x q of
        None \<Rightarrow> (case buffer_run put get evs q of (del, drp, q') \<Rightarrow> (del, x # drp, q'))
      | Some q1 \<Rightarrow> buffer_run put get evs q1)"
| "buffer_run put get (None # evs) q =
     (case get q of
        None \<Rightarrow> buffer_run put get evs q
      | Some (x, q1) \<Rightarrow> (case buffer_run put get evs q1 of (del, drp, q') \<Rightarrow> (x # del, drp, q')))"

definition arrivals :: "'a option list \<Rightarrow> 'a list" where
  "arrivals evs = List.map_filter id evs"

lemma arrivals_simps [simp]:
  "arrivals [] = []" "arrivals (Some x # evs) = x # arrivals evs" "arrivals (None # evs) = arrivals evs"
  by (simp_all add: arrivals_def List.map_filter_simps)

locale bounded_buffer =
  fixes capacity :: "'q \<Rightarrow> nat"
    and contents :: "'q \<Rightarrow> 'a list"
    and put :: "'a \<Rightarrow> 'q \<Rightarrow> 'q option"
    and get :: "'q \<Rightarrow> ('a \<times> 'q) option"
  assumes put_None: "put x q = None \<longleftrightarrow> capacity q \<le> length (contents q)"
    and put_Some: "put x q = Some q' \<Longrightarrow> contents q' = contents q @ [x] \<and> capacity q' = capacity q"
    and get_None: "get q = None \<longleftrightarrow> contents q = []"
    and get_Some: "get q = Some (x, q') \<Longrightarrow> contents q = x # contents q' \<and> capacity q' = capacity q"
begin

text \<open>
  First in, first out, with exact accounting: the arrivals are an interleaving of what was
  accepted and what was dropped, and what was accepted is delivered in order or still waiting.
\<close>

lemma accounting:
  "buffer_run put get evs q = (del, drp, q') \<Longrightarrow> length (contents q) \<le> capacity q \<Longrightarrow>
   length (contents q') \<le> capacity q \<and>
   (\<exists>acc. del @ contents q' = contents q @ acc \<and> arrivals evs \<in> shuffles acc drp)"
proof (induction evs arbitrary: q del drp)
  case (Cons ev evs)
  show ?case
  proof (cases ev)
    case (Some x)
    show ?thesis
    proof (cases "put x q")
      case None
      with Cons.prems Some obtain drp' where r: "buffer_run put get evs q = (del, drp', q')" "drp = x # drp'"
        by (auto split: prod.splits)
      with Cons.IH [OF r(1)] Cons.prems(2) Some show ?thesis by (auto intro: Cons_in_shuffles_rightI)
    next
      case (Some q1)
      with Cons.prems \<open>ev = Some x\<close> have r: "buffer_run put get evs q1 = (del, drp, q')" by simp
      have q1: "contents q1 = contents q @ [x]" "capacity q1 = capacity q" using put_Some [OF Some] by auto
      moreover have "length (contents q) < capacity q" using put_None [of x q] Some by auto
      ultimately obtain acc where acc: "del @ contents q' = contents q1 @ acc" "arrivals evs \<in> shuffles acc drp"
        "length (contents q') \<le> capacity q" using Cons.IH [OF r] by auto
      from acc(2) have "arrivals (ev # evs) \<in> shuffles (x # acc) drp"
        using \<open>ev = Some x\<close> by (simp add: Cons_in_shuffles_leftI)
      with acc q1 show ?thesis by (intro conjI exI [of _ "x # acc"]) simp_all
    qed
  next
    case None
    show ?thesis
    proof (cases "get q")
      case None
      with Cons.prems Cons.IH [of q del drp] \<open>ev = None\<close> show ?thesis by simp
    next
      case (Some p)
      then obtain x q1 where p: "get q = Some (x, q1)" by (cases p) auto
      with Cons.prems \<open>ev = None\<close> obtain del' where r: "buffer_run put get evs q1 = (del', drp, q')" "del = x # del'"
        by (auto split: prod.splits)
      with Cons.IH [OF r(1)] get_Some [OF p] Cons.prems(2) \<open>ev = None\<close> show ?thesis by auto
    qed
  qed
qed auto

text \<open>Nothing is dropped while a consumer keeps up: as long as arrivals fit the free space.\<close>

lemma no_drop:
  "buffer_run put get evs q = (del, drp, q') \<Longrightarrow> length (contents q) + length (arrivals evs) \<le> capacity q \<Longrightarrow> drp = []"
proof (induction evs arbitrary: q del drp)
  case (Cons ev evs)
  show ?case
  proof (cases ev)
    case (Some x)
    with Cons.prems(2) have "put x q \<noteq> None" by (simp add: put_None)
    then obtain q1 where q1: "put x q = Some q1" by auto
    with put_Some [OF q1] Cons Some show ?thesis by simp
  next
    case None
    show ?thesis
    proof (cases "get q")
      case None
      with Cons \<open>ev = None\<close> show ?thesis by simp
    next
      case (Some p)
      then obtain x q1 where p: "get q = Some (x, q1)" by (cases p) auto
      with Cons.prems \<open>ev = None\<close> obtain del' where r: "buffer_run put get evs q1 = (del', drp, q')"
        by (auto split: prod.splits)
      with Cons.IH [OF r] get_Some [OF p] Cons.prems(2) \<open>ev = None\<close> show ?thesis by simp
    qed
  qed
qed simp

end

subsection \<open>The job channel provides it\<close>

interpretation jobs: bounded_buffer ch_cap ch_buf chan_trySend chan_recv
  by unfold_locales (auto simp: chan_trySend_def chan_recv_def split: if_splits list.splits)

text \<open>The service seen from the queue: arriving messages and receiving workers, in any order.\<close>

fun queue_events :: "(string \<times> string) option list \<Rightarrow> job_chan \<times> Service \<Rightarrow> job list \<times> job_chan \<times> Service" where
  "queue_events [] (c, sv) = ([], c, sv)"
| "queue_events (Some (topic, payload) # evs) st = queue_events evs (on_message topic payload st)"
| "queue_events (None # evs) (c, sv) =
     (case chan_recv c of
        None \<Rightarrow> queue_events evs (c, sv)
      | Some (j, c1) \<Rightarrow> (case queue_events evs (c1, sv) of (js, st) \<Rightarrow> (j # js, st)))"

definition job_of :: "string \<times> string \<Rightarrow> job" where
  "job_of m = \<lparr>job_topic = fst m, job_payload = snd m\<rparr>"

lemma queue_events_buffer_run:
  "buffer_run chan_trySend chan_recv (map (map_option job_of) evs) c = (del, drp, c') \<Longrightarrow>
   \<exists>sv'. queue_events evs (c, sv) = (del, c', sv') \<and> sv_store sv' = sv_store sv \<and> sv_tracker sv' = sv_tracker sv \<and>
     sv_messagesDropped sv' = sv_messagesDropped sv + length drp \<and>
     sv_log sv' = sv_log sv @ map (\<lambda>j. LogQueueFull (job_topic j)) drp"
proof (induction evs arbitrary: c sv del drp)
  case (Cons ev evs)
  show ?case
  proof (cases ev)
    case (Some m)
    obtain topic payload where m: "m = (topic, payload)" by (cases m)
    then have j: "job_of m = \<lparr>job_topic = topic, job_payload = payload\<rparr>" by (simp add: job_of_def)
    show ?thesis
    proof (cases "chan_trySend (job_of m) c")
      case None
      with Cons.prems Some obtain drp' where r:
        "buffer_run chan_trySend chan_recv (map (map_option job_of) evs) c = (del, drp', c')" "drp = job_of m # drp'"
        by (auto split: prod.splits)
      from Cons.IH [OF r(1), of "sv_logged (LogQueueFull topic) (sv\<lparr>sv_messagesDropped := sv_messagesDropped sv + 1\<rparr>)"]
        None Some m j r(2) show ?thesis by (auto simp: on_message_eq)
    next
      case (Some c1)
      with Cons.prems \<open>ev = Some m\<close> Cons.IH [of c1 del drp sv] m j show ?thesis by (simp add: on_message_eq)
    qed
  next
    case None
    show ?thesis
    proof (cases "chan_recv c")
      case None
      with Cons.prems Cons.IH [of c del drp sv] \<open>ev = None\<close> show ?thesis by simp
    next
      case (Some p)
      then obtain x c1 where p: "chan_recv c = Some (x, c1)" by (cases p) auto
      with Cons.prems \<open>ev = None\<close> obtain del' where r:
        "buffer_run chan_trySend chan_recv (map (map_option job_of) evs) c1 = (del', drp, c')" "del = x # del'"
        by (auto split: prod.splits)
      from Cons.IH [OF r(1), of sv] r(2) p \<open>ev = None\<close> show ?thesis by auto
    qed
  qed
qed simp

lemma arrivals_job_of: "arrivals (map (map_option job_of) evs) = map job_of (arrivals evs)"
proof (induction evs)
  case (Cons ev evs)
  then show ?case by (cases ev) simp_all
qed simp

subsection \<open>Properties\<close>

text \<open>C24: The job queue never blocks, never exceeds its capacity, delivers first in first out, and
  accounts for every message: over any interleaving of arriving messages and receiving workers, the
  arrivals are an interleaving of the accepted jobs (which were delivered in order or still wait in
  the channel) and the dropped ones, whose number is exactly the increase of the dropped counter
  and each of which is logged; nothing else of the service changes.\<close>

theorem queue_fifo_accounting:
  "case queue_events evs (make_chan n, sv) of (delivered, c', sv') \<Rightarrow>
     length (ch_buf c') \<le> nat n \<and>
     (\<exists>dropped. map job_of (arrivals evs) \<in> shuffles (delivered @ ch_buf c') dropped \<and>
        sv_messagesDropped sv' = sv_messagesDropped sv + length dropped \<and>
        sv_log sv' = sv_log sv @ map (\<lambda>j. LogQueueFull (job_topic j)) dropped) \<and>
     sv_store sv' = sv_store sv \<and> sv_tracker sv' = sv_tracker sv"
proof -
  obtain del drp c' where r: "buffer_run chan_trySend chan_recv (map (map_option job_of) evs) (make_chan n) = (del, drp, c')"
    by (cases "buffer_run chan_trySend chan_recv (map (map_option job_of) evs) (make_chan n)") auto
  from jobs.accounting [OF r] have "length (ch_buf c') \<le> nat n" "map job_of (arrivals evs) \<in> shuffles (del @ ch_buf c') drp"
    by (simp_all add: make_chan_def arrivals_job_of)
  with queue_events_buffer_run [OF r, of sv] show ?thesis by auto
qed

text \<open>No message is dropped before the queue is full: with a queue size that covers the messages
  arriving in a burst, every one of them is queued even if no worker takes any.\<close>

theorem queue_absorbs_burst:
  assumes "int (length (arrivals evs)) \<le> n"
  shows "case queue_events evs (make_chan n, sv) of (delivered, c', sv') \<Rightarrow>
    delivered @ ch_buf c' = map job_of (arrivals evs) \<and> sv_messagesDropped sv' = sv_messagesDropped sv"
proof -
  obtain del drp c' where r: "buffer_run chan_trySend chan_recv (map (map_option job_of) evs) (make_chan n) = (del, drp, c')"
    by (cases "buffer_run chan_trySend chan_recv (map (map_option job_of) evs) (make_chan n)") auto
  have "length (map job_of (arrivals evs)) \<le> nat n" using assms by simp
  with jobs.no_drop [OF r] have "drp = []" by (simp add: make_chan_def arrivals_job_of)
  with jobs.accounting [OF r] queue_events_buffer_run [OF r, of sv] show ?thesis
    by (auto simp: make_chan_def arrivals_job_of)
qed

theorem queue_absorbs_burst_witness:
  "fst (snd (queue_events [Some (''t'', ''p''), Some (''u'', ''q'')] (make_chan 2, demo_service []))) =
     \<lparr>ch_cap = 2, ch_buf = [job_of (''t'', ''p''), job_of (''u'', ''q'')]\<rparr>"
  using queue_absorbs_burst [of "[Some (''t'', ''p''), Some (''u'', ''q'')]" 2 "demo_service []"]
  by (simp add: on_message_eq chan_trySend_def make_chan_def job_of_def)

text \<open>The tunable sizes are always positive: whatever the environment holds, the worker count,
  the queue size and the debounce count are at least one (so a worker exists, the channel is
  buffered and a decision needs a reading), and a valid positive decimal setting is used as it is.\<close>

theorem config_positive:
  "1 \<le> cf_workerCount (ingest_config_from_env getenv) \<and> 1 \<le> cf_queueSize (ingest_config_from_env getenv) \<and>
   1 \<le> cf_debounceN (ingest_config_from_env getenv) \<and>
   (getenv key = Itoa k \<and> 0 < k \<and> k \<le> max_int64 \<longrightarrow> intFromEnv getenv key fallback = k)"
proof -
  have pos: "1 \<le> intFromEnv getenv key fallback" if "1 \<le> fallback" for key fallback
    using that by (simp add: intFromEnv_def Let_def split: sum.split)
  have "Itoa k \<noteq> []" by (simp add: Itoa_def)
  then show ?thesis
    using pos Atoi_Itoa [of k]
    by (simp add: ingest_config_from_env_def defaultWorkerCount_def defaultQueueSize_def defaultDebounceBreaches_def
        intFromEnv_def)
qed

theorem config_positive_witness:
  "intFromEnv (\<lambda>_. Itoa 7) ''INGESTION_WORKER_COUNT'' 4 = 7"
  using config_positive [of "\<lambda>_. Itoa 7" "''INGESTION_WORKER_COUNT''" 7 4] by simp

end
