(* ===== verification/Ingest_Steps.thy ===== *)
theory Ingest_Steps
  imports Ingest_Queue
begin

text \<open>
  \<open>process\<close> of \<open>ingestion/main.go\<close> in steps: each step of a worker is one database call, one section
  under a mutex, one increment of a counter or one line of the log. The uninterrupted steps of one
  worker are \<open>process\<close>.
\<close>

subsection \<open>The program counter of a worker\<close>

datatype wphase =
    PWrite string TelemetryMessage
  | PLastSeen string TelemetryMessage
  | PLastSeenExec string TelemetryMessage time
  | PLastSeenWarn string TelemetryMessage time store_error
  | PRules string TelemetryMessage time
  | PActive string TelemetryMessage time "Rule list"
  | PEvaluate string TelemetryMessage time "Rule list" id_set
  | PApply string TelemetryMessage time "RuleDecision list" "RuleDecision list" nat duration
  | PCount string TelemetryMessage "RuleDecision list"
  | PLogDecision string TelemetryMessage RuleDecision "RuleDecision list"
  | PDone "process_error option"

definition start_phase :: "codec \<Rightarrow> rand_source \<Rightarrow> job \<Rightarrow> wphase" where
  "start_phase cd rnd j =
     (case check_message cd j of Inl e \<Rightarrow> PDone (Some e) | Inr msg \<Rightarrow> PWrite (NewCorrelationID rnd) msg)"

text \<open>One step; \<open>t\<close> is what the clock shows when the step reads it.\<close>

fun pstep :: "pgenv \<Rightarrow> int \<Rightarrow> time \<Rightarrow> wphase \<Rightarrow> Service \<Rightarrow> wphase \<times> Service" where
  "pstep E n t (PWrite cid msg) sv =
     (case WriteTelemetry msg t (sv_store sv) of
        (Some e, s) \<Rightarrow> (PDone (Some (StoreError e)), sv\<lparr>sv_store := s\<rparr>)
      | (None, s) \<Rightarrow> (PLastSeen cid msg, sv\<lparr>sv_store := s\<rparr>))"
| "pstep E n t (PLastSeen cid msg) sv =
     (if last_seen_due (tm_DeviceID msg) t (sv_store sv)
      then (PLastSeenExec cid msg t,
            sv\<lparr>sv_store := (sv_store sv)\<lparr>st_lastSeenSent := (st_lastSeenSent (sv_store sv))(tm_DeviceID msg \<mapsto> t)\<rparr>\<rparr>)
      else (PRules cid msg t, sv))"
| "pstep E n t (PLastSeenExec cid msg now) sv =
     (case run_stmt (stmt_last_seen E (tm_DeviceID msg) now) (st_world (sv_store sv)) of
        (Inl e, w) \<Rightarrow> (PLastSeenWarn cid msg now (UpdateLastSeen e), sv\<lparr>sv_store := (sv_store sv)\<lparr>st_world := w\<rparr>\<rparr>)
      | (Inr _, w) \<Rightarrow> (PRules cid msg now, sv\<lparr>sv_store := (sv_store sv)\<lparr>st_world := w\<rparr>\<rparr>))"
| "pstep E n t (PLastSeenWarn cid msg now e) sv =
     (PRules cid msg now, sv_logged (LogLastSeenFailed cid (tm_DeviceID msg) e) sv)"
| "pstep E n t (PRules cid msg now) sv =
     (case LoadEnabledRules E (tm_DeviceID msg) (sv_store sv) of
        (Inl e, s) \<Rightarrow> (PDone (Some (StoreError e)), sv\<lparr>sv_store := s\<rparr>)
      | (Inr rules, s) \<Rightarrow>
          (if length rules = 0 then PDone None else PActive cid msg now rules, sv\<lparr>sv_store := s\<rparr>))"
| "pstep E n t (PActive cid msg now rules) sv =
     (case LoadActiveRuleIDs E (tm_DeviceID msg) (sv_store sv) of
        (Inl e, s) \<Rightarrow> (PDone (Some (StoreError e)), sv\<lparr>sv_store := s\<rparr>)
      | (Inr active, s) \<Rightarrow> (PEvaluate cid msg now rules active, sv\<lparr>sv_store := s\<rparr>))"
| "pstep E n t (PEvaluate cid msg now rules active) sv =
     (case tracker_Evaluate (sv_tracker sv) rules (tm_Readings msg) active n of
        (decisions, tr) \<Rightarrow>
          (if length decisions = 0 then PDone None else PApply cid msg now decisions decisions 1 (100 * millisecond),
           sv\<lparr>sv_tracker := tr\<rparr>))"
| "pstep E n t (PApply cid msg now decisions [] attempt backoff) sv =
     (PCount cid msg decisions, sv)"
| "pstep E n t (PApply cid msg now decisions (d # todo) attempt backoff) sv =
     (if rd_Decision d = NoAction then (PApply cid msg now decisions todo attempt backoff, sv)
      else case run_stmt (decision_stmt E (tm_DeviceID msg) now d) (st_world (sv_store sv)) of
        (Inr _, w) \<Rightarrow>
          (PApply cid msg now decisions todo attempt backoff, sv\<lparr>sv_store := (sv_store sv)\<lparr>st_world := w\<rparr>\<rparr>)
      | (Inl e, w) \<Rightarrow>
          let s = (sv_store sv)\<lparr>st_world := w\<rparr> in
          if attempt < maxAttempts
          then (PApply cid msg now decisions decisions (Suc attempt) (int64_wrap (backoff * 2)),
                sv\<lparr>sv_store := sleep backoff s\<rparr>)
          else (PDone (Some (StoreError (ApplyAfter maxAttempts (decision_error d e)))), sv\<lparr>sv_store := s\<rparr>))"
| "pstep E n t (PCount cid msg []) sv = (PDone None, sv)"
| "pstep E n t (PCount cid msg (d # ds)) sv = (PLogDecision cid msg d ds, count_inc d sv)"
| "pstep E n t (PLogDecision cid msg d ds) sv = (PCount cid msg ds, count_log cid (tm_DeviceID msg) d sv)"
| "pstep E n t (PDone r) sv = (PDone r, sv)"

fun psteps :: "pgenv \<Rightarrow> int \<Rightarrow> time list \<Rightarrow> wphase \<Rightarrow> Service \<Rightarrow> wphase \<times> Service" where
  "psteps E n [] ph sv = (ph, sv)"
| "psteps E n (t # ts) ph sv = (case pstep E n t ph sv of (ph', sv') \<Rightarrow> psteps E n ts ph' sv')"

subsection \<open>Uninterrupted steps are process\<close>

lemma psteps_append: "psteps E n (ts @ us) ph sv = (case psteps E n ts ph sv of (ph', sv') \<Rightarrow> psteps E n us ph' sv')"
  by (induction ts arbitrary: ph sv) (auto split: prod.split)

lemma psteps_trans:
  "psteps E n (replicate k t) ph sv = (ph1, sv1) \<Longrightarrow> psteps E n (replicate m t) ph1 sv1 = (ph2, sv2) \<Longrightarrow>
   psteps E n (replicate (k + m) t) ph sv = (ph2, sv2)"
  by (simp add: replicate_add psteps_append)

lemma psteps_one: "pstep E n t ph sv = (ph1, sv1) \<Longrightarrow> psteps E n (replicate m t) ph1 sv1 = out \<Longrightarrow>
   psteps E n (replicate (Suc m) t) ph sv = out"
  by simp

text \<open>Where a pass over the decisions leaves the worker, and where the retry loop does.\<close>

definition after_pass ::
  "string \<Rightarrow> TelemetryMessage \<Rightarrow> time \<Rightarrow> RuleDecision list \<Rightarrow> nat \<Rightarrow> duration \<Rightarrow> Service \<Rightarrow> store_error option \<times> Store \<Rightarrow> wphase \<times> Service" where
  "after_pass cid msg now ds attempt backoff sv out =
     (case out of
        (None, s') \<Rightarrow> (PApply cid msg now ds [] attempt backoff, sv\<lparr>sv_store := s'\<rparr>)
      | (Some e, s') \<Rightarrow>
          if attempt < maxAttempts
          then (PApply cid msg now ds ds (Suc attempt) (int64_wrap (backoff * 2)), sv\<lparr>sv_store := sleep backoff s'\<rparr>)
          else (PDone (Some (StoreError (ApplyAfter maxAttempts e))), sv\<lparr>sv_store := s'\<rparr>))"

definition after_retry ::
  "string \<Rightarrow> TelemetryMessage \<Rightarrow> RuleDecision list \<Rightarrow> Service \<Rightarrow> store_error option \<times> Store \<Rightarrow> process_error option \<times> Service" where
  "after_retry cid msg ds sv out =
     (case out of
        (None, s') \<Rightarrow> (None, count_decisions cid (tm_DeviceID msg) ds (sv\<lparr>sv_store := s'\<rparr>))
      | (Some e, s') \<Rightarrow> (Some (StoreError e), sv\<lparr>sv_store := s'\<rparr>))"

lemma after_pass_store [simp]: "after_pass cid msg now ds attempt backoff (sv\<lparr>sv_store := s\<rparr>) = after_pass cid msg now ds attempt backoff sv"
  by (rule ext) (simp add: after_pass_def split: prod.split option.split)

lemma after_retry_store [simp]: "after_retry cid msg ds (sv\<lparr>sv_store := s\<rparr>) = after_retry cid msg ds sv"
  by (rule ext) (simp add: after_retry_def split: prod.split option.split)

lemma psteps_pass:
  "\<exists>k. psteps E n (replicate k t) (PApply cid msg now ds todo attempt backoff) sv =
     after_pass cid msg now ds attempt backoff sv (ApplyDecisions E (tm_DeviceID msg) todo now (sv_store sv))"
proof (induction todo arbitrary: sv)
  case Nil
  show ?case by (intro exI [of _ 0]) (simp add: after_pass_def)
next
  case (Cons d todo)
  show ?case
  proof (cases "rd_Decision d = NoAction")
    case True
    from Cons.IH [of sv] obtain k where "psteps E n (replicate k t) (PApply cid msg now ds todo attempt backoff) sv =
      after_pass cid msg now ds attempt backoff sv (ApplyDecisions E (tm_DeviceID msg) todo now (sv_store sv))" ..
    with True show ?thesis by (intro exI [of _ "Suc k"]) (simp add: ApplyDecisions_skip)
  next
    case False
    obtain q w where q: "run_stmt (decision_stmt E (tm_DeviceID msg) now d) (st_world (sv_store sv)) = (q, w)" by force
    show ?thesis
    proof (cases q)
      case (Inl e)
      with q False show ?thesis by (intro exI [of _ 1]) (simp add: ApplyDecisions_act after_pass_def Let_def)
    next
      case (Inr x)
      let ?sv = "sv\<lparr>sv_store := (sv_store sv)\<lparr>st_world := w\<rparr>\<rparr>"
      from Cons.IH [of ?sv] obtain k where "psteps E n (replicate k t) (PApply cid msg now ds todo attempt backoff) ?sv =
        after_pass cid msg now ds attempt backoff sv (ApplyDecisions E (tm_DeviceID msg) todo now ((sv_store sv)\<lparr>st_world := w\<rparr>))"
        by auto
      with Inr q False show ?thesis by (intro exI [of _ "Suc k"]) (simp add: ApplyDecisions_act)
    qed
  qed
qed

lemma psteps_count:
  "psteps E n (replicate (2 * length ds + 1) t) (PCount cid msg ds) sv = (PDone None, count_decisions cid (tm_DeviceID msg) ds sv)"
  by (induction ds arbitrary: sv) simp_all

lemma psteps_retry:
  "\<exists>k. psteps E n (replicate k t) (PApply cid msg now ds ds attempt backoff) sv =
     apfst PDone (after_retry cid msg ds sv (apply_attempts E (tm_DeviceID msg) ds now attempt backoff (sv_store sv)))"
proof (induction "maxAttempts - attempt" arbitrary: attempt backoff sv rule: less_induct)
  case less
  obtain r1 s1 where pass: "ApplyDecisions E (tm_DeviceID msg) ds now (sv_store sv) = (r1, s1)" by force
  note attempts = apply_attempts.simps [of E "tm_DeviceID msg" ds now attempt backoff "sv_store sv"]
  obtain k where k: "psteps E n (replicate k t) (PApply cid msg now ds ds attempt backoff) sv =
      after_pass cid msg now ds attempt backoff sv (r1, s1)"
    using psteps_pass [of E n t cid msg now ds ds attempt backoff sv] pass by auto
  show ?case
  proof (cases r1)
    case None
    with k have "psteps E n (replicate k t) (PApply cid msg now ds ds attempt backoff) sv =
      (PApply cid msg now ds [] attempt backoff, sv\<lparr>sv_store := s1\<rparr>)" by (simp add: after_pass_def)
    moreover have "psteps E n (replicate (Suc (2 * length ds + 1)) t) (PApply cid msg now ds [] attempt backoff) (sv\<lparr>sv_store := s1\<rparr>) =
        (PDone None, count_decisions cid (tm_DeviceID msg) ds (sv\<lparr>sv_store := s1\<rparr>))"
      by (rule psteps_one) (simp, rule psteps_count)
    ultimately show ?thesis
      using psteps_trans [of E n k t _ sv _ _ "Suc (2 * length ds + 1)"] None pass
      by (intro exI [of _ "k + Suc (2 * length ds + 1)"]) (simp add: attempts after_retry_def)
  next
    case (Some e)
    show ?thesis
    proof (cases "attempt < maxAttempts")
      case True
      let ?sv = "sv\<lparr>sv_store := sleep backoff s1\<rparr>"
      from less.hyps [of "Suc attempt" "int64_wrap (backoff * 2)" ?sv] True obtain m where
        "psteps E n (replicate m t) (PApply cid msg now ds ds (Suc attempt) (int64_wrap (backoff * 2))) ?sv =
         apfst PDone (after_retry cid msg ds sv (apply_attempts E (tm_DeviceID msg) ds now (Suc attempt) (int64_wrap (backoff * 2)) (sleep backoff s1)))"
        by (auto simp: diff_less_mono2)
      with k Some True pass show ?thesis
        by (intro exI [of _ "k + m"]) (simp add: replicate_add psteps_append after_pass_def attempts)
    next
      case False
      with Some k pass show ?thesis by (intro exI [of _ k]) (simp add: after_pass_def after_retry_def attempts)
    qed
  qed
qed

lemma psteps_decided:
  "\<exists>k. psteps E n (replicate k t) (PEvaluate cid msg now rules active) sv =
     (case tracker_Evaluate (sv_tracker sv) rules (tm_Readings msg) active n of (ds, tr) \<Rightarrow>
        if ds = [] then (PDone None, sv\<lparr>sv_tracker := tr\<rparr>)
        else apfst PDone (after_retry cid msg ds (sv\<lparr>sv_tracker := tr\<rparr>)
          (applyDecisionsWithRetry E (tm_DeviceID msg) ds now (sv_store sv))))"
proof -
  obtain ds tr where ev: "tracker_Evaluate (sv_tracker sv) rules (tm_Readings msg) active n = (ds, tr)" by force
  show ?thesis
  proof (cases "ds = []")
    case True
    with ev show ?thesis by (intro exI [of _ 1]) simp
  next
    case False
    from psteps_retry [of E n t cid msg now ds 1 "100 * millisecond" "sv\<lparr>sv_tracker := tr\<rparr>"] obtain k where
      "psteps E n (replicate k t) (PApply cid msg now ds ds 1 (100 * millisecond)) (sv\<lparr>sv_tracker := tr\<rparr>) =
        apfst PDone (after_retry cid msg ds (sv\<lparr>sv_tracker := tr\<rparr>) (applyDecisionsWithRetry E (tm_DeviceID msg) ds now (sv_store sv)))"
      by (auto simp: applyDecisionsWithRetry_def)
    with ev False show ?thesis by (intro exI [of _ "Suc k"]) simp
  qed
qed

lemma psteps_alerts:
  "\<exists>k. psteps E n (replicate k t) (PRules cid msg now) sv = apfst PDone (process_alerts E n cid msg now sv)"
proof -
  obtain r1 s1 where 1: "LoadEnabledRules E (tm_DeviceID msg) (sv_store sv) = (r1, s1)" by force
  obtain r2 s2 where 2: "LoadActiveRuleIDs E (tm_DeviceID msg) s1 = (r2, s2)" by force
  consider e where "r1 = Inl e" | "r1 = Inr []" | rules e where "r1 = Inr rules" "rules \<noteq> []" "r2 = Inl e"
    | rules active where "r1 = Inr rules" "rules \<noteq> []" "r2 = Inr active" by (metis sum.exhaust)
  then show ?thesis
  proof cases
    case (4 rules active)
    obtain ds tr where ev: "tracker_Evaluate (sv_tracker sv) rules (tm_Readings msg) active n = (ds, tr)" by force
    from psteps_decided [of E n t cid msg now rules active "sv\<lparr>sv_store := s2\<rparr>"] ev obtain k where k:
      "psteps E n (replicate k t) (PEvaluate cid msg now rules active) (sv\<lparr>sv_store := s2\<rparr>) =
       (if ds = [] then (PDone None, sv\<lparr>sv_store := s2, sv_tracker := tr\<rparr>)
        else apfst PDone (after_retry cid msg ds (sv\<lparr>sv_store := s2, sv_tracker := tr\<rparr>)
          (applyDecisionsWithRetry E (tm_DeviceID msg) ds now s2)))" by (auto cong: if_cong)
    from 4 1 2 have "psteps E n (replicate (Suc (Suc k)) t) (PRules cid msg now) sv =
      psteps E n (replicate k t) (PEvaluate cid msg now rules active) (sv\<lparr>sv_store := s2\<rparr>)" by simp
    with k ev 4 1 2 show ?thesis
      by (intro exI [of _ "Suc (Suc k)"]) (simp add: process_alerts_def after_retry_def Let_def split: prod.split option.split)
  next
    case 3
    with 1 2 show ?thesis by (intro exI [of _ 2]) (simp add: process_alerts_def eval_nat_numeral)
  qed (use 1 in \<open>auto intro!: exI [of _ 1] simp: process_alerts_def\<close>)
qed

lemma psteps_last_seen:
  assumes "MaybeUpdateLastSeen E (tm_DeviceID msg) now (sv_store sv) = (r, s')"
  shows "\<exists>k. psteps E n (replicate k now) (PLastSeen cid msg) sv = (PRules cid msg now,
    (case r of None \<Rightarrow> sv\<lparr>sv_store := s'\<rparr>
     | Some e \<Rightarrow> sv_logged (LogLastSeenFailed cid (tm_DeviceID msg) e) (sv\<lparr>sv_store := s'\<rparr>)))"
proof (cases "last_seen_due (tm_DeviceID msg) now (sv_store sv)")
  case True
  let ?s1 = "(sv_store sv)\<lparr>st_lastSeenSent := (st_lastSeenSent (sv_store sv))(tm_DeviceID msg \<mapsto> now)\<rparr>"
  obtain q w where q: "run_stmt (stmt_last_seen E (tm_DeviceID msg) now) (st_world (sv_store sv)) = (q, w)" by force
  show ?thesis
  proof (cases q)
    case (Inl e)
    with q True assms show ?thesis by (intro exI [of _ 3]) (auto simp: MaybeUpdateLastSeen_def eval_nat_numeral)
  next
    case (Inr x)
    with q True assms show ?thesis by (intro exI [of _ 2]) (auto simp: MaybeUpdateLastSeen_def eval_nat_numeral)
  qed
next
  case False
  with assms show ?thesis by (intro exI [of _ 1]) (auto simp: MaybeUpdateLastSeen_def)
qed

subsection \<open>Properties: refinement\<close>

text \<open>C4: The small steps refine the handler: running the steps of one worker without interruption
  from the start of a message terminates and yields exactly the result and the service state of
  \<open>process\<close>, under every pattern of faults.\<close>

theorem worker_steps_refine_process:
  "\<exists>k. psteps E n (t # replicate k now) (start_phase cd rnd j) sv =
     (PDone (fst (process cd E n rnd t now j sv)), snd (process cd E n rnd t now j sv))"
proof (cases "check_message cd j")
  case (Inl e)
  then show ?thesis by (intro exI [of _ 0]) (simp add: start_phase_def process_def)
next
  case (Inr msg)
  let ?cid = "NewCorrelationID rnd"
  obtain r1 s1 where w: "WriteTelemetry msg t (sv_store sv) = (r1, s1)" by force
  show ?thesis
  proof (cases r1)
    case (Some e)
    with Inr w show ?thesis by (intro exI [of _ 0]) (simp add: start_phase_def process_def)
  next
    case None
    obtain r2 s2 where l: "MaybeUpdateLastSeen E (tm_DeviceID msg) now s1 = (r2, s2)" by force
    let ?sv = "case r2 of None \<Rightarrow> sv\<lparr>sv_store := s2\<rparr>
     | Some e \<Rightarrow> sv_logged (LogLastSeenFailed ?cid (tm_DeviceID msg) e) (sv\<lparr>sv_store := s2\<rparr>)"
    have sv: "(case r2 of None \<Rightarrow> sv\<lparr>sv_store := s1\<rparr>\<lparr>sv_store := s2\<rparr>
     | Some e \<Rightarrow> sv_logged (LogLastSeenFailed ?cid (tm_DeviceID msg) e) (sv\<lparr>sv_store := s1\<rparr>\<lparr>sv_store := s2\<rparr>)) = ?sv"
      by (simp split: option.split)
    from psteps_last_seen [of E msg now "sv\<lparr>sv_store := s1\<rparr>" r2 s2 n ?cid] l sv obtain k1 where k1:
      "psteps E n (replicate k1 now) (PLastSeen ?cid msg) (sv\<lparr>sv_store := s1\<rparr>) = (PRules ?cid msg now, ?sv)" by auto
    obtain q sv' where q: "process_alerts E n ?cid msg now ?sv = (q, sv')" by force
    from psteps_alerts [of E n now ?cid msg now ?sv] q obtain k2 where
      "psteps E n (replicate k2 now) (PRules ?cid msg now) ?sv = (PDone q, sv')" by auto
    from psteps_trans [OF k1 this] have
      "psteps E n (replicate (k1 + k2) now) (PLastSeen ?cid msg) (sv\<lparr>sv_store := s1\<rparr>) = (PDone q, sv')" .
    moreover have "process cd E n rnd t now j sv = (q, sv')"
      using q Inr w None l by (simp add: process_def Let_def split: option.splits)
    ultimately show ?thesis
      using Inr w None by (intro exI [of _ "k1 + k2"]) (simp add: start_phase_def)
  qed
qed

end
