(* ===== verification/Ingest_Pool.thy ===== *)
theory Ingest_Pool
  imports Ingest_Steps
begin

text \<open>
  The worker pool of \<open>ingestion/main.go\<close> as a step relation: the steps of the workers, the arriving
  messages, the shutdown and the other writers of the database interleave freely. With at most one
  message per device in flight at most one alert per rule is active; without that restriction two
  workers can create two.
\<close>

subsection \<open>The pool\<close>

text \<open>
  How far \<open>main\<close> is: serving, past \<open><-ctx.Done()\<close>, after \<open>client.Disconnect\<close>, returned. A worker is waiting
  in its \<open>select\<close>, has taken a job and not counted it yet, is processing a message, has timed one and
  not reported its error yet, or has returned. \<open>pl_dropped\<close> holds the topics of the subscription
  callbacks that have counted a drop and not logged it yet.
\<close>

datatype main_phase = MServing | MStopping | MDisconnected | MExited

datatype worker =
    WIdle
  | WTaken job
  | WBusy job time wphase
  | WTimed job "process_error option"
  | WReturned

record pool =
  pl_chan :: job_chan
  pl_sv :: Service
  pl_workers :: "worker list"
  pl_dropped :: "string list"
  pl_main :: main_phase

definition NewPool :: "ingest_config \<Rightarrow> world \<Rightarrow> pool" where
  "NewPool cfg w = \<lparr>pl_chan = make_chan (cf_queueSize cfg), pl_sv = NewService w,
     pl_workers = replicate (nat (cf_workerCount cfg)) WIdle, pl_dropped = [], pl_main = MServing\<rparr>"

text \<open>
  The workers pass the context of \<open>main\<close> to every database call. Once it is done, both drivers refuse
  a call with the context's error before it has an effect; a call the signal interrupts counts as made
  before it or after it. The pause between two attempts does not watch the context.
\<close>

definition with_faults :: "fault list \<Rightarrow> Service \<Rightarrow> Service" where
  "with_faults fs sv = sv\<lparr>sv_store := (sv_store sv)\<lparr>st_world := (st_world (sv_store sv))\<lparr>w_faults := fs\<rparr>\<rparr>\<rparr>"

definition ctx_pstep :: "main_phase \<Rightarrow> pgenv \<Rightarrow> int \<Rightarrow> time \<Rightarrow> wphase \<Rightarrow> Service \<Rightarrow> wphase \<times> Service" where
  "ctx_pstep m E n t ph sv =
     (if m = MServing then pstep E n t ph sv
      else case pstep E n t ph (with_faults [Fail ''context canceled''] sv) of
        (ph', sv') \<Rightarrow> (ph', with_faults (w_faults (st_world (sv_store sv))) sv'))"

text \<open>
  The steps of the service, from the start to the end of the process. No step makes more than one
  change the other goroutines can see: an increment, a line of the log, a database call, a section
  under a mutex (a full queue is noticed and the drop counted in one step). Messages arrive until the broker connection is closed; a worker whose
  \<open>select\<close> finds both the context done and a job may take either; \<open>main\<close> does not wait for the workers.
  \<open>ext\<close> is what other writers of the same database may do between two steps of the workers.
\<close>

inductive pool_step ::
  "codec \<Rightarrow> pgenv \<Rightarrow> int \<Rightarrow> (pgdb \<Rightarrow> pgdb \<Rightarrow> bool) \<Rightarrow> pool \<Rightarrow> pool \<Rightarrow> bool"
  for cd E n ext where
  arrive: "pl_main p = MServing \<or> pl_main p = MStopping \<Longrightarrow>
    on_message_select topic payload (pl_chan p, pl_sv p) = (dropped, c', sv') \<Longrightarrow>
    pool_step cd E n ext p (p\<lparr>pl_chan := c', pl_sv := sv',
      pl_dropped := pl_dropped p @ (case dropped of None \<Rightarrow> [] | Some d \<Rightarrow> [d])\<rparr>)"
| warn: "pl_main p \<noteq> MExited \<Longrightarrow> pl_dropped p = ds @ topic # ds' \<Longrightarrow>
    pool_step cd E n ext p (p\<lparr>pl_sv := on_message_warn topic (pl_sv p), pl_dropped := ds @ ds'\<rparr>)"
| take: "pl_main p \<noteq> MExited \<Longrightarrow> i < length (pl_workers p) \<Longrightarrow> pl_workers p ! i = WIdle \<Longrightarrow>
    chan_recv (pl_chan p) = Some (j, c') \<Longrightarrow>
    pool_step cd E n ext p (p\<lparr>pl_chan := c', pl_workers := (pl_workers p)[i := WTaken j]\<rparr>)"
| receive: "pl_main p \<noteq> MExited \<Longrightarrow> i < length (pl_workers p) \<Longrightarrow> pl_workers p ! i = WTaken j \<Longrightarrow>
    pool_step cd E n ext p
      (p\<lparr>pl_sv := (pl_sv p)\<lparr>sv_messagesReceived := sv_messagesReceived (pl_sv p) + 1\<rparr>,
         pl_workers := (pl_workers p)[i := WBusy j start (start_phase cd rnd j)]\<rparr>)"
| work: "pl_main p \<noteq> MExited \<Longrightarrow> i < length (pl_workers p) \<Longrightarrow> pl_workers p ! i = WBusy j start ph \<Longrightarrow>
    ctx_pstep (pl_main p) E n t ph (pl_sv p) = (ph', sv') \<Longrightarrow>
    pool_step cd E n ext p (p\<lparr>pl_sv := sv', pl_workers := (pl_workers p)[i := WBusy j start ph']\<rparr>)"
| observe: "pl_main p \<noteq> MExited \<Longrightarrow> i < length (pl_workers p) \<Longrightarrow> pl_workers p ! i = WBusy j start (PDone r) \<Longrightarrow>
    pool_step cd E n ext p
      (p\<lparr>pl_sv := (pl_sv p)\<lparr>sv_processingDuration := sv_processingDuration (pl_sv p) @ [time_Sub stop start]\<rparr>,
         pl_workers := (pl_workers p)[i := WTimed j r]\<rparr>)"
| report: "pl_main p \<noteq> MExited \<Longrightarrow> i < length (pl_workers p) \<Longrightarrow> pl_workers p ! i = WTimed j r \<Longrightarrow>
    pool_step cd E n ext p
      (p\<lparr>pl_sv := (case r of None \<Rightarrow> pl_sv p | Some e \<Rightarrow> sv_logged (LogProcessFailed (job_topic j) e) (pl_sv p)),
         pl_workers := (pl_workers p)[i := WIdle]\<rparr>)"
| return: "pl_main p = MStopping \<or> pl_main p = MDisconnected \<Longrightarrow> i < length (pl_workers p) \<Longrightarrow> pl_workers p ! i = WIdle \<Longrightarrow>
    pool_step cd E n ext p (p\<lparr>pl_workers := (pl_workers p)[i := WReturned]\<rparr>)"
| signal: "pl_main p = MServing \<Longrightarrow> pool_step cd E n ext p (p\<lparr>pl_main := MStopping\<rparr>)"
| disconnect: "pl_main p = MStopping \<Longrightarrow> pool_step cd E n ext p (p\<lparr>pl_main := MDisconnected\<rparr>)"
| exit: "pl_main p = MDisconnected \<Longrightarrow> pool_step cd E n ext p (p\<lparr>pl_main := MExited\<rparr>)"
| external: "ext (sv_db (pl_sv p)) db' \<Longrightarrow>
    pool_step cd E n ext p
      (p\<lparr>pl_sv := (pl_sv p)\<lparr>sv_store := (sv_store (pl_sv p))\<lparr>st_world := (st_world (sv_store (pl_sv p)))\<lparr>w_db := db'\<rparr>\<rparr>\<rparr>\<rparr>)"

subsection \<open>The invariant of a pool with one message per device in flight\<close>

fun phase_msg :: "wphase \<Rightarrow> TelemetryMessage option" where
  "phase_msg (PWrite cid msg) = Some msg"
| "phase_msg (PLastSeen cid msg) = Some msg"
| "phase_msg (PLastSeenExec cid msg now) = Some msg"
| "phase_msg (PLastSeenWarn cid msg now e) = Some msg"
| "phase_msg (PRules cid msg now) = Some msg"
| "phase_msg (PActive cid msg now rules) = Some msg"
| "phase_msg (PEvaluate cid msg now rules active) = Some msg"
| "phase_msg (PApply cid msg now ds todo attempt backoff) = Some msg"
| "phase_msg (PCount cid msg ds) = Some msg"
| "phase_msg (PLogDecision cid msg d ds) = Some msg"
| "phase_msg (PDone r) = None"

text \<open>The device a worker is busy with, as the database identifies it.\<close>

definition phase_dev :: "pgenv \<Rightarrow> wphase \<Rightarrow> string option" where
  "phase_dev E ph = (case phase_msg ph of None \<Rightarrow> None | Some msg \<Rightarrow> uuid_parse E (tm_DeviceID msg))"

fun worker_dev :: "pgenv \<Rightarrow> worker \<Rightarrow> string option" where
  "worker_dev E WIdle = None"
| "worker_dev E (WTaken j) = None"
| "worker_dev E (WBusy j start ph) = phase_dev E ph"
| "worker_dev E (WTimed j r) = None"
| "worker_dev E WReturned = None"

definition exclusive :: "pgenv \<Rightarrow> pool \<Rightarrow> bool" where
  "exclusive E p \<longleftrightarrow>
     (\<forall>i < length (pl_workers p). \<forall>k < length (pl_workers p). i \<noteq> k \<longrightarrow>
        worker_dev E (pl_workers p ! i) = None \<or> worker_dev E (pl_workers p ! i) \<noteq> worker_dev E (pl_workers p ! k))"

text \<open>A rule a worker holds in hand: still in the database, for the device it was loaded for.\<close>

definition held_rule :: "string \<Rightarrow> pgdb \<Rightarrow> Rule \<Rightarrow> bool" where
  "held_rule u db r \<longleftrightarrow> rule_Severity r \<in> set severities \<and>
     (\<exists>row \<in> set (alert_rules db). ar_ID row = rule_ID r \<and> ar_DeviceID row = u)"

text \<open>What a worker knows at each phase: the view it decided on is not outdated towards more alerts.\<close>

fun phase_inv :: "pgenv \<Rightarrow> pgdb \<Rightarrow> wphase \<Rightarrow> bool" where
  "phase_inv E db (PActive cid msg now rules) \<longleftrightarrow>
     (\<exists>u. uuid_parse E (tm_DeviceID msg) = Some u \<and> distinct (map rule_ID rules) \<and> (\<forall>r \<in> set rules. held_rule u db r))"
| "phase_inv E db (PEvaluate cid msg now rules active) \<longleftrightarrow>
     (\<exists>u. uuid_parse E (tm_DeviceID msg) = Some u \<and> distinct (map rule_ID rules) \<and> (\<forall>r \<in> set rules. held_rule u db r)) \<and>
     (\<forall>r \<in> set rules. \<not> map_get False active (rule_ID r) \<longrightarrow> active_count (rule_ID r) db = 0)"
| "phase_inv E db (PApply cid msg now ds todo attempt backoff) \<longleftrightarrow>
     (\<exists>u. uuid_parse E (tm_DeviceID msg) = Some u \<and> distinct (map (\<lambda>d. rule_ID (rd_Rule d)) todo) \<and>
        (\<forall>d \<in> set todo. decision_ok u db d)) \<and>
     (\<forall>d \<in> set todo. rd_Decision d = CreateAlert \<longrightarrow> active_count (rule_ID (rd_Rule d)) db = 0)"
| "phase_inv E db ph \<longleftrightarrow> True"

text \<open>
  A change of the database that leaves what a worker knows about device \<open>u\<close> valid: no rule is
  removed or moved to another device, and no rule of the device gains an active alert.
\<close>

definition compatible :: "string \<Rightarrow> pgdb \<Rightarrow> pgdb \<Rightarrow> bool" where
  "compatible u db db' \<longleftrightarrow>
     (\<forall>r \<in> set (alert_rules db). \<exists>r' \<in> set (alert_rules db'). ar_ID r' = ar_ID r \<and> ar_DeviceID r' = ar_DeviceID r) \<and>
     (\<forall>r \<in> set (alert_rules db). ar_DeviceID r = u \<longrightarrow> active_count (ar_ID r) db' \<le> active_count (ar_ID r) db)"

lemma compatible_refl [simp]: "compatible u db db"
  by (auto simp: compatible_def)

lemma held_rule_compatible: "compatible u db db' \<Longrightarrow> held_rule u db r \<Longrightarrow>
   held_rule u db' r \<and> active_count (rule_ID r) db' \<le> active_count (rule_ID r) db"
  unfolding compatible_def held_rule_def by metis

lemma decision_ok_held: "decision_ok u db d \<longleftrightarrow> held_rule u db (rd_Rule d)"
  by (simp add: decision_ok_def held_rule_def)

lemma phase_inv_compatible:
  assumes "phase_inv E db ph" "\<And>u. phase_dev E ph = Some u \<Longrightarrow> compatible u db db'"
  shows "phase_inv E db' ph"
  using assms
proof (induction E db ph rule: phase_inv.induct)
  case (1 E db cid msg now rules)
  then show ?case using held_rule_compatible by (fastforce simp: phase_dev_def)
next
  case (2 E db cid msg now rules active)
  then obtain u where "uuid_parse E (tm_DeviceID msg) = Some u" "compatible u db db'" "\<forall>r \<in> set rules. held_rule u db r"
    by (auto simp: phase_dev_def)
  with 2 held_rule_compatible [of u db db'] show ?case by fastforce
next
  case (3 E db cid msg now ds todo attempt backoff)
  then obtain u where "uuid_parse E (tm_DeviceID msg) = Some u" "compatible u db db'" "\<forall>d \<in> set todo. decision_ok u db d"
    by (auto simp: phase_dev_def)
  with 3 held_rule_compatible [of u db db'] show ?case by (fastforce simp: decision_ok_held)
qed simp_all

definition sv_good :: "pgenv \<Rightarrow> Service \<Rightarrow> bool" where
  "sv_good E sv \<longleftrightarrow> pgenv_ok E \<and> w_faults (st_world (sv_store sv)) = [] \<and> db_ok E (sv_db sv) \<and> ids_fresh E (sv_db sv) \<and> one_active (sv_db sv)"

text \<open>The result of a step: still good, knowledge valid, same device, harmless for other devices.\<close>

definition step_good :: "pgenv \<Rightarrow> wphase \<Rightarrow> Service \<Rightarrow> wphase \<times> Service \<Rightarrow> bool" where
  "step_good E ph sv out \<longleftrightarrow> (case out of (ph', sv') \<Rightarrow>
     sv_good E sv' \<and> phase_inv E (sv_db sv') ph' \<and> phase_dev E ph' \<in> {None, phase_dev E ph} \<and>
     (\<forall>v. phase_dev E ph \<noteq> Some v \<longrightarrow> compatible v (sv_db sv) (sv_db sv')))"

lemma step_good_same_db:
  "sv_good E sv \<Longrightarrow> sv_db sv' = sv_db sv \<Longrightarrow> w_faults (st_world (sv_store sv')) = [] \<Longrightarrow>
   phase_inv E (sv_db sv) ph' \<Longrightarrow> phase_dev E ph' \<in> {None, phase_dev E ph} \<Longrightarrow> step_good E ph sv (ph', sv')"
  by (simp add: step_good_def sv_good_def)

lemma pstep_last_seen_good:
  assumes "pgenv_ok E" "sv_good E sv"
  shows "step_good E (PLastSeenExec cid msg now) sv (pstep E n t (PLastSeenExec cid msg now) sv)"
proof (cases "uuid_parse E (tm_DeviceID msg)")
  case None
  with assms show ?thesis
    by (simp add: run_stmt_no_fault stmt_last_seen_def sv_good_def step_good_def phase_dev_def)
next
  case (Some u)
  then obtain db' where db': "stmt_last_seen E (tm_DeviceID msg) now (sv_db sv) = Inr ((), db')"
    by (simp add: stmt_last_seen_def)
  note ok = stmt_last_seen_ok [OF db']
  have "compatible v (sv_db sv) db'" for v using ok(3,4) by (auto simp: compatible_def)
  moreover have "ids_fresh E db'" "one_active db'" "db_ok E db'"
    using assms ok by (simp_all add: sv_good_def ids_fresh_def one_active_def)
  ultimately show ?thesis
    using db' assms by (simp add: run_stmt_no_fault sv_good_def step_good_def phase_dev_def)
qed

lemma pstep_rules_good:
  assumes E: "pgenv_ok E" and sv: "sv_good E sv"
  shows "step_good E (PRules cid msg now) sv (pstep E n t (PRules cid msg now) sv)"
proof (cases "uuid_parse E (tm_DeviceID msg)")
  case None
  with sv show ?thesis
    by (simp add: LoadEnabledRules_def query_enabled_rules_def run_query_no_fault sv_good_def step_good_def phase_dev_def)
next
  case (Some u)
  from sv have nf: "w_faults (st_world (sv_store sv)) = []" and db: "db_ok E (sv_db sv)" by (simp_all add: sv_good_def)
  have "held_rule u (sv_db sv) r" if "r \<in> set (enabled_rules E u (sv_db sv))" for r
    using that enabled_rules_member [OF E] db_ok_rule_row [OF db] by (auto simp: held_rule_def rule_of_row_def)
  then show ?thesis
    using LoadEnabledRules_no_fault [OF nf Some] sv enabled_rules_distinct [OF E db] Some
    by (auto intro!: step_good_same_db simp: sv_good_def phase_dev_def)
qed

lemma pstep_active_good:
  assumes E: "pgenv_ok E" and sv: "sv_good E sv" and inv: "phase_inv E (sv_db sv) (PActive cid msg now rules)"
  shows "step_good E (PActive cid msg now rules) sv (pstep E n t (PActive cid msg now rules) sv)"
proof -
  from sv have nf: "w_faults (st_world (sv_store sv)) = []" and db: "db_ok E (sv_db sv)" by (simp_all add: sv_good_def)
  from inv obtain u where u: "uuid_parse E (tm_DeviceID msg) = Some u" and held: "\<forall>r \<in> set rules. held_rule u (sv_db sv) r"
    by auto
  have "active_count (rule_ID r) (sv_db sv) = 0"
    if "r \<in> set rules" "\<not> map_get False (active_ids E u (sv_db sv)) (rule_ID r)" for r
    using that held active_ids_correct [OF E db] by (fastforce simp: held_rule_def)
  with LoadActiveRuleIDs_no_fault [OF nf u] sv inv nf show ?thesis
    by (auto intro!: step_good_same_db simp: phase_dev_def)
qed

lemma pstep_evaluate_good:
  assumes E: "pgenv_ok E" and sv: "sv_good E sv" and inv: "phase_inv E (sv_db sv) (PEvaluate cid msg now rules active)"
  shows "step_good E (PEvaluate cid msg now rules active) sv (pstep E n t (PEvaluate cid msg now rules active) sv)"
proof -
  from inv obtain u where u: "uuid_parse E (tm_DeviceID msg) = Some u" and dist: "distinct (map rule_ID rules)"
    and held: "\<forall>r \<in> set rules. held_rule u (sv_db sv) r" by auto
  obtain ds tr where ev: "tracker_Evaluate (sv_tracker sv) rules (tm_Readings msg) active n = (ds, tr)" by force
  then have ds: "ds = decisions_for rules (tm_Readings msg) active (tr_streaks (sv_tracker sv)) n"
    using tracker_Evaluate_decisions [OF dist, of "sv_tracker sv" "tm_Readings msg" active n] by simp
  have rule: "rd_Rule d \<in> set rules" if "d \<in> set ds" for d
    using that ds by (auto dest: table_decisions_rule)
  have create: "\<not> map_get False active (rule_ID (rd_Rule d))" if "d \<in> set ds" "rd_Decision d = CreateAlert" for d
    using that ds by (auto simp: table_decisions_def Let_def decision_table_eq split: option.splits if_splits)
  have "phase_inv E (sv_db sv) (PApply cid msg now ds ds 1 (100 * millisecond))"
    using u held rule create inv decisions_for_distinct [OF dist] ds by (auto simp: decision_ok_held)
  with sv ev show ?thesis by (auto intro!: step_good_same_db simp: sv_good_def phase_dev_def)
qed

lemma decision_stmt_effect:
  assumes "db_ok E db" "decision_ok u db d" "decision_stmt E dev t d db = Inr ((), db')"
  shows "active_count i db' = (if rule_ID (rd_Rule d) = i
    then (case rd_Decision d of CreateAlert \<Rightarrow> active_count i db + 1 | AutoResolve \<Rightarrow> 0 | NoAction \<Rightarrow> active_count i db)
    else active_count i db)"
proof -
  have "pg_apply E dev t [d] db = (True, db')" using assms(3) by (simp add: pg_apply_Cons)
  with pg_sink.apply_all_effect [of "[d]" E dev t db i] decision_ok_known [OF assms(1,2)] show ?thesis by auto
qed

lemma pstep_apply_good:
  assumes E: "pgenv_ok E" and sv: "sv_good E sv"
    and inv: "phase_inv E (sv_db sv) (PApply cid msg now ds (d # todo) attempt backoff)"
  shows "step_good E (PApply cid msg now ds (d # todo) attempt backoff) sv
    (pstep E n t (PApply cid msg now ds (d # todo) attempt backoff) sv)"
proof -
  let ?db = "sv_db sv" and ?i = "rule_ID (rd_Rule d)"
  from sv have nf: "w_faults (st_world (sv_store sv)) = []" and db: "db_ok E ?db" and fresh: "ids_fresh E ?db"
    and one: "one_active ?db" by (simp_all add: sv_good_def)
  from inv obtain u where u: "uuid_parse E (tm_DeviceID msg) = Some u"
    and ok: "\<forall>e \<in> set (d # todo). decision_ok u ?db e" and dist: "distinct (map (\<lambda>d. rule_ID (rd_Rule d)) (d # todo))"
    and zero: "\<forall>e \<in> set (d # todo). rd_Decision e = CreateAlert \<longrightarrow> active_count (rule_ID (rd_Rule e)) ?db = 0" by auto
  from decision_stmt_ok [OF E db fresh u, of d now] ok obtain db' where db': "decision_stmt E (tm_DeviceID msg) now d ?db = Inr ((), db')"
    and good: "db_ok E db'" "ids_fresh E db'" and rules: "alert_rules db' = alert_rules ?db" by auto
  note eff = decision_stmt_effect [OF db _ db', of u]
  have act: "active_count i db' = (if ?i = i then (case rd_Decision d of CreateAlert \<Rightarrow> active_count i ?db + 1
      | AutoResolve \<Rightarrow> 0 | NoAction \<Rightarrow> active_count i ?db) else active_count i ?db)" for i
    using eff ok by simp
  have "one_active db'"
    using one zero act unfolding one_active_def by (auto split: Decision.split)
  moreover have "compatible v ?db db'" if "v \<noteq> u" for v
  proof -
    have "active_count (ar_ID r) db' \<le> active_count (ar_ID r) ?db"
      if r: "r \<in> set (alert_rules ?db)" "ar_DeviceID r = v" for r
    proof -
      from ok obtain row where "row \<in> set (alert_rules ?db)" "ar_ID row = ?i" "ar_DeviceID row = u"
        by (auto simp: decision_ok_def)
      with r \<open>v \<noteq> u\<close> have "ar_ID r \<noteq> ?i" using distinct_map_eqD [OF db_ok_rules_distinct [OF db]] by metis
      with act show ?thesis by simp
    qed
    then show ?thesis using rules by (auto simp: compatible_def)
  qed
  moreover have "phase_inv E db' (PApply cid msg now ds todo attempt backoff)"
  proof -
    have "active_count (rule_ID (rd_Rule e)) db' = active_count (rule_ID (rd_Rule e)) ?db" if "e \<in> set todo" for e
      using act [of "rule_ID (rd_Rule e)"] distinct_map_ConsD [OF dist that] by simp
    with u ok dist zero show ?thesis by (simp add: decision_ok_cong [OF rules])
  qed
  moreover have "decision_stmt E (tm_DeviceID msg) now d ?db = Inr ((), ?db)" if "rd_Decision d = NoAction"
    using that by (simp add: decision_stmt_def)
  ultimately show ?thesis
    using E db' good nf u by (auto simp: run_stmt_no_fault step_good_def sv_good_def phase_dev_def)
qed

lemma pstep_good:
  assumes E: "pgenv_ok E" and sv: "sv_good E sv" and inv: "phase_inv E (sv_db sv) ph"
  shows "step_good E ph sv (pstep E n t ph sv)"
proof (cases ph)
  case (PWrite cid msg)
  with sv show ?thesis
    by (auto intro!: step_good_same_db simp: sv_good_def WriteTelemetry_no_fault phase_dev_def)
next
  case (PLastSeen cid msg)
  with sv show ?thesis
    by (cases "last_seen_due (tm_DeviceID msg) t (sv_store sv)")
      (auto intro!: step_good_same_db simp: sv_good_def phase_dev_def)
next
  case (PApply cid msg now ds todo attempt backoff)
  show ?thesis
  proof (cases todo)
    case Nil
    with PApply sv show ?thesis by (auto intro!: step_good_same_db simp: sv_good_def phase_dev_def)
  next
    case (Cons d todo')
    with PApply pstep_apply_good [OF E sv] inv show ?thesis by blast
  qed
next
  case (PLastSeenWarn cid msg now e)
  with sv show ?thesis by (auto intro!: step_good_same_db simp: sv_good_def phase_dev_def)
next
  case (PCount cid msg ds)
  with sv show ?thesis by (cases ds) (auto intro!: step_good_same_db simp: sv_good_def phase_dev_def)
next
  case (PLogDecision cid msg d ds)
  with sv show ?thesis by (auto intro!: step_good_same_db simp: sv_good_def phase_dev_def)
next
  case (PDone r)
  with sv show ?thesis by (auto intro!: step_good_same_db simp: sv_good_def)
next
  case PLastSeenExec
  show ?thesis unfolding PLastSeenExec by (rule pstep_last_seen_good [OF E sv])
next
  case PRules
  show ?thesis unfolding PRules by (rule pstep_rules_good [OF E sv])
next
  case PActive
  show ?thesis unfolding PActive by (rule pstep_active_good [OF E sv inv [unfolded PActive]])
next
  case PEvaluate
  show ?thesis unfolding PEvaluate by (rule pstep_evaluate_good [OF E sv inv [unfolded PEvaluate]])
qed

subsection \<open>Other writers of the database\<close>

text \<open>
  The interface between the ingestion workers and whoever else writes the same database: the other
  writer keeps the schema and its own ids fresh, removes no rule and opens no alert.
\<close>

locale quiet_writer =
  fixes E :: pgenv
    and ext :: "pgdb \<Rightarrow> pgdb \<Rightarrow> bool"
  assumes ext_ok: "ext db db' \<Longrightarrow> pgenv_ok E \<Longrightarrow> db_ok E db \<Longrightarrow> db_ok E db'"
    and ext_fresh: "ext db db' \<Longrightarrow> pgenv_ok E \<Longrightarrow> ids_fresh E db \<Longrightarrow> ids_fresh E db'"
    and ext_active: "ext db db' \<Longrightarrow> db_ok E db \<Longrightarrow> active_count i db' \<le> active_count i db"
    and ext_rules: "ext db db' \<Longrightarrow> db_ok E db \<Longrightarrow> r \<in> set (alert_rules db) \<Longrightarrow>
      \<exists>r' \<in> set (alert_rules db'). ar_ID r' = ar_ID r \<and> ar_DeviceID r' = ar_DeviceID r"
begin

lemma ext_compatible: "ext db db' \<Longrightarrow> db_ok E db \<Longrightarrow> compatible u db db'"
  using ext_active ext_rules by (simp add: compatible_def)

end

fun worker_inv :: "pgenv \<Rightarrow> pgdb \<Rightarrow> worker \<Rightarrow> bool" where
  "worker_inv E db WIdle \<longleftrightarrow> True"
| "worker_inv E db (WTaken j) \<longleftrightarrow> True"
| "worker_inv E db (WBusy j start ph) \<longleftrightarrow> phase_inv E db ph"
| "worker_inv E db (WTimed j r) \<longleftrightarrow> True"
| "worker_inv E db WReturned \<longleftrightarrow> True"

text \<open>After the signal no worker changes the database, so nothing need be known of the workers.\<close>

definition pool_inv :: "pgenv \<Rightarrow> pool \<Rightarrow> bool" where
  "pool_inv E p \<longleftrightarrow> sv_good E (pl_sv p) \<and> exclusive E p \<and>
     (pl_main p = MServing \<longrightarrow> (\<forall>k < length (pl_workers p). worker_inv E (sv_db (pl_sv p)) (pl_workers p ! k)))"

definition pool_init :: "pgenv \<Rightarrow> pool \<Rightarrow> bool" where
  "pool_init E p \<longleftrightarrow> sv_good E (pl_sv p) \<and> set (pl_workers p) \<subseteq> {WIdle}"

text \<open>A step after which no two workers are busy with the same device.\<close>

definition exclusive_step ::
  "codec \<Rightarrow> pgenv \<Rightarrow> int \<Rightarrow> (pgdb \<Rightarrow> pgdb \<Rightarrow> bool) \<Rightarrow> pool \<Rightarrow> pool \<Rightarrow> bool" where
  "exclusive_step cd E n ext p q \<longleftrightarrow> pool_step cd E n ext p q \<and> exclusive E q"

lemma worker_inv_compatible:
  assumes "worker_inv E db w" "\<And>u. worker_dev E w = Some u \<Longrightarrow> compatible u db db'"
  shows "worker_inv E db' w"
  using assms phase_inv_compatible by (cases w) auto

lemma start_phase_inv [simp]: "phase_inv E db (start_phase cd rnd j)"
  by (simp add: start_phase_def split: sum.split)

lemma sv_good_cong: "sv_store sv' = sv_store sv \<Longrightarrow> sv_good E sv' = sv_good E sv"
  by (simp add: sv_good_def)

lemma pool_inv_worker_update:
  assumes "pool_inv E p" "exclusive E q" "sv_store (pl_sv q) = sv_store (pl_sv p)"
    "pl_workers q = (pl_workers p)[i := w]" "worker_inv E (sv_db (pl_sv p)) w" "pl_main q = pl_main p"
  shows "pool_inv E q"
proof -
  have "worker_inv E (sv_db (pl_sv p)) (pl_workers q ! k)" if "k < length (pl_workers p)" "pl_main p = MServing" for k
    using that assms(1,4,5) by (cases "k = i") (simp_all add: pool_inv_def)
  with assms sv_good_cong [OF assms(3), of E] show ?thesis by (simp add: pool_inv_def)
qed

lemma on_message_select_store: "on_message_select topic payload (c, sv) = (d, c', sv') \<Longrightarrow> sv_store sv' = sv_store sv"
  by (auto simp: on_message_select_def split: option.splits)

lemma on_message_warn_store [simp]: "sv_store (on_message_warn topic sv) = sv_store sv"
  by (simp add: on_message_warn_def)

lemma with_faults_frame [simp]:
  "sv_db (with_faults fs sv) = sv_db sv" "w_telemetry (st_world (sv_store (with_faults fs sv))) = w_telemetry (st_world (sv_store sv))"
  "w_faults (st_world (sv_store (with_faults fs sv))) = fs"
  by (simp_all add: with_faults_def)

lemma run_stmt_Fail: "w_faults w = Fail m # fs \<Longrightarrow> run_stmt f w = (Inl (ClientErr m), w\<lparr>w_faults := fs\<rparr>)"
  by (simp add: run_stmt_def next_fault_def)

lemma run_query_Fail: "w_faults w = Fail m # fs \<Longrightarrow> run_query q w = (Inl (ClientErr m), w\<lparr>w_faults := fs\<rparr>)"
  by (simp add: run_query_def next_fault_def)

lemma WriteTelemetry_Fail:
  "w_faults (st_world s) = Fail m # fs \<Longrightarrow>
   WriteTelemetry msg t s = (Some (MongoInsert m), s\<lparr>st_world := (st_world s)\<lparr>w_faults := fs\<rparr>\<rparr>)"
  by (simp add: WriteTelemetry_def next_fault_def)

lemmas refused_calls = run_stmt_Fail run_query_Fail WriteTelemetry_Fail

text \<open>A step whose database call is refused changes neither database.\<close>

lemma pstep_refused:
  assumes "w_faults (st_world (sv_store sv)) = Fail m # fs"
  shows "sv_db (snd (pstep E n t ph sv)) = sv_db sv"
    "w_telemetry (st_world (sv_store (snd (pstep E n t ph sv)))) = w_telemetry (st_world (sv_store sv))"
  by (cases "(E, n, t, ph, sv)" rule: pstep.cases;
      use assms in \<open>simp add: refused_calls LoadEnabledRules_def LoadActiveRuleIDs_def Let_def split_beta sleep_def\<close>)+

lemma ctx_pstep_stopped:
  assumes "m \<noteq> MServing" "ctx_pstep m E n t ph sv = (ph', sv')"
  shows "sv_db sv' = sv_db sv" "w_telemetry (st_world (sv_store sv')) = w_telemetry (st_world (sv_store sv))"
    "w_faults (st_world (sv_store sv')) = w_faults (st_world (sv_store sv))"
  using assms pstep_refused [of "with_faults [Fail ''context canceled''] sv" _ "[]" E n t ph]
  by (auto simp: ctx_pstep_def split: prod.splits)

lemma ctx_pstep_serving [simp]: "ctx_pstep MServing E n t ph sv = pstep E n t ph sv"
  by (simp add: ctx_pstep_def)

lemma pool_inv_work:
  assumes E: "pgenv_ok E" and p: "pool_inv E p" and m: "pl_main p = MServing" and i: "i < length (pl_workers p)" "pl_workers p ! i = WBusy j start ph"
    and st: "pstep E n t ph (pl_sv p) = (ph', sv')"
    and ex: "exclusive E (p\<lparr>pl_sv := sv', pl_workers := (pl_workers p)[i := WBusy j start ph']\<rparr>)"
  shows "pool_inv E (p\<lparr>pl_sv := sv', pl_workers := (pl_workers p)[i := WBusy j start ph']\<rparr>)"
proof -
  from p m i have "sv_good E (pl_sv p)" "phase_inv E (sv_db (pl_sv p)) ph" by (auto simp: pool_inv_def)
  from pstep_good [OF E this, of n t] st have good: "sv_good E sv'" "phase_inv E (sv_db sv') ph'"
    and other: "\<And>v. phase_dev E ph \<noteq> Some v \<Longrightarrow> compatible v (sv_db (pl_sv p)) (sv_db sv')"
    by (auto simp: step_good_def)
  have "worker_inv E (sv_db sv') (pl_workers p ! k)" if k: "k < length (pl_workers p)" "k \<noteq> i" for k
  proof (rule worker_inv_compatible)
    show "worker_inv E (sv_db (pl_sv p)) (pl_workers p ! k)" using p m k by (simp add: pool_inv_def)
    fix v assume v: "worker_dev E (pl_workers p ! k) = Some v"
    from p k i have "worker_dev E (pl_workers p ! k) = None \<or> worker_dev E (pl_workers p ! k) \<noteq> worker_dev E (pl_workers p ! i)"
      unfolding pool_inv_def exclusive_def by blast
    with v i have "phase_dev E ph \<noteq> Some v" by auto
    then show "compatible v (sv_db (pl_sv p)) (sv_db sv')" by (rule other)
  qed
  with good have "worker_inv E (sv_db sv') ((pl_workers p)[i := WBusy j start ph'] ! k)"
    if "k < length (pl_workers p)" for k using that by (cases "k = i") simp_all
  with good ex show ?thesis by (simp add: pool_inv_def)
qed

context quiet_writer
begin

lemma pool_inv_step:
  assumes "pool_step cd E n ext p q" "exclusive E q" "pool_inv E p"
  shows "pool_inv E q"
  using assms
proof (induction rule: pool_step.induct)
  case (arrive p topic payload dropped c' sv')
  then have "sv_store sv' = sv_store (pl_sv p)" by (blast dest: on_message_select_store)
  with arrive show ?case by (simp add: pool_inv_def sv_good_def exclusive_def)
next
  case (warn p ds topic ds')
  then show ?case by (simp add: pool_inv_def sv_good_def exclusive_def)
next
  case (take p i j c')
  show ?case by (rule pool_inv_worker_update [OF take(6,5), where i = i and w = "WTaken j"]) simp_all
next
  case (receive p i j start rnd)
  show ?case
    by (rule pool_inv_worker_update [OF receive(5,4), where i = i and w = "WBusy j start (start_phase cd rnd j)"])
      simp_all
next
  case (work p i j start ph t ph' sv')
  from work have E: "pgenv_ok E" and good: "sv_good E (pl_sv p)" by (simp_all add: pool_inv_def sv_good_def)
  show ?case
  proof (cases "pl_main p = MServing")
    case True
    with work show ?thesis by (intro pool_inv_work [OF E work(6)]) simp_all
  next
    case False
    with ctx_pstep_stopped [OF False work(4)] good work(5) show ?thesis by (simp add: pool_inv_def sv_good_def)
  qed
next
  case (observe p i j start r stop)
  show ?case by (rule pool_inv_worker_update [OF observe(5,4), where i = i and w = "WTimed j r"]) simp_all
next
  case (report p i j r)
  show ?case
    by (rule pool_inv_worker_update [OF report(5,4), where i = i and w = WIdle]) (simp_all split: option.split)
next
  case (return p i)
  show ?case by (rule pool_inv_worker_update [OF return(5,4), where i = i and w = WReturned]) simp_all
next
  case (external p db')
  let ?db = "sv_db (pl_sv p)"
  from external have db: "db_ok E ?db" and good: "db_ok E db'" "ids_fresh E db'" and one: "one_active ?db"
    using ext_ok ext_fresh by (auto simp: pool_inv_def sv_good_def)
  have "one_active db'" using one ext_active [OF external(1) db] unfolding one_active_def by (meson order_trans)
  have "worker_inv E db' w" if "worker_inv E ?db w" for w
    using that external(1) db by (auto intro: worker_inv_compatible ext_compatible)
  with external good \<open>one_active db'\<close> show ?case by (simp add: pool_inv_def sv_good_def)
qed (simp_all add: pool_inv_def)

lemma pool_init_inv: "pool_init E p \<Longrightarrow> pool_inv E p"
  unfolding pool_init_def pool_inv_def exclusive_def
  by (metis insertE nth_mem singletonD subsetD worker_dev.simps(1) worker_inv.simps(1) empty_iff)

end

sublocale quiet_writer \<subseteq> pool_system: invariant_system "pool_init E" "exclusive_step cd E n ext" "pool_inv E" for cd n
  by unfold_locales (auto simp: exclusive_step_def intro: pool_inv_step pool_init_inv)

subsection \<open>Schedules\<close>

text \<open>A scheduler's choice: which message arrives or which goroutine moves, and at what time.\<close>

datatype action =
    Arrive string string
  | Warn
  | Take nat
  | Receive nat time
  | Work nat time
  | Observe nat time
  | Report nat
  | Return nat
  | Main

fun next_main :: "main_phase \<Rightarrow> main_phase option" where
  "next_main MServing = Some MStopping"
| "next_main MStopping = Some MDisconnected"
| "next_main MDisconnected = Some MExited"
| "next_main MExited = None"

fun sched_step :: "codec \<Rightarrow> pgenv \<Rightarrow> int \<Rightarrow> rand_source \<Rightarrow> action \<Rightarrow> pool \<Rightarrow> pool option" where
  "sched_step cd E n rnd (Arrive topic payload) p =
     (if pl_main p = MServing \<or> pl_main p = MStopping then
        (case on_message_select topic payload (pl_chan p, pl_sv p) of (dropped, c', sv') \<Rightarrow>
          Some (p\<lparr>pl_chan := c', pl_sv := sv', pl_dropped := pl_dropped p @ (case dropped of None \<Rightarrow> [] | Some d \<Rightarrow> [d])\<rparr>))
      else None)"
| "sched_step cd E n rnd Warn p =
     (case pl_dropped p of
        [] \<Rightarrow> None
      | topic # ds \<Rightarrow> if pl_main p \<noteq> MExited
          then Some (p\<lparr>pl_sv := on_message_warn topic (pl_sv p), pl_dropped := ds\<rparr>) else None)"
| "sched_step cd E n rnd (Take i) p =
     (if pl_main p \<noteq> MExited \<and> i < length (pl_workers p) then
        (case (pl_workers p ! i, chan_recv (pl_chan p)) of
           (WIdle, Some (j, c')) \<Rightarrow> Some (p\<lparr>pl_chan := c', pl_workers := (pl_workers p)[i := WTaken j]\<rparr>)
         | _ \<Rightarrow> None)
      else None)"
| "sched_step cd E n rnd (Receive i start) p =
     (if pl_main p \<noteq> MExited \<and> i < length (pl_workers p) then
        (case pl_workers p ! i of
           WTaken j \<Rightarrow> Some (p\<lparr>pl_sv := (pl_sv p)\<lparr>sv_messagesReceived := sv_messagesReceived (pl_sv p) + 1\<rparr>,
             pl_workers := (pl_workers p)[i := WBusy j start (start_phase cd rnd j)]\<rparr>)
         | _ \<Rightarrow> None)
      else None)"
| "sched_step cd E n rnd (Work i t) p =
     (if pl_main p \<noteq> MExited \<and> i < length (pl_workers p) then
        (case pl_workers p ! i of
           WBusy j start ph \<Rightarrow> (case ctx_pstep (pl_main p) E n t ph (pl_sv p) of (ph', sv') \<Rightarrow>
             Some (p\<lparr>pl_sv := sv', pl_workers := (pl_workers p)[i := WBusy j start ph']\<rparr>))
         | _ \<Rightarrow> None)
      else None)"
| "sched_step cd E n rnd (Observe i stop) p =
     (if pl_main p \<noteq> MExited \<and> i < length (pl_workers p) then
        (case pl_workers p ! i of
           WBusy j start (PDone r) \<Rightarrow>
             Some (p\<lparr>pl_sv := (pl_sv p)\<lparr>sv_processingDuration := sv_processingDuration (pl_sv p) @ [time_Sub stop start]\<rparr>,
               pl_workers := (pl_workers p)[i := WTimed j r]\<rparr>)
         | _ \<Rightarrow> None)
      else None)"
| "sched_step cd E n rnd (Report i) p =
     (if pl_main p \<noteq> MExited \<and> i < length (pl_workers p) then
        (case pl_workers p ! i of
           WTimed j r \<Rightarrow>
             Some (p\<lparr>pl_sv := (case r of None \<Rightarrow> pl_sv p | Some e \<Rightarrow> sv_logged (LogProcessFailed (job_topic j) e) (pl_sv p)),
               pl_workers := (pl_workers p)[i := WIdle]\<rparr>)
         | _ \<Rightarrow> None)
      else None)"
| "sched_step cd E n rnd (Return i) p =
     (if (pl_main p = MStopping \<or> pl_main p = MDisconnected) \<and> i < length (pl_workers p) then
        (case pl_workers p ! i of WIdle \<Rightarrow> Some (p\<lparr>pl_workers := (pl_workers p)[i := WReturned]\<rparr>) | _ \<Rightarrow> None)
      else None)"
| "sched_step cd E n rnd Main p = map_option (\<lambda>m. p\<lparr>pl_main := m\<rparr>) (next_main (pl_main p))"

fun sched :: "codec \<Rightarrow> pgenv \<Rightarrow> int \<Rightarrow> rand_source \<Rightarrow> action list \<Rightarrow> pool \<Rightarrow> pool option" where
  "sched cd E n rnd [] p = Some p"
| "sched cd E n rnd (a # as) p = (case sched_step cd E n rnd a p of None \<Rightarrow> None | Some q \<Rightarrow> sched cd E n rnd as q)"

lemma sched_step_sound: "sched_step cd E n rnd a p = Some q \<Longrightarrow> pool_step cd E n ext p q"
proof (induction cd E n rnd a p rule: sched_step.induct)
  case (1 cd E n rnd topic payload p)
  then show ?case by (auto intro: arrive split: prod.splits if_splits)
next
  case (2 cd E n rnd p)
  then obtain topic ds where "pl_main p \<noteq> MExited" "pl_dropped p = [] @ topic # ds" by (auto split: list.splits if_splits)
  from warn [OF this, of cd E n ext] 2 this show ?case by simp
next
  case (3 cd E n rnd i p)
  from 3 obtain j c' where "pl_main p \<noteq> MExited" "i < length (pl_workers p)" "pl_workers p ! i = WIdle"
    "chan_recv (pl_chan p) = Some (j, c')"
    by (auto split: if_splits option.splits worker.splits)
  from take [OF this, of cd E n ext] 3 this show ?case by simp
next
  case (4 cd E n rnd i start p)
  from 4 obtain j where "pl_main p \<noteq> MExited" "i < length (pl_workers p)" "pl_workers p ! i = WTaken j"
    by (auto split: if_splits worker.splits)
  from receive [OF this, of cd E n ext start rnd] 4 this show ?case by simp
next
  case (5 cd E n rnd i t p)
  then show ?case by (auto intro: work split: if_splits prod.splits worker.splits)
next
  case (6 cd E n rnd i stop p)
  from 6 obtain j start r where i: "pl_main p \<noteq> MExited" "i < length (pl_workers p)" "pl_workers p ! i = WBusy j start (PDone r)"
    by (auto split: if_splits worker.splits wphase.splits)
  from observe [OF i, of cd E n ext stop] 6 i show ?case by simp
next
  case (7 cd E n rnd i p)
  from 7 obtain j r where i: "pl_main p \<noteq> MExited" "i < length (pl_workers p)" "pl_workers p ! i = WTimed j r"
    by (auto split: if_splits worker.splits)
  from report [OF i, of cd E n ext] 7 i show ?case by simp
next
  case (8 cd E n rnd i p)
  then show ?case by (auto intro: return split: if_splits worker.splits)
next
  case (9 cd E n rnd p)
  then show ?case by (cases "pl_main p") (auto intro: signal disconnect exit)
qed

lemma sched_sound: "sched cd E n rnd as p = Some q \<Longrightarrow> run (pool_step cd E n ext) p q"
proof (induction as arbitrary: p)
  case Nil
  then show ?case by (simp add: run_refl)
next
  case (Cons a as)
  then obtain p1 where "sched_step cd E n rnd a p = Some p1" "sched cd E n rnd as p1 = Some q"
    by (auto split: option.splits)
  with Cons.IH show ?case by (blast intro: run_trans run_one sched_step_sound)
qed

text \<open>
  The default pool (four workers, debounce count three) and four messages of one device that all
  breach its rules: two are processed one after the other, the next two are interleaved.
\<close>

definition demo_pool :: pool where
  "demo_pool = NewPool (ingest_config_from_env (\<lambda>_. [])) \<lparr>w_db = demo_db, w_telemetry = [], w_faults = [], w_slept = []\<rparr>"

definition demo_works :: "nat \<Rightarrow> nat \<Rightarrow> action list" where
  "demo_works i k = replicate k (Work i 1)"

definition demo_begin :: "nat \<Rightarrow> action list" where
  "demo_begin i = [Take i, Receive i 0]"

definition demo_end :: "nat \<Rightarrow> action list" where
  "demo_end i = [Observe i 2, Report i]"

definition demo_race :: "action list" where
  "demo_race =
     replicate 4 (Arrive ''sitewatch/s1/d1/telemetry'' ''{}'') @
     demo_begin 0 @ demo_works 0 6 @ demo_end 0 @
     demo_begin 0 @ demo_works 0 5 @ demo_end 0 @
     demo_begin 0 @ demo_begin 1 @ demo_works 0 4 @ demo_works 1 4 @ demo_works 0 9 @ demo_works 1 9 @
     demo_end 0 @ demo_end 1"

lemma demo_race_outcome:
  "map_option (\<lambda>p. (active_count ''r1'' (sv_db (pl_sv p)), sv_messagesReceived (pl_sv p), sv_messagesDropped (pl_sv p)))
     (sched demo_cd demo_env 3 demo_rand demo_race demo_pool) = Some (2, 4, 0)"
  by code_simp

subsection \<open>Properties: the race\<close>

text \<open>C16: Two workers of the default pool can create two active alerts for one rule. Without any fault
  and with the default settings there is an interleaving of four breaching messages of one device
  (two processed in turn, then two workers that both load the active alerts before either inserts)
  that starts from a well-formed database without alerts and ends with two active alerts for the
  rule, although the engine's documentation promises at most one.\<close>

theorem worker_pool_race:
  "pool_init demo_env demo_pool \<and> length (pl_workers demo_pool) = 4 \<and> alerts (sv_db (pl_sv demo_pool)) = [] \<and>
   (\<exists>q. run (pool_step demo_cd demo_env (cf_debounceN (ingest_config_from_env (\<lambda>_. []))) ext) demo_pool q \<and>
      active_count ''r1'' (sv_db (pl_sv q)) = 2)"
proof -
  have n: "cf_debounceN (ingest_config_from_env (\<lambda>_. [])) = 3" "cf_workerCount (ingest_config_from_env (\<lambda>_. [])) = 4"
    by (simp_all add: ingest_config_from_env_def intFromEnv_def defaultDebounceBreaches_def defaultWorkerCount_def)
  from demo_race_outcome obtain q where "sched demo_cd demo_env 3 demo_rand demo_race demo_pool = Some q"
    "active_count ''r1'' (sv_db (pl_sv q)) = 2" by (auto simp: map_option_eq_Some)
  then have "\<exists>q. run (pool_step demo_cd demo_env 3 ext) demo_pool q \<and> active_count ''r1'' (sv_db (pl_sv q)) = 2"
    using sched_sound by blast
  moreover have "pool_init demo_env demo_pool" "length (pl_workers demo_pool) = 4"
    by (auto simp: pool_init_def demo_pool_def NewPool_def n sv_good_def NewService_def NewStore_def demo_db_ok
        demo_env_ok demo_ids_fresh demo_one_active)
  moreover have "alerts (sv_db (pl_sv demo_pool)) = []"
    by (simp add: demo_pool_def NewPool_def NewService_def NewStore_def demo_db_def)
  ultimately show ?thesis unfolding n by blast
qed

subsection \<open>Every step lets alerts only evolve\<close>

lemma run_stmt_evolves:
  assumes "\<And>db x db'. f db = Inr (x, db') \<Longrightarrow> db_evolves db db'"
  shows "db_evolves (w_db w) (w_db (snd (run_stmt f w)))"
  using run_stmt_db [of f w] assms by auto

lemma decision_stmt_evolves: "decision_stmt E dev t d db = Inr (x, db') \<Longrightarrow> db_evolves db db'"
  by (auto simp: decision_stmt_def dest: stmt_insert_alert_evolves stmt_auto_resolve_ok(1) split: Decision.splits)

lemma pstep_evolves: "db_evolves (sv_db sv) (sv_db (snd (pstep E n t ph sv)))"
proof (cases "(E, n, t, ph, sv)" rule: pstep.cases)
  case (1 E' n' t' cid msg sv')
  obtain r s where w: "WriteTelemetry msg t (sv_store sv) = (r, s)" by force
  with 1 WriteTelemetry_cases [OF w] show ?thesis by (simp split: option.split)
next
  case (3 E' n' t' cid msg now sv')
  have "db_evolves (sv_db sv) (w_db (snd (run_stmt (stmt_last_seen E (tm_DeviceID msg) now) (st_world (sv_store sv)))))"
    by (rule run_stmt_evolves) (rule stmt_last_seen_ok(1))
  with 3 show ?thesis by (simp add: split_beta split: sum.split)
next
  case (5 E' n' t' cid msg now sv')
  then show ?thesis by (simp add: split_beta split: sum.split)
next
  case (6 E' n' t' cid msg now rules sv')
  then show ?thesis by (simp add: split_beta split: sum.split)
next
  case (9 E' n' t' cid msg now ds d todo attempt backoff sv')
  have "db_evolves (sv_db sv) (w_db (snd (run_stmt (decision_stmt E (tm_DeviceID msg) now d) (st_world (sv_store sv)))))"
    by (rule run_stmt_evolves) (rule decision_stmt_evolves)
  with 9 show ?thesis by (simp add: split_beta Let_def split: sum.split)
qed (auto split: prod.split)

lemma ctx_pstep_evolves: "db_evolves (sv_db sv) (sv_db (snd (ctx_pstep m E n t ph sv)))"
proof (cases "m = MServing")
  case False
  then show ?thesis using ctx_pstep_stopped(1) [OF False, of E n t ph sv] by (cases "ctx_pstep m E n t ph sv") simp
qed (simp add: pstep_evolves)

lemma pool_step_evolves:
  assumes "pool_step cd E n ext p q" "\<And>db db'. ext db db' \<Longrightarrow> db_evolves db db'"
  shows "db_evolves (sv_db (pl_sv p)) (sv_db (pl_sv q))"
  using assms
proof (induction rule: pool_step.induct)
  case (arrive p topic payload dropped c' sv')
  then have "sv_store sv' = sv_store (pl_sv p)" by (blast dest: on_message_select_store)
  then show ?case by simp
next
  case (work p i j start ph t ph' sv')
  then show ?case using ctx_pstep_evolves [of "pl_sv p" "pl_main p" E n t ph] by simp
qed (auto split: option.split)

lemma pool_step_workers: "pool_step cd E n ext p q \<Longrightarrow> length (pl_workers q) = length (pl_workers p)"
  by (induction rule: pool_step.induct) simp_all

text \<open>A pool of one worker is exclusive at every step.\<close>

lemma single_worker_exclusive: "length (pl_workers p) = 1 \<Longrightarrow> exclusive E p"
  by (simp add: exclusive_def)

lemma single_worker_run:
  "run (pool_step cd E n ext) p q \<Longrightarrow> length (pl_workers p) = 1 \<Longrightarrow>
   length (pl_workers q) = 1 \<and> run (exclusive_step cd E n ext) p q"
proof (induction rule: run.induct)
  case (run_step s t u)
  then have "exclusive_step cd E n ext t u"
    by (simp add: exclusive_step_def single_worker_exclusive pool_step_workers)
  with run_step show ?case by (auto simp: pool_step_workers intro: run.run_step)
qed (simp add: run_refl)

end
