(* ===== verification/System.thy ===== *)
theory System
  imports Api_Http Api_Alert_List Ingest_Pool
begin

text \<open>
  The two services on their common database: the requests of the API as the other writer beside
  the ingestion workers, the life cycle of alerts over all interleavings, and at most one active
  alert per rule when no two messages of a device are processed at once.
\<close>

subsection \<open>The API as a writer of the database\<close>

text \<open>
  One request of any handler of the route table, with any faults. No handler runs more than one
  statement that writes, so for the database a request is one step.
\<close>

inductive api_request :: "codec \<Rightarrow> pgenv \<Rightarrow> pgdb \<Rightarrow> pgdb \<Rightarrow> bool" for cd E where
  served: "(pattern, h) \<in> set (route_table cd E) \<Longrightarrow> app_db a = db \<Longrightarrow> h r (w, a) = (w', a') \<Longrightarrow>
    api_request cd E db (app_db a')"

text \<open>A request that does not delete a rule.\<close>

inductive api_edit :: "codec \<Rightarrow> pgenv \<Rightarrow> pgdb \<Rightarrow> pgdb \<Rightarrow> bool" for cd E where
  edited: "(pattern, h) \<in> set (route_table cd E) \<Longrightarrow> pattern \<noteq> ''DELETE /alert-rules/{id}'' \<Longrightarrow> app_db a = db \<Longrightarrow>
    h r (w, a) = (w', a') \<Longrightarrow> api_edit cd E db (app_db a')"

inductive_cases api_requestE: "api_request cd E db db'"
inductive_cases api_editE: "api_edit cd E db db'"

lemma api_edit_request: "api_edit cd E db db' \<Longrightarrow> api_request cd E db db'"
  by (auto elim!: api_editE intro: api_request.intros)

lemma api_request_safe: "api_request cd E db db' \<Longrightarrow> safe_db E db db'"
proof (elim api_requestE)
  fix pattern h a r w w' a'
  assume "(pattern, h) \<in> set (route_table cd E)" "db' = app_db a'" "app_db a = db" "h r (w, a) = (w', a')"
  then show "safe_db E db db'"
    using route_table_codes [of E cd] api_handler.safe [of E "codes_of pattern" h a r w]
    by (auto simp: list_all_iff safe_change_def)
qed

text \<open>What the rules of the database go through under a request that deletes none.\<close>

definition rules_kept :: "pgdb \<Rightarrow> pgdb \<Rightarrow> bool" where
  "rules_kept db db' \<longleftrightarrow>
     (\<forall>r \<in> set (alert_rules db). \<exists>r' \<in> set (alert_rules db'). ar_ID r' = ar_ID r \<and> ar_DeviceID r' = ar_DeviceID r)"

lemma rules_kept_same: "alert_rules db' = alert_rules db \<Longrightarrow> rules_kept db db'"
  by (auto simp: rules_kept_def)

lemma rules_kept_refl [simp]: "rules_kept db db"
  by (simp add: rules_kept_same)

lemma rules_kept_trans: "rules_kept a b \<Longrightarrow> rules_kept b c \<Longrightarrow> rules_kept a c"
  unfolding rules_kept_def by metis

lemma app_stmt_rules_kept:
  assumes "\<And>db x db'. f db = Inr (x, db') \<Longrightarrow> rules_kept db db'" "app_stmt f a = (r, a')"
  shows "rules_kept (app_db a) (app_db a')"
  using assms run_stmt_db [of f "app_world a"] by (auto simp: app_stmt_def split_beta)

lemma app_query_rules_kept: "app_query q a = (r, a') \<Longrightarrow> rules_kept (app_db a) (app_db a')"
  by (auto simp: app_query_def split_beta)

lemma insert_rule_kept: "stmt_insert_rule E x enabled db = Inr (row, db') \<Longrightarrow> rules_kept db db'"
  by (auto simp: rules_kept_def stmt_insert_rule_def Let_def split: option.splits if_splits)

lemma update_rule_kept: "stmt_update_rule E i x enabled db = Inr (row, db') \<Longrightarrow> rules_kept db db'"
proof -
  assume "stmt_update_rule E i x enabled db = Inr (row, db')"
  then obtain u where
    "db' = db\<lparr>alert_rules := map (\<lambda>r. if ar_ID r = u then updated_rule x enabled r else r) (alert_rules db)\<rparr>"
    by (auto simp: stmt_update_rule_Inr)
  then have db': "alert_rules db' = map (\<lambda>r. if ar_ID r = u then updated_rule x enabled r else r) (alert_rules db)"
    by simp
  show "rules_kept db db'" unfolding rules_kept_def
  proof
    fix r assume r: "r \<in> set (alert_rules db)"
    show "\<exists>r' \<in> set (alert_rules db'). ar_ID r' = ar_ID r \<and> ar_DeviceID r' = ar_DeviceID r"
    proof (rule bexI)
      show "(if ar_ID r = u then updated_rule x enabled r else r) \<in> set (alert_rules db')"
        unfolding db' set_map using r by (rule rev_image_eqI) (rule refl)
    qed simp
  qed
qed

lemma transition_rules_kept: "stmt_transition E from f i user db = Inr (al, db') \<Longrightarrow> rules_kept db db'"
  by (auto simp: stmt_transition_Inr update_alerts_def intro: rules_kept_same)

lemma exists_rules_kept: "stmt_exists E i db = Inr (b, db') \<Longrightarrow> rules_kept db db'"
  by (auto simp: stmt_exists_def split: option.splits if_splits)

lemma get_device_rules_kept: "stmt_get_device E i db = Inr (b, db') \<Longrightarrow> rules_kept db db'"
  by (auto simp: stmt_get_device_def split: option.splits list.splits)

lemma list_response_rules_kept: "rules_kept (app_db a) (app_db (snd (list_response r qm sm em v q (w, a))))"
  by (auto simp: list_response_def dest: app_query_rules_kept split: prod.split sum.split)

lemma create_rules_kept: "rules_kept (app_db a) (app_db (snd (createAlertRule cd E r (w, a))))"
  by (auto simp: createAlertRule_def dest: app_stmt_rules_kept [rotated] intro: insert_rule_kept
      split: option.split prod.split sum.split)

lemma update_rules_kept: "rules_kept (app_db a) (app_db (snd (updateAlertRule cd E r (w, a))))"
  by (auto simp: updateAlertRule_def Let_def dest: app_stmt_rules_kept [rotated] intro: update_rule_kept
      split: option.split prod.split sum.split pgerr.split)

lemma getDevice_rules_kept: "rules_kept (app_db a) (app_db (snd (getDevice E r (w, a))))"
  by (auto simp: getDevice_def dest: app_stmt_rules_kept [rotated] intro: get_device_rules_kept
      split: prod.split sum.split)

lemma getDeviceTelemetry_rules_kept: "rules_kept (app_db a) (app_db (snd (getDeviceTelemetry cd E r (w, a))))"
  by (auto simp: getDeviceTelemetry_def run_find_def Let_def split_beta split: sum.split)

lemma transitionAlert_rules_kept:
  assumes "\<And>now i user db al db'. ts_query spec E now i user db = Inr (al, db') \<Longrightarrow> rules_kept db db'"
  shows "rules_kept (app_db a) (app_db (snd (transitionAlert cd E spec r (w, a))))"
proof -
  obtain q a1 where 1: "app_stmt (ts_query spec E (app_now a) (path_value r ''id'') user) a = (q user, a1 user)" for user
    by (meson surj_pair)
  obtain ex a2 where 2: "app_stmt (stmt_exists E (path_value r ''id'')) (a1 user) = (ex user, a2 user)" for user
    by (meson surj_pair)
  have S1: "rules_kept (app_db a) (app_db (a1 user))" for user by (rule app_stmt_rules_kept [OF assms 1])
  have S2: "rules_kept (app_db (a1 user)) (app_db (a2 user))" for user
    by (rule app_stmt_rules_kept [OF exists_rules_kept 2])
  show ?thesis
    using S1 rules_kept_trans [OF S1 S2]
    by (auto simp: transitionAlert_def 1 2 Let_def split: option.split sum.split pgerr.split)
qed

definition keeps_rules :: "handler \<Rightarrow> bool" where
  "keeps_rules h \<longleftrightarrow> (\<forall>r w a. rules_kept (app_db a) (app_db (snd (h r (w, a)))))"

lemma keeps_rules_handlers:
  "keeps_rules healthz" "keeps_rules (listSites E)" "keeps_rules (listDevices E)" "keeps_rules (getDevice E)"
  "keeps_rules (getDeviceTelemetry cd E)" "keeps_rules (listAlerts E)" "keeps_rules (listAlertRules E)"
  "keeps_rules (createAlertRule cd E)" "keeps_rules (updateAlertRule cd E)"
  by (simp_all add: keeps_rules_def healthz_def listSites_def listDevices_def listAlerts_def listAlertRules_def
      list_response_rules_kept create_rules_kept update_rules_kept getDevice_rules_kept
      getDeviceTelemetry_rules_kept split_beta)

lemma keeps_rules_transitions: "keeps_rules (acknowledgeAlert cd E)" "keeps_rules (resolveAlert cd E)"
  unfolding keeps_rules_def acknowledgeAlert_def resolveAlert_def
  by (safe intro!: transitionAlert_rules_kept)
    (simp_all add: acknowledge_spec_def resolve_spec_def transition_rules_kept)

lemma api_edit_rules_kept: "api_edit cd E db db' \<Longrightarrow> rules_kept db db'"
proof (elim api_editE)
  fix pattern h a r w w' a'
  assume h: "(pattern, h) \<in> set (route_table cd E)" "pattern \<noteq> ''DELETE /alert-rules/{id}''" and
    a: "db' = app_db a'" "app_db a = db" "h r (w, a) = (w', a')"
  have "list_all (\<lambda>(p, h). p \<noteq> ''DELETE /alert-rules/{id}'' \<longrightarrow> keeps_rules h) (route_table cd E)"
    unfolding route_table_def list.pred_inject prod.case
    by (intro conjI impI; (rule keeps_rules_handlers keeps_rules_transitions TrueI | simp))
  with h have "keeps_rules h" by (auto simp: list_all_iff)
  with a show "rules_kept db db'" unfolding keeps_rules_def by (metis snd_conv)
qed

subsection \<open>The API is a quiet writer\<close>

interpretation api: quiet_writer E "api_edit cd E" for cd E
proof
  fix db db' i r
  assume e: "api_edit cd E db db'"
  then have safe: "safe_db E db db'" by (intro api_request_safe api_edit_request)
  show "db_ok E db'" if "pgenv_ok E" "db_ok E db" using safe that by (simp add: safe_db_def)
  show "ids_fresh E db'" if "pgenv_ok E" "ids_fresh E db" using safe that by (simp add: safe_db_def)
  show "active_count i db' \<le> active_count i db" using safe by (simp add: safe_db_def)
  show "\<exists>r' \<in> set (alert_rules db'). ar_ID r' = ar_ID r \<and> ar_DeviceID r' = ar_DeviceID r" if "r \<in> set (alert_rules db)"
    using api_edit_rules_kept [OF e] that by (simp add: rules_kept_def)
qed

text \<open>Every interleaving of the two services lets alerts only evolve.\<close>

interpretation services: monotone_system "pool_step cd E n (api_request cd E)"
    "\<lambda>p q. db_evolves (sv_db (pl_sv p)) (sv_db (pl_sv q))" for cd E n
proof
  fix p q r :: pool
  show "db_evolves (sv_db (pl_sv p)) (sv_db (pl_sv p))" by simp
  show "db_evolves (sv_db (pl_sv p)) (sv_db (pl_sv r))"
    if "db_evolves (sv_db (pl_sv p)) (sv_db (pl_sv q))" "db_evolves (sv_db (pl_sv q)) (sv_db (pl_sv r))"
    using that by (rule db_evolves_trans)
  show "db_evolves (sv_db (pl_sv p)) (sv_db (pl_sv q))" if "pool_step cd E n (api_request cd E) p q"
    using that by (rule pool_step_evolves) (use api_request_safe in \<open>auto simp: safe_db_def\<close>)
qed

subsection \<open>A rule the API answered with is the rule the engine loads\<close>

lemma fresh_body:
  "rw_sent w = None \<Longrightarrow> rw_body w = [] \<Longrightarrow> rw_body (fst (writeJSON st (Some p) (w, a))) = [q] \<Longrightarrow> q = p"
  by (simp add: writeJSON_fresh split: if_splits)

lemma app_stmt_Inr: "app_stmt f a = (Inr x, a') \<Longrightarrow> f (app_db a) = Inr (x, app_db a')"
  using run_stmt_Inr [of f "app_world a" x] by (auto simp: app_stmt_def split: prod.splits)

lemma create_answered_rule:
  assumes "rw_sent w = None" "rw_body w = []" "rw_body (fst (createAlertRule cd E r (w, a))) = [VRule ar]"
  shows "ar \<in> set (alert_rules (app_db (snd (createAlertRule cd E r (w, a)))))"
proof -
  obtain x where x: "decode_rule_input cd (rq_Body r) = Some x"
    using assms by (cases "decode_rule_input cd (rq_Body r)") (simp_all add: createAlertRule_def writeError_def writeJSON_fresh)
  obtain q a1 where 1: "app_stmt (stmt_insert_rule E x (input_enabled x)) a = (q, a1)" by (meson surj_pair)
  have c: "createAlertRule cd E r (w, a) = writeJSON 201 (Some (VRule ar)) (w, a1) \<and> q = Inr ar"
    using assms x 1 by (auto simp: createAlertRule_def writeError_def dest: fresh_body split: if_splits sum.splits)
  with 1 app_stmt_Inr [of "stmt_insert_rule E x (input_enabled x)" a ar a1]
  have "stmt_insert_rule E x (input_enabled x) (app_db a) = Inr (ar, app_db a1)" by simp
  then have "alert_rules (app_db a1) = alert_rules (app_db a) @ [ar]"
    by (auto simp: stmt_insert_rule_def Let_def split: option.splits if_splits dest: arg_cong [of _ _ alert_rules])
  with c show ?thesis by simp
qed

lemma update_answered_rule:
  assumes "rw_sent w = None" "rw_body w = []" "rw_body (fst (updateAlertRule cd E r (w, a))) = [VRule ar]"
  shows "ar \<in> set (alert_rules (app_db (snd (updateAlertRule cd E r (w, a)))))"
proof -
  let ?i = "path_value r ''id''"
  obtain x where x: "decode_rule_input cd (rq_Body r) = Some x"
    using assms by (cases "decode_rule_input cd (rq_Body r)") (simp_all add: updateAlertRule_def writeError_def writeJSON_fresh Let_def)
  obtain q a1 where 1: "app_stmt (stmt_update_rule E ?i x (input_enabled x)) a = (q, a1)" by (meson surj_pair)
  have c: "updateAlertRule cd E r (w, a) = writeJSON 200 (Some (VRule ar)) (w, a1) \<and> q = Inr ar"
    using assms x 1
    by (auto simp: updateAlertRule_def writeError_def Let_def dest: fresh_body split: sum.splits pgerr.splits)
  with 1 app_stmt_Inr [of "stmt_update_rule E ?i x (input_enabled x)" a ar a1]
  have "stmt_update_rule E ?i x (input_enabled x) (app_db a) = Inr (ar, app_db a1)" by simp
  then obtain u q' qs where u: "filter (\<lambda>r. ar_ID r = u) (alert_rules (app_db a)) = q' # qs"
    and ar: "ar = updated_rule x (input_enabled x) q'"
    and db: "app_db a1 = (app_db a)\<lparr>alert_rules :=
      map (\<lambda>r. if ar_ID r = u then updated_rule x (input_enabled x) r else r) (alert_rules (app_db a))\<rparr>"
    by (auto simp: stmt_update_rule_Inr)
  from u have "q' \<in> set (alert_rules (app_db a))" "ar_ID q' = u" by (auto dest: filter_eq_ConsD)
  then have "ar \<in> set (alert_rules (app_db a1))" unfolding db ar by (auto intro!: image_eqI [of _ _ q'])
  with c show ?thesis by simp
qed

lemma enabled_rules_unique:
  assumes "pgenv_ok E" "db_ok E db" "ar \<in> set (alert_rules db)"
  shows "filter (\<lambda>q. rule_ID q = ar_ID ar) (enabled_rules E (ar_DeviceID ar) db) = (if ar_Enabled ar then [rule_of_row ar] else [])"
proof -
  let ?xs = "in_scan_order E (alert_rules db)"
  have d: "distinct (map ar_ID ?xs)" using assms distinct_map_in_scan_order db_ok_rules_distinct by blast
  have "List.find (\<lambda>q. ar_ID q = ar_ID ar) ?xs = Some ar"
  proof -
    have "ar \<in> set ?xs" using assms by simp
    then obtain q where q: "List.find (\<lambda>q. ar_ID q = ar_ID ar) ?xs = Some q"
      by (metis (mono_tags, lifting) find_None_iff not_Some_eq)
    from find_in_set [OF q] \<open>ar \<in> set ?xs\<close> d have "q = ar" by (auto dest: distinct_map_eqD)
    with q show ?thesis by simp
  qed
  with filter_unique [OF d, of "ar_ID ar" "\<lambda>q. ar_DeviceID q = ar_DeviceID ar \<and> ar_Enabled q"]
  have "filter (\<lambda>q. ar_ID q = ar_ID ar \<and> ar_DeviceID q = ar_DeviceID ar \<and> ar_Enabled q) ?xs = (if ar_Enabled ar then [ar] else [])"
    by simp
  then have "map rule_of_row (filter (\<lambda>q. ar_ID q = ar_ID ar \<and> ar_DeviceID q = ar_DeviceID ar \<and> ar_Enabled q) ?xs) =
      (if ar_Enabled ar then [rule_of_row ar] else [])" by simp
  moreover have "(\<lambda>q. rule_ID q = ar_ID ar) \<circ> rule_of_row = (\<lambda>q. ar_ID q = ar_ID ar)" by (auto simp: rule_of_row_def)
  ultimately show ?thesis
    unfolding enabled_rules_def filter_map filter_filter by (simp add: conj_ac)
qed

subsection \<open>Properties\<close>

text \<open>C3: Over every interleaving of the workers of the ingestion service with the requests of the API, with
  any faults and across a shutdown, an alert is never removed and only moves forward: its rule, device, triggering value,
  severity and time stay, its status moves from open over acknowledged to resolved and never back, a
  resolved alert never changes and an acknowledgement is never overwritten.\<close>

theorem alert_lifecycle_monotone:
  assumes "run (pool_step cd E n (api_request cd E)) p q" and "k < length (alerts (sv_db (pl_sv p)))"
  shows "k < length (alerts (sv_db (pl_sv q))) \<and> alert_evolves (alerts (sv_db (pl_sv p)) ! k) (alerts (sv_db (pl_sv q)) ! k)"
  using services.run_le [OF assms(1)] assms(2) by (simp add: db_evolves_def)

definition demo_started :: "pgdb \<Rightarrow> pool" where
  "demo_started db = (NewPool ((ingest_config_from_env (\<lambda>_. []))\<lparr>cf_workerCount := 1\<rparr>)
     \<lparr>w_db = db, w_telemetry = [], w_faults = [], w_slept = []\<rparr>)"

lemma demo_started_db [simp]: "sv_db (pl_sv (demo_started db)) = db"
  by (simp add: demo_started_def NewPool_def NewService_def NewStore_def)

lemma demo_started_init: "pool_init demo_env (demo_started demo_db)" "length (pl_workers (demo_started db)) = 1"
  by (auto simp: pool_init_def demo_started_def NewPool_def sv_good_def NewService_def NewStore_def demo_db_ok
      demo_env_ok demo_db_fresh demo_one_active)

theorem alert_lifecycle_monotone_witness:
  "\<exists>q. run (pool_step api_codec demo_env 3 (api_request api_codec demo_env)) (demo_started demo_alert_db) q \<and>
     al_Status (alerts (sv_db (pl_sv q)) ! 0) = ''acknowledged'' \<and> alert_evolves demo_open_alert (alerts (sv_db (pl_sv q)) ! 0)"
proof -
  let ?p = "demo_started demo_alert_db"
  let ?a = "demo_app demo_alert_db []"
  let ?out = "acknowledgeAlert api_codec demo_env (demo_request ''a1'' ''op'') (new_writer, ?a)"
  have "(''POST /alerts/{id}/acknowledge'', acknowledgeAlert api_codec demo_env) \<in> set (route_table api_codec demo_env)"
    by (simp add: route_table_def)
  then have "api_request api_codec demo_env demo_alert_db (app_db (snd ?out))"
    by (rule served [where a = ?a and r = "demo_request ''a1'' ''op''" and w = new_writer and w' = "fst ?out"]) simp_all
  then have "api_request api_codec demo_env (sv_db (pl_sv ?p)) (app_db (snd ?out))" by simp
  note step = external [where ext = "api_request api_codec demo_env" and cd = api_codec and E = demo_env and n = 3, OF this]
  obtain q where q: "run (pool_step api_codec demo_env 3 (api_request api_codec demo_env)) ?p q"
    "sv_db (pl_sv q) = app_db (snd ?out)"
    by (rule that [OF run_one, OF step]) simp
  have "al_Status (alerts (app_db (snd ?out)) ! 0) = ''acknowledged''" by code_simp
  with alert_lifecycle_monotone [OF q(1), of 0] q show ?thesis
    by (intro exI [of _ q]) (simp add: demo_alert_db_def)
qed

text \<open>C2: At most one active alert per rule when no two messages of a device are processed at once and the
  ingestion service meets no faults. Over every interleaving of any number of workers on different
  devices with requests of the API other than the deletion of a rule (these may fail at any point),
  where the only calls of the workers that fail are those a shutdown refuses, every rule has at most
  one active alert and the database satisfies its schema, starting from a database that does.\<close>

theorem serialized_one_active:
  assumes "pool_init E p" and "run (exclusive_step cd E n (api_edit cd E)) p q"
  shows "one_active (sv_db (pl_sv q)) \<and> db_ok E (sv_db (pl_sv q))"
  using api.pool_system.reachable_inv [OF assms] by (simp add: pool_inv_def sv_good_def)

definition demo_serial :: "action list" where
  "demo_serial =
     replicate 3 (Arrive ''sitewatch/s1/d1/telemetry'' ''{}'') @
     demo_begin 0 @ demo_works 0 6 @ demo_end 0 @
     demo_begin 0 @ demo_works 0 5 @ demo_end 0 @
     demo_begin 0 @ demo_works 0 13 @ demo_end 0"

lemma demo_serial_outcome:
  "map_option (\<lambda>p. active_count ''r1'' (sv_db (pl_sv p))) (sched demo_cd demo_env 3 demo_rand demo_serial (demo_started demo_db)) = Some 1"
  by code_simp

lemma demo_serial_run:
  obtains q where "run (pool_step demo_cd demo_env 3 (api_edit demo_cd demo_env)) (demo_started demo_db) q"
    "active_count ''r1'' (sv_db (pl_sv q)) = 1"
proof -
  from demo_serial_outcome obtain q where "sched demo_cd demo_env 3 demo_rand demo_serial (demo_started demo_db) = Some q"
    "active_count ''r1'' (sv_db (pl_sv q)) = 1" by (auto simp: map_option_eq_Some)
  with that sched_sound show thesis by blast
qed

theorem serialized_one_active_witness:
  "\<exists>q. run (exclusive_step demo_cd demo_env 3 (api_edit demo_cd demo_env)) (demo_started demo_db) q \<and>
     active_count ''r1'' (sv_db (pl_sv q)) = 1 \<and> one_active (sv_db (pl_sv q))"
proof -
  obtain q where q: "run (pool_step demo_cd demo_env 3 (api_edit demo_cd demo_env)) (demo_started demo_db) q"
    "active_count ''r1'' (sv_db (pl_sv q)) = 1" by (rule demo_serial_run)
  from single_worker_run [OF q(1)] have r: "run (exclusive_step demo_cd demo_env 3 (api_edit demo_cd demo_env)) (demo_started demo_db) q"
    by (simp add: demo_started_init)
  from serialized_one_active [OF demo_started_init(1) r] q(2) r show ?thesis by blast
qed

text \<open>With a single worker the invariant holds for every arrival of messages and every interleaving with
  the API: the pool needs no further restriction.\<close>

theorem single_worker_one_active:
  assumes "pool_init E p" and "length (pl_workers p) = 1" and "run (pool_step cd E n (api_edit cd E)) p q"
  shows "one_active (sv_db (pl_sv q)) \<and> db_ok E (sv_db (pl_sv q))"
proof -
  from single_worker_run [OF assms(3,2)] have "run (exclusive_step cd E n (api_edit cd E)) p q" by blast
  from api.pool_system.reachable_inv [OF assms(1) this] show ?thesis by (simp add: pool_inv_def sv_good_def)
qed

theorem single_worker_one_active_witness:
  "\<exists>q :: pool. active_count ''r1'' (sv_db (pl_sv q)) = 1 \<and> db_ok demo_env (sv_db (pl_sv q))"
proof -
  obtain q where q: "run (pool_step demo_cd demo_env 3 (api_edit demo_cd demo_env)) (demo_started demo_db) q"
    "active_count ''r1'' (sv_db (pl_sv q)) = 1" by (rule demo_serial_run)
  from single_worker_one_active [OF demo_started_init this(1)] q(2) show ?thesis by blast
qed

text \<open>C13: What the API answers is what the engine evaluates: when a request to create or update a rule is
  answered with the rule, also under faults, the next load of the rules of its device by the ingestion
  service contains exactly that rule under its id when it is enabled and none when it is disabled.\<close>

theorem answered_rule_reaches_engine:
  assumes "pgenv_ok E" and "db_ok E (app_db a)" and "h \<in> {createAlertRule cd E, updateAlertRule cd E}"
    and "rw_sent w = None" and "rw_body w = []" and "rw_body (fst (h r (w, a))) = [VRule ar]"
    and "store_db s = app_db (snd (h r (w, a)))" and "w_faults (st_world s) = []" and "uuid_parse E dev = Some (ar_DeviceID ar)"
  shows "\<exists>rules. LoadEnabledRules E dev s = (Inr rules, s) \<and>
    filter (\<lambda>q. rule_ID q = ar_ID ar) rules = (if ar_Enabled ar then [rule_of_row ar] else [])"
proof -
  from assms(3) have "safe_change E a (snd (h r (w, a)))" using create_rule.safe update_rule.safe by auto
  with assms(1,2,7) have db: "db_ok E (store_db s)" by (auto simp: safe_change_def safe_db_def)
  have "ar \<in> set (alert_rules (store_db s))"
    using assms(3-7) create_answered_rule update_answered_rule by auto
  with enabled_rules_unique [OF assms(1) db] LoadEnabledRules_no_fault [OF assms(8,9)] show ?thesis by auto
qed

definition demo_created :: "rwriter \<times> App" where
  "demo_created = createAlertRule (rule_codec demo_rule_body) demo_env (demo_request [] ''{}'') (new_writer, demo_app demo_db [])"

definition demo_created_rule :: AlertRule where
  "demo_created_rule = \<lparr>ar_ID = ''u'', ar_DeviceID = ''d1'', ar_Metric = ''humidity'', ar_Operator = ''lt'',
     ar_Threshold = Finite 0, ar_Severity = ''critical'', ar_Enabled = True\<rparr>"

theorem answered_rule_reaches_engine_witness:
  "\<exists>rules. LoadEnabledRules demo_env ''d1'' (NewStore (app_world (snd demo_created))) =
      (Inr rules, NewStore (app_world (snd demo_created))) \<and>
    filter (\<lambda>q. rule_ID q = ''u'') rules = [rule_of_row demo_created_rule]"
proof -
  have "rw_body (fst demo_created) = [VRule demo_created_rule]" "w_faults (app_world (snd demo_created)) = []"
    "uuid_parse demo_env ''d1'' = Some ''d1''" by code_simp+
  with answered_rule_reaches_engine [OF demo_env_ok, of "demo_app demo_db []" "createAlertRule (rule_codec demo_rule_body) demo_env"
        "rule_codec demo_rule_body" new_writer "demo_request [] ''{}''" demo_created_rule "NewStore (app_world (snd demo_created))" "''d1''"]
  show ?thesis
    unfolding demo_created_def [symmetric] by (simp add: demo_db_ok NewStore_def new_writer_def demo_created_rule_def)
qed

end
