(* ===== verification/Startup.thy ===== *)
theory Startup
  imports System
begin

text \<open>
  Start and end of the two processes: \<open>LoadRootEnv\<close> (\<open>shared/env.go\<close>), the metrics server of the
  ingestion service (\<open>ingestion/metrics.go\<close>), and the \<open>main\<close> functions of both services from the
  first connection to the exit. Drivers, broker client, \<open>.env\<close> reader and the profiling and metrics
  handlers are parameters.
\<close>

subsection \<open>Paths\<close>

text \<open>\<open>path/filepath\<close> on Unix: \<open>Clean\<close> works through the elements with a stack.\<close>

fun clean_elems :: "bool \<Rightarrow> string list \<Rightarrow> string list \<Rightarrow> string list" where
  "clean_elems rooted out [] = rev out"
| "clean_elems rooted out (e # es) =
     (if e = [] \<or> e = ''.'' then clean_elems rooted out es
      else if e = ''..'' then
        (case out of
           [] \<Rightarrow> if rooted then clean_elems rooted [] es else clean_elems rooted [''..''] es
         | o1 # out' \<Rightarrow> if o1 = ''..'' then clean_elems rooted (''..'' # out) es else clean_elems rooted out' es)
      else clean_elems rooted (e # out) es)"

definition Clean :: "string \<Rightarrow> string" where
  "Clean path =
     (if path = [] then ''.''
      else
        let rooted = (hd path = CHR ''/'');
            out = Join (clean_elems rooted [] (Split path (CHR ''/''))) (CHR ''/'')
        in if rooted then CHR ''/'' # out else if out = [] then ''.'' else out)"

definition Dir :: "string \<Rightarrow> string" where
  "Dir path = (case last_index_byte (CHR ''/'') path of None \<Rightarrow> Clean [] | Some i \<Rightarrow> Clean (take (Suc i) path))"

definition path_Join :: "string list \<Rightarrow> string" where
  "path_Join elems = (let es = dropWhile (\<lambda>e. e = []) elems in if es = [] then [] else Clean (Join es (CHR ''/'')))"

subsection \<open>The environment file\<close>

datatype load_error = NotExist string | LoadFailed string

text \<open>
  \<open>caller\<close> is what \<open>runtime.Caller(0)\<close> reports as the file of the source, \<open>load\<close> is
  \<open>godotenv.Load\<close>: what it makes of the environment and its error. The result is the environment
  and the path of the warning, if any.
\<close>

definition env_path :: "string \<Rightarrow> string" where
  "env_path thisFile = path_Join [Dir thisFile, ''..'', ''.env'']"

definition LoadRootEnv ::
  "string option \<Rightarrow> (string \<Rightarrow> env \<Rightarrow> load_error option \<times> env) \<Rightarrow> env \<Rightarrow> string option \<times> env" where
  "LoadRootEnv caller load getenv =
     (case caller of
        None \<Rightarrow> (None, getenv)
      | Some thisFile \<Rightarrow>
          (case load (env_path thisFile) getenv of
             (None, env') \<Rightarrow> (None, env')
           | (Some (NotExist e), env') \<Rightarrow> (None, env')
           | (Some (LoadFailed e), env') \<Rightarrow> (Some (env_path thisFile), env')))"

subsection \<open>The metrics server of the ingestion service\<close>

datatype metrics_target = Healthz | Metrics | PprofIndex | PprofCmdline | PprofProfile | PprofSymbol | PprofTrace

record metrics_server =
  ms_Addr :: string
  ms_routes :: "(string \<times> metrics_target) list"
  ms_ReadHeaderTimeout :: duration

definition newMetricsServer :: "string \<Rightarrow> metrics_server" where
  "newMetricsServer port =
     \<lparr>ms_Addr = CHR '':'' # port,
      ms_routes =
        [(''/healthz'', Healthz), (''/metrics'', Metrics), (''/debug/pprof/'', PprofIndex),
         (''/debug/pprof/cmdline'', PprofCmdline), (''/debug/pprof/profile'', PprofProfile),
         (''/debug/pprof/symbol'', PprofSymbol), (''/debug/pprof/trace'', PprofTrace)],
      ms_ReadHeaderTimeout = 5 * second\<rparr>"

text \<open>
  How \<open>http.ServeMux\<close> finds the handler of a clean path among patterns without method and
  wildcard: an exact pattern, otherwise a redirect to the path with a slash when that is a pattern,
  otherwise the longest subtree pattern.
\<close>

datatype 'h mux_result = Serve 'h | Redirect string | NotFound

fun longest_subtree :: "string \<Rightarrow> (string \<times> 'h) list \<Rightarrow> (string \<times> 'h) option" where
  "longest_subtree path [] = None"
| "longest_subtree path ((p, h) # ps) =
     (let rest = longest_subtree path ps in
      if p \<noteq> [] \<and> last p = CHR ''/'' \<and> take (length p) path = p then
        (case rest of None \<Rightarrow> Some (p, h) | Some (q, g) \<Rightarrow> if length q > length p then Some (q, g) else Some (p, h))
      else rest)"

definition mux_find :: "(string \<times> 'h) list \<Rightarrow> string \<Rightarrow> 'h mux_result" where
  "mux_find tbl path =
     (case map_of tbl path of
        Some h \<Rightarrow> Serve h
      | None \<Rightarrow>
          if path \<noteq> [] \<and> last path \<noteq> CHR ''/'' \<and> map_of tbl (path @ ''/'') \<noteq> None then Redirect (path @ ''/'')
          else (case longest_subtree path tbl of None \<Rightarrow> NotFound | Some (p, h) \<Rightarrow> Serve h))"

subsection \<open>Starting the ingestion service\<close>

text \<open>The options of the broker client: how to connect, and to reconnect by itself.\<close>

record client_options =
  co_Broker :: string
  co_ClientID :: string
  co_AutoReconnect :: bool

definition broker_options :: "env \<Rightarrow> client_options" where
  "broker_options getenv =
     \<lparr>co_Broker = getenv ''MQTT_BROKER_URL'', co_ClientID = ''sitewatch-ingestion'', co_AutoReconnect = True\<rparr>"

record ('p, 'c) drivers =
  ParseConfig :: "string \<Rightarrow> string + pgx_config"
  NewWithConfig :: "pgx_config \<Rightarrow> string + 'p"
  mongo_Connect :: "string \<Rightarrow> 64 word \<Rightarrow> string + 'c"
  CreateOne :: "'c \<Rightarrow> string \<Rightarrow> string \<Rightarrow> index_model \<Rightarrow> string option"
  mqtt_Connect :: "client_options \<Rightarrow> string option"

text \<open>What a starting process does, in order; \<open>BError\<close> is a line at level error.\<close>

datatype boot_event =
    BPostgres
  | BMongo
  | BIndexes
  | BCollectors "string list"
  | BServer string
  | BWorkers int int int
  | BBroker string
  | BError string

text \<open>\<open>Inl\<close> is the exit status, \<open>Inr\<close> the pool that is now running.\<close>

definition ingestion_start ::
  "('p, 'c) drivers \<Rightarrow> env \<Rightarrow> world \<Rightarrow> boot_event list \<times> (int + pool)" where
  "ingestion_start dr getenv w =
     (case NewPostgresPool (ParseConfig dr) (NewWithConfig dr) getenv of
        Inl e \<Rightarrow> ([BError ''connect postgres''], Inl 1)
      | Inr pg \<Rightarrow>
          (case NewMongoClient (mongo_Connect dr) getenv of
             Inl e \<Rightarrow> ([BPostgres, BError ''connect mongo''], Inl 1)
           | Inr client \<Rightarrow>
               (case EnsureTelemetryIndexes (\<lambda>db coll ix u. (CreateOne dr client db coll ix, u)) (getenv ''MONGO_DB'') () of
                  (Some e, _) \<Rightarrow> ([BPostgres, BMongo, BError ''ensure mongo indexes''], Inl 1)
                | (None, _) \<Rightarrow>
                    let cfg = ingest_config_from_env getenv;
                        opts = broker_options getenv;
                        up = [BPostgres, BMongo, BIndexes,
                              BCollectors (map desc_name (Describe (NewPostgresPoolCollector ''ingestion''))),
                              BServer (ms_Addr (newMetricsServer (cf_metricsPort cfg))),
                              BWorkers (cf_workerCount cfg) (cf_queueSize cfg) (cf_debounceN cfg), BBroker (co_Broker opts)]
                    in (case mqtt_Connect dr opts of
                          Some e \<Rightarrow> (up @ [BError ''mqtt connect''], Inl 1)
                        | None \<Rightarrow> (up, Inr (NewPool cfg w))))))"

text \<open>The beginning of \<open>main\<close>: the environment file first, and a broken one does not stop the start.\<close>

definition ingestion_main ::
  "string option \<Rightarrow> (string \<Rightarrow> env \<Rightarrow> load_error option \<times> env) \<Rightarrow> ('p, 'c) drivers \<Rightarrow> env \<Rightarrow> world \<Rightarrow>
   string option \<times> boot_event list \<times> (int + pool)" where
  "ingestion_main caller load dr getenv w =
     (case LoadRootEnv caller load getenv of (warning, env') \<Rightarrow> (warning, ingestion_start dr env' w))"

text \<open>
  The connection callback, run on every connection and reconnection: it subscribes to the telemetry
  of all devices with quality of service 1 and reports a failure; \<open>subscribe\<close> is the client's
  \<open>Subscribe\<close> with its error.
\<close>

datatype client_event = Subscribed string nat | SubscribeFailed string | ConnectionLost string

definition on_connect :: "(string \<Rightarrow> nat \<Rightarrow> string option) \<Rightarrow> client_event list" where
  "on_connect subscribe =
     Subscribed ''sitewatch/+/+/telemetry'' 1 #
     (case subscribe ''sitewatch/+/+/telemetry'' 1 of None \<Rightarrow> [] | Some e \<Rightarrow> [SubscribeFailed e])"

text \<open>A lost connection is a warning; the client reconnects by itself and runs \<open>on_connect\<close> again.\<close>

definition on_connection_lost :: "string \<Rightarrow> client_event list" where
  "on_connection_lost e = [ConnectionLost e]"

text \<open>
  After the signal: the broker connection (250 ms for work in progress), then the metrics server,
  then the deferred calls in reverse order; the arguments are the errors of \<open>Shutdown\<close> and of the
  MongoDB client's \<open>Disconnect\<close>. The workers are not awaited: \<open>Ingest_Shutdown\<close> shows what that means.
\<close>

datatype stop_event =
    ShuttingDown
  | BrokerDisconnect nat
  | MetricsShutdown
  | MetricsShutdownFailed string
  | MongoDisconnect
  | MongoDisconnectFailed string
  | PostgresClose

definition ingestion_stop :: "string option \<Rightarrow> string option \<Rightarrow> stop_event list" where
  "ingestion_stop shutdown_err mongo_err =
     [ShuttingDown, BrokerDisconnect 250, MetricsShutdown] @
     (case shutdown_err of None \<Rightarrow> [] | Some e \<Rightarrow> [MetricsShutdownFailed e]) @
     [MongoDisconnect] @ (case mongo_err of None \<Rightarrow> [] | Some e \<Rightarrow> [MongoDisconnectFailed e]) @ [PostgresClose]"

subsection \<open>Starting the API\<close>

record 'l api_config =
  ac_Addr :: string
  ac_limiter :: "'l ipRateLimiter"
  ac_cleanupInterval :: duration
  ac_maxIdle :: duration
  ac_ReadHeaderTimeout :: duration

definition api_start :: "('p, 'c) drivers \<Rightarrow> codec \<Rightarrow> env \<Rightarrow> boot_event list \<times> (int + 'l api_config)" where
  "api_start dr cd getenv =
     (case NewPostgresPool (ParseConfig dr) (NewWithConfig dr) getenv of
        Inl e \<Rightarrow> ([BError ''connect postgres''], Inl 1)
      | Inr pg \<Rightarrow>
          (case NewMongoClient (mongo_Connect dr) getenv of
             Inl e \<Rightarrow> ([BPostgres, BError ''connect mongo''], Inl 1)
           | Inr client \<Rightarrow>
               let addr = CHR '':'' # api_port getenv in
               ([BPostgres, BMongo, BCollectors (map desc_name (Describe (NewPostgresPoolCollector ''api''))), BServer addr],
                Inr \<lparr>ac_Addr = addr, ac_limiter = rateLimitFromEnv cd getenv, ac_cleanupInterval = minute,
                     ac_maxIdle = 10 * minute, ac_ReadHeaderTimeout = 5 * second\<rparr>)))"

definition api_main ::
  "string option \<Rightarrow> (string \<Rightarrow> env \<Rightarrow> load_error option \<times> env) \<Rightarrow> ('p, 'c) drivers \<Rightarrow> codec \<Rightarrow> env \<Rightarrow>
   string option \<times> boot_event list \<times> (int + 'l api_config)" where
  "api_main caller load dr cd getenv =
     (case LoadRootEnv caller load getenv of (warning, env') \<Rightarrow> (warning, api_start dr cd env'))"

text \<open>The exit status when \<open>ListenAndServe\<close> returns: \<open>None\<close> stands for \<open>ErrServerClosed\<close>.\<close>

definition api_exit_status :: "string option \<Rightarrow> boot_event list \<times> int" where
  "api_exit_status listen_err = (case listen_err of None \<Rightarrow> ([], 0) | Some e \<Rightarrow> ([BError ''server stopped''], 1))"

subsection \<open>The end of the API process\<close>

text \<open>
  Two goroutines of \<open>main\<close>, statement by statement, beside the requests being served. The one that
  waits for the signal gives \<open>Shutdown\<close> a context of five seconds; \<open>Shutdown\<close> closes the listener and
  then polls until no request is being served or its context has expired. The other one is in
  \<open>ListenAndServe\<close>, which, as \<open>net/http\<close> documents, returns \<open>ErrServerClosed\<close> once the listener has
  been closed by \<open>Shutdown\<close>, and then runs the deferred calls: \<open>close(cleanupDone)\<close>, \<open>Disconnect\<close> of
  the MongoDB client and \<open>Close\<close> of the PostgreSQL pool, which hand out no more connections and wait
  for those in use; then \<open>main\<close> returns, and with it the process ends. Any other error of
  \<open>ListenAndServe\<close> ends the process at once by \<open>os.Exit(1)\<close>, without the deferred calls. A request
  uses no connection or one of a pool.
\<close>

datatype req_state = NoConn | PgConn | MongoConn

datatype main_pc =
    M_ListenAndServe
  | M_close_cleanupDone
  | M_Disconnect
  | M_Close
  | M_exited int

datatype shutdown_pc =
    S_ctx_Done
  | S_Shutdown
  | S_polling
  | S_returned

record api_proc =
  ap_clock :: time
  ap_signalled :: bool
  ap_listening :: bool
  ap_requests :: "req_state list"
  ap_mongo_open :: bool
  ap_pg_open :: bool
  ap_main :: main_pc
  ap_shutdown :: shutdown_pc
  ap_deadline :: time
  ap_lines :: "string list"

definition api_started :: api_proc where
  "api_started = \<lparr>ap_clock = 0, ap_signalled = False, ap_listening = True, ap_requests = [], ap_mongo_open = True, ap_pg_open = True,
     ap_main = M_ListenAndServe, ap_shutdown = S_ctx_Done, ap_deadline = 0, ap_lines = []\<rparr>"

definition ap_running :: "api_proc \<Rightarrow> bool" where
  "ap_running p \<longleftrightarrow> (case ap_main p of M_exited _ \<Rightarrow> False | _ \<Rightarrow> True)"

text \<open>One step of the signal's goroutine (\<open>go func() { <-ctx.Done() ... }()\<close>).\<close>

inductive shutdown_step :: "api_proc \<Rightarrow> api_proc \<Rightarrow> bool" where
  ctx_done: "ap_shutdown p = S_ctx_Done \<Longrightarrow> ap_signalled p \<Longrightarrow>
    shutdown_step p (p\<lparr>ap_shutdown := S_Shutdown, ap_deadline := ap_clock p + 5 * second, ap_lines := ap_lines p @ [''shutting down'']\<rparr>)"
| close_listener: "ap_shutdown p = S_Shutdown \<Longrightarrow> shutdown_step p (p\<lparr>ap_shutdown := S_polling, ap_listening := False\<rparr>)"
| all_idle: "ap_shutdown p = S_polling \<Longrightarrow> ap_requests p = [] \<Longrightarrow> shutdown_step p (p\<lparr>ap_shutdown := S_returned\<rparr>)"
| ctx_expired: "ap_shutdown p = S_polling \<Longrightarrow> ap_deadline p \<le> ap_clock p \<Longrightarrow>
    shutdown_step p (p\<lparr>ap_shutdown := S_returned, ap_lines := ap_lines p @ [''shutdown'']\<rparr>)"

text \<open>One step of \<open>main\<close> from \<open>ListenAndServe\<close> on.\<close>

inductive main_step :: "api_proc \<Rightarrow> api_proc \<Rightarrow> bool" where
  server_closed: "ap_main p = M_ListenAndServe \<Longrightarrow> \<not> ap_listening p \<Longrightarrow> main_step p (p\<lparr>ap_main := M_close_cleanupDone\<rparr>)"
| server_failed: "ap_main p = M_ListenAndServe \<Longrightarrow> ap_listening p \<Longrightarrow>
    main_step p (p\<lparr>ap_main := M_exited 1, ap_lines := ap_lines p @ [''server stopped'']\<rparr>)"
| cleanup_closed: "ap_main p = M_close_cleanupDone \<Longrightarrow> main_step p (p\<lparr>ap_main := M_Disconnect, ap_mongo_open := False\<rparr>)"
| disconnected: "ap_main p = M_Disconnect \<Longrightarrow> MongoConn \<notin> set (ap_requests p) \<Longrightarrow>
    main_step p (p\<lparr>ap_main := M_Close, ap_pg_open := False\<rparr>)"
| pool_closed: "ap_main p = M_Close \<Longrightarrow> PgConn \<notin> set (ap_requests p) \<Longrightarrow> main_step p (p\<lparr>ap_main := M_exited 0\<rparr>)"

text \<open>One step of the requests: accepted while listening, a connection taken from an open pool and
  given back, answered.\<close>

inductive serve_step :: "api_proc \<Rightarrow> api_proc \<Rightarrow> bool" where
  accept: "ap_listening p \<Longrightarrow> serve_step p (p\<lparr>ap_requests := ap_requests p @ [NoConn]\<rparr>)"
| acquire_pg: "i < length (ap_requests p) \<Longrightarrow> ap_requests p ! i = NoConn \<Longrightarrow> ap_pg_open p \<Longrightarrow>
    serve_step p (p\<lparr>ap_requests := (ap_requests p)[i := PgConn]\<rparr>)"
| acquire_mongo: "i < length (ap_requests p) \<Longrightarrow> ap_requests p ! i = NoConn \<Longrightarrow> ap_mongo_open p \<Longrightarrow>
    serve_step p (p\<lparr>ap_requests := (ap_requests p)[i := MongoConn]\<rparr>)"
| release: "i < length (ap_requests p) \<Longrightarrow> serve_step p (p\<lparr>ap_requests := (ap_requests p)[i := NoConn]\<rparr>)"
| respond: "i < length (ap_requests p) \<Longrightarrow> ap_requests p ! i = NoConn \<Longrightarrow>
    serve_step p (p\<lparr>ap_requests := take i (ap_requests p) @ drop (Suc i) (ap_requests p)\<rparr>)"

inductive api_proc_step :: "api_proc \<Rightarrow> api_proc \<Rightarrow> bool" where
  by_main: "ap_running p \<Longrightarrow> main_step p q \<Longrightarrow> api_proc_step p q"
| by_shutdown: "ap_running p \<Longrightarrow> shutdown_step p q \<Longrightarrow> api_proc_step p q"
| by_request: "ap_running p \<Longrightarrow> serve_step p q \<Longrightarrow> api_proc_step p q"
| signal: "ap_running p \<Longrightarrow> api_proc_step p (p\<lparr>ap_signalled := True\<rparr>)"
| clock: "ap_running p \<Longrightarrow> 0 \<le> d \<Longrightarrow> api_proc_step p (p\<lparr>ap_clock := ap_clock p + d\<rparr>)"


subsection \<open>Lemmas: paths\<close>

text \<open>An element \<open>Clean\<close> leaves as it is.\<close>

definition plain_elem :: "string \<Rightarrow> bool" where
  "plain_elem e \<longleftrightarrow> e \<noteq> [] \<and> e \<noteq> ''.'' \<and> e \<noteq> ''..'' \<and> CHR ''/'' \<notin> set e"

lemma clean_elems_plain:
  "list_all plain_elem es \<Longrightarrow> clean_elems rooted out (es @ rest) = clean_elems rooted (rev es @ out) rest"
  by (induction es arbitrary: out) (auto simp: plain_elem_def)

lemma Clean_rooted:
  assumes "es \<noteq> []" "list_all (\<lambda>e. CHR ''/'' \<notin> set e) es"
  shows "Clean (CHR ''/'' # Join es (CHR ''/'')) = CHR ''/'' # Join (clean_elems True [] es) (CHR ''/'')"
proof -
  have "Split (CHR ''/'' # Join es (CHR ''/'')) (CHR ''/'') = [] # es"
    using Split_append [of "CHR ''/''" "[]" "Join es (CHR ''/'')"] Split_Join [of es "CHR ''/''"] assms by (simp add: list_all_iff)
  then show ?thesis by (simp add: Clean_def)
qed

lemma Join_append:
  "xs \<noteq> [] \<Longrightarrow> ys \<noteq> [] \<Longrightarrow> Join (xs @ ys) c = Join xs c @ c # Join ys c"
proof (induction xs)
  case (Cons x xs)
  then show ?case by (cases "xs = []") (simp_all add: Join_Cons)
qed simp

lemma plain_no_slash: "list_all plain_elem ds \<Longrightarrow> list_all (\<lambda>e. CHR ''/'' \<notin> set e) ds"
  by (auto simp: list_all_iff plain_elem_def)

lemma Dir_plain:
  assumes "list_all plain_elem (ds @ [d])" "CHR ''/'' \<notin> set f"
  shows "Dir (CHR ''/'' # Join (ds @ [d, f]) (CHR ''/'')) = CHR ''/'' # Join (ds @ [d]) (CHR ''/'')"
proof -
  let ?p = "CHR ''/'' # Join (ds @ [d]) (CHR ''/'')"
  have j: "Join (ds @ [d, f]) (CHR ''/'') = Join (ds @ [d]) (CHR ''/'') @ CHR ''/'' # f"
    using Join_append [of "ds @ [d]" "[f]" "CHR ''/''"] by simp
  have "last_index_byte (CHR ''/'') (?p @ CHR ''/'' # f) = Some (length ?p)" by (rule last_index_byte_append [OF assms(2)])
  then have "Dir (CHR ''/'' # Join (ds @ [d, f]) (CHR ''/'')) = Clean (?p @ ''/'')" unfolding j Dir_def by simp
  also have "?p @ ''/'' = CHR ''/'' # Join (ds @ [d, []]) (CHR ''/'')"
    using Join_append [of "ds @ [d]" "[[]]" "CHR ''/''"] by simp
  also have "Clean \<dots> = CHR ''/'' # Join (clean_elems True [] (ds @ [d, []])) (CHR ''/'')"
    by (rule Clean_rooted) (use plain_no_slash [OF assms(1)] in simp_all)
  also have "clean_elems True [] (ds @ [d, []]) = ds @ [d]"
    using clean_elems_plain [OF assms(1), of True "[]" "[[]]"] by simp
  finally show ?thesis .
qed

lemma env_path_root:
  assumes "list_all plain_elem ds"
  shows "env_path (CHR ''/'' # Join (ds @ [''shared'', ''env.go'']) (CHR ''/'')) = CHR ''/'' # Join (ds @ [''.env'']) (CHR ''/'')"
proof -
  have sh: "list_all plain_elem (ds @ [''shared''])" using assms by (simp add: plain_elem_def)
  have "env_path (CHR ''/'' # Join (ds @ [''shared'', ''env.go'']) (CHR ''/'')) =
      Clean (Join [CHR ''/'' # Join (ds @ [''shared'']) (CHR ''/''), ''..'', ''.env''] (CHR ''/''))"
    using Dir_plain [OF sh, of "''env.go''"] by (simp add: env_path_def path_Join_def)
  also have "Join [CHR ''/'' # Join (ds @ [''shared'']) (CHR ''/''), ''..'', ''.env''] (CHR ''/'') =
      CHR ''/'' # Join (ds @ [''shared'', ''..'', ''.env'']) (CHR ''/'')"
    using Join_append [of "ds @ [''shared'']" "[''..'', ''.env'']" "CHR ''/''"] by simp
  also have "Clean \<dots> = CHR ''/'' # Join (clean_elems True [] (ds @ [''shared'', ''..'', ''.env''])) (CHR ''/'')"
    by (rule Clean_rooted) (use plain_no_slash [OF assms] in simp_all)
  also have "clean_elems True [] (ds @ [''shared'', ''..'', ''.env'']) = ds @ [''.env'']"
    using clean_elems_plain [OF sh, of True "[]" "[''..'', ''.env'']"] by simp
  finally show ?thesis .
qed

subsection \<open>Properties\<close>

text \<open>The environment file of the repository root is loaded: when the source of \<open>LoadRootEnv\<close> lies in
  the directory \<open>shared\<close> of a checkout, the file read is \<open>.env\<close> in the root of the checkout; a missing
  file is silent and any other failure is a warning with the path, never an error.\<close>

theorem root_env_loaded:
  assumes "list_all plain_elem ds"
  shows "LoadRootEnv (Some (CHR ''/'' # Join (ds @ [''shared'', ''env.go'']) (CHR ''/''))) load getenv =
    (case load (CHR ''/'' # Join (ds @ [''.env'']) (CHR ''/'')) getenv of (e, env') \<Rightarrow>
       ((case e of Some (LoadFailed _) \<Rightarrow> Some (CHR ''/'' # Join (ds @ [''.env'']) (CHR ''/'')) | _ \<Rightarrow> None), env'))"
  unfolding LoadRootEnv_def option.case env_path_root [OF assms] by (simp split: prod.split option.split load_error.split)

theorem root_env_loaded_witness:
  "LoadRootEnv (Some ''/srv/sitewatch/shared/env.go'') (\<lambda>p env. (Some (LoadFailed p), env)) (\<lambda>_. []) =
     (Some ''/srv/sitewatch/.env'', \<lambda>_. [])"
  using root_env_loaded [of "[''srv'', ''sitewatch'']" "\<lambda>p env. (Some (LoadFailed p), env)" "\<lambda>_. []"]
  by (simp add: plain_elem_def)

text \<open>The metrics server answers its seven patterns and nothing else: a path outside \<open>/healthz\<close>,
  \<open>/metrics\<close> and the tree below \<open>/debug/pprof\<close> is not found, and below that tree every path without a
  handler of its own goes to the index.\<close>

theorem metrics_server_routes:
  "mux_find (ms_routes (newMetricsServer port)) path =
     (if path = ''/healthz'' then Serve Healthz else if path = ''/metrics'' then Serve Metrics
      else if path = ''/debug/pprof/cmdline'' then Serve PprofCmdline else if path = ''/debug/pprof/profile'' then Serve PprofProfile
      else if path = ''/debug/pprof/symbol'' then Serve PprofSymbol else if path = ''/debug/pprof/trace'' then Serve PprofTrace
      else if path = ''/debug/pprof'' then Redirect ''/debug/pprof/''
      else if take (length ''/debug/pprof/'') path = ''/debug/pprof/'' then Serve PprofIndex else NotFound)"
proof -
  have slash: "path @ ''/'' = ''/debug/pprof/'' \<longleftrightarrow> path = ''/debug/pprof''"
    using append_same_eq [of path "''/''" "''/debug/pprof''"] by simp
  have other: "path @ ''/'' \<noteq> p @ [c]" if "c \<noteq> CHR ''/''" for p c using that by simp
  show ?thesis
    using slash other [of _ "''/health''"] other [of _ "''/metric''"] other [of _ "''/debug/pprof/cmdlin''"]
      other [of _ "''/debug/pprof/profil''"] other [of _ "''/debug/pprof/symbo''"] other [of _ "''/debug/pprof/trac''"]
    by (auto simp: mux_find_def newMetricsServer_def)
qed

text \<open>A start of the ingestion service either runs the configured pool or exits with status 1. The
  worker pool is up before the broker is contacted, so no message arrives without a queue to hold it;
  the pool that runs has at least one worker and a queue of at least one place; a failure is the last
  thing reported, and the steps before it are a beginning of those of a successful start.\<close>

definition full_start :: "env \<Rightarrow> boot_event list" where
  "full_start getenv =
     [BPostgres, BMongo, BIndexes, BCollectors (map desc_name (Describe (NewPostgresPoolCollector ''ingestion''))),
      BServer (CHR '':'' # cf_metricsPort (ingest_config_from_env getenv)),
      BWorkers (cf_workerCount (ingest_config_from_env getenv)) (cf_queueSize (ingest_config_from_env getenv))
        (cf_debounceN (ingest_config_from_env getenv)),
      BBroker (getenv ''MQTT_BROKER_URL'')]"

lemma broker_options_Broker [simp]: "co_Broker (broker_options getenv) = getenv ''MQTT_BROKER_URL''"
  by (simp add: broker_options_def)

lemma NewPool_started:
  "pl_workers (NewPool (ingest_config_from_env getenv) w) \<noteq> []" "ch_buf (pl_chan (NewPool cfg w)) = []"
  "1 \<le> ch_cap (pl_chan (NewPool (ingest_config_from_env getenv) w))" "set (pl_workers (NewPool cfg w)) \<subseteq> {WIdle}"
  using config_positive [of getenv "[]" 0 0] by (auto simp: NewPool_def make_chan_def le_nat_iff)

theorem ingestion_start_outcome:
  "case ingestion_start dr getenv w of
     (evs, Inr p) \<Rightarrow> evs = full_start getenv \<and> pl_workers p \<noteq> [] \<and> set (pl_workers p) \<subseteq> {WIdle} \<and>
       ch_buf (pl_chan p) = [] \<and> 1 \<le> ch_cap (pl_chan p) \<and> p = NewPool (ingest_config_from_env getenv) w
   | (evs, Inl code) \<Rightarrow> code = 1 \<and> (\<exists>k m. evs = take k (full_start getenv) @ [BError m])"
proof -
  have "\<exists>k m. [BError x] = take k (full_start getenv) @ [BError m]" for x by (intro exI [of _ 0]) simp
  moreover have "\<exists>k m. [BPostgres, BError x] = take k (full_start getenv) @ [BError m]" for x
    by (intro exI [of _ 1]) (simp add: full_start_def)
  moreover have "\<exists>k m. [BPostgres, BMongo, BError x] = take k (full_start getenv) @ [BError m]" for x
    by (intro exI [of _ 2]) (simp add: full_start_def eval_nat_numeral)
  moreover have "\<exists>k m. full_start getenv @ [BError x] = take k (full_start getenv) @ [BError m]" for x
    by (intro exI [of _ "length (full_start getenv)"]) simp
  ultimately show ?thesis
    using NewPool_started
    by (auto simp: ingestion_start_def Let_def newMetricsServer_def full_start_def [symmetric] split: sum.split prod.split option.split)
qed

text \<open>A start of the API serves with a usable limiter or exits with status 1: the limiter it runs has a
  positive rate and burst and evicts clients only after the ten minutes for which eviction is proved
  invisible.\<close>

theorem api_start_outcome:
  "case api_start dr cd getenv of
     (evs, Inr c) \<Rightarrow> BServer (ac_Addr c) = last evs \<and> ac_Addr c = CHR '':'' # api_port getenv \<and>
       Finite 0 < rl_rps (ac_limiter c) \<and> 1 \<le> rl_burst (ac_limiter c) \<and> rl_visitors (ac_limiter c) = Map.empty \<and>
       ac_maxIdle c = 10 * minute
   | (evs, Inl code) \<Rightarrow> code = 1 \<and> (\<exists>m. last evs = BError m)"
proof -
  have "rl_visitors (rateLimitFromEnv cd getenv) = Map.empty"
    by (simp add: rateLimitFromEnv_def newIPRateLimiter_def Let_def)
  then show ?thesis
    using rate_limit_config_positive [of cd getenv] by (auto simp: api_start_def Let_def split: sum.split)
qed

subsection \<open>Lemmas: the end of the API process\<close>

text \<open>What holds at every moment: once a pool is closed no request acquires a connection of it, and
  \<open>main\<close> passes a pool only when none is in use.\<close>

definition api_proc_ok :: "api_proc \<Rightarrow> bool" where
  "api_proc_ok p \<longleftrightarrow>
     (ap_main p \<in> {M_Close, M_exited 0} \<longrightarrow> \<not> ap_mongo_open p \<and> MongoConn \<notin> set (ap_requests p)) \<and>
     (ap_main p = M_exited 0 \<longrightarrow> \<not> ap_pg_open p \<and> PgConn \<notin> set (ap_requests p)) \<and>
     (ap_main p = M_Close \<longrightarrow> \<not> ap_pg_open p) \<and> (ap_main p = M_Disconnect \<longrightarrow> \<not> ap_mongo_open p) \<and>
     (ap_shutdown p \<noteq> S_ctx_Done \<or> \<not> ap_listening p \<longrightarrow> ap_signalled p) \<and>
     (ap_main p \<notin> {M_ListenAndServe, M_exited 1} \<longrightarrow> \<not> ap_listening p)"

lemma api_proc_ok_main: "main_step p q \<Longrightarrow> api_proc_ok p \<Longrightarrow> api_proc_ok q"
  by (induction rule: main_step.induct) (simp_all add: api_proc_ok_def)

lemma api_proc_ok_shutdown: "shutdown_step p q \<Longrightarrow> api_proc_ok p \<Longrightarrow> api_proc_ok q"
  by (induction rule: shutdown_step.induct) (simp_all add: api_proc_ok_def)

text \<open>Serving changes nothing but the requests, and adds a connection only of an open pool.\<close>

lemma serve_step_frame:
  assumes "serve_step p q"
  shows "\<exists>rs. q = p\<lparr>ap_requests := rs\<rparr> \<and> (MongoConn \<in> set rs \<longrightarrow> ap_mongo_open p \<or> MongoConn \<in> set (ap_requests p)) \<and>
    (PgConn \<in> set rs \<longrightarrow> ap_pg_open p \<or> PgConn \<in> set (ap_requests p))"
  using assms
proof (induction rule: serve_step.induct)
  case (respond i p)
  have "set (take i (ap_requests p) @ drop (Suc i) (ap_requests p)) \<subseteq> set (ap_requests p)"
    by (auto dest: in_set_takeD in_set_dropD)
  then show ?case by blast
next
  case (acquire_pg i p)
  then show ?case using set_update_subset_insert [of "ap_requests p" i PgConn] by blast
next
  case (acquire_mongo i p)
  then show ?case using set_update_subset_insert [of "ap_requests p" i MongoConn] by blast
next
  case (release i p)
  then show ?case using set_update_subset_insert [of "ap_requests p" i NoConn] by blast
next
  case (accept p)
  then show ?case by (intro exI [of _ "ap_requests p @ [NoConn]"]) simp
qed

lemma api_proc_ok_serve: "serve_step p q \<Longrightarrow> api_proc_ok p \<Longrightarrow> api_proc_ok q"
proof -
  assume "serve_step p q" and ok: "api_proc_ok p"
  then obtain rs where q: "q = p\<lparr>ap_requests := rs\<rparr>"
    and m: "MongoConn \<in> set rs \<longrightarrow> ap_mongo_open p \<or> MongoConn \<in> set (ap_requests p)"
    and g: "PgConn \<in> set rs \<longrightarrow> ap_pg_open p \<or> PgConn \<in> set (ap_requests p)" using serve_step_frame by blast
  from ok m g show "api_proc_ok q" unfolding q api_proc_ok_def by (simp, blast)
qed

lemma api_proc_ok_step: "api_proc_step p q \<Longrightarrow> api_proc_ok p \<Longrightarrow> api_proc_ok q"
proof (induction rule: api_proc_step.induct)
  case (signal p)
  then show ?case by (simp add: api_proc_ok_def)
next
  case (clock p d)
  then show ?case by (simp add: api_proc_ok_def)
qed (blast intro: api_proc_ok_main api_proc_ok_shutdown api_proc_ok_serve)+

interpretation api_process: invariant_system "\<lambda>p. p = api_started" api_proc_step api_proc_ok
  by unfold_locales (simp add: api_proc_ok_def api_started_def, rule api_proc_ok_step)

text \<open>The process with n requests accepted.\<close>

definition api_busy :: "nat \<Rightarrow> api_proc" where
  "api_busy n = api_started\<lparr>ap_requests := replicate n NoConn\<rparr>"

lemma api_busy_run: "run api_proc_step api_started (api_busy n)"
proof (induction n)
  case 0
  then show ?case by (simp add: api_busy_def api_started_def run_refl)
next
  case (Suc n)
  have "api_proc_step (api_busy n) (api_busy n\<lparr>ap_requests := ap_requests (api_busy n) @ [NoConn]\<rparr>)"
    by (rule by_request, simp add: api_busy_def api_started_def ap_running_def) (rule accept, simp add: api_busy_def api_started_def)
  also have "api_busy n\<lparr>ap_requests := ap_requests (api_busy n) @ [NoConn]\<rparr> = api_busy (Suc n)"
    by (simp add: api_busy_def replicate_append_same)
  finally show ?case by (rule run_step [OF Suc])
qed

text \<open>C40: The shutdown of the API is not graceful, though it is orderly towards the databases. For every
  number of requests there is a run in which the process ends, with status 0, with that many accepted
  requests unanswered, while \<open>Shutdown\<close> is still polling and its five seconds have not passed: \<open>main\<close>
  does not wait for it. Conversely, in every run that ends with status 0 the signal was given and no
  request that is cut off holds a connection of either database.\<close>

theorem api_exit_drops_requests:
  "(\<exists>q. run api_proc_step api_started q \<and> ap_main q = M_exited 0 \<and> length (ap_requests q) = n \<and>
      ap_shutdown q = S_polling \<and> ap_clock q < ap_deadline q) \<and>
   (run api_proc_step api_started p \<and> ap_main p = M_exited 0 \<longrightarrow> ap_signalled p \<and> list_all (\<lambda>st. st = NoConn) (ap_requests p))"
proof
  let ?p0 = "api_busy n"
  let ?p1 = "?p0\<lparr>ap_signalled := True\<rparr>"
  let ?p2 = "?p1\<lparr>ap_shutdown := S_Shutdown, ap_deadline := ap_clock ?p1 + 5 * second, ap_lines := ap_lines ?p1 @ [''shutting down'']\<rparr>"
  let ?p3 = "?p2\<lparr>ap_shutdown := S_polling, ap_listening := False\<rparr>"
  let ?p4 = "?p3\<lparr>ap_main := M_close_cleanupDone\<rparr>"
  let ?p5 = "?p4\<lparr>ap_main := M_Disconnect, ap_mongo_open := False\<rparr>"
  let ?p6 = "?p5\<lparr>ap_main := M_Close, ap_pg_open := False\<rparr>"
  let ?p7 = "?p6\<lparr>ap_main := M_exited 0\<rparr>"
  note start = api_busy_def api_started_def ap_running_def
  have "run api_proc_step api_started ?p1" by (rule run_step [OF api_busy_run signal]) (simp add: start)
  then have "run api_proc_step api_started ?p2" by (rule run_step) (rule by_shutdown, simp add: start, rule ctx_done, simp_all add: start)
  then have "run api_proc_step api_started ?p3" by (rule run_step) (rule by_shutdown, simp add: start, rule close_listener, simp add: start)
  then have "run api_proc_step api_started ?p4" by (rule run_step) (rule by_main, simp add: start, rule server_closed, simp_all add: start)
  then have "run api_proc_step api_started ?p5" by (rule run_step) (rule by_main, simp add: start, rule cleanup_closed, simp add: start)
  then have "run api_proc_step api_started ?p6" by (rule run_step) (rule by_main, simp add: start, rule disconnected, simp_all add: start)
  then have "run api_proc_step api_started ?p7" by (rule run_step) (rule by_main, simp add: start, rule pool_closed, simp_all add: start)
  then show "\<exists>q. run api_proc_step api_started q \<and> ap_main q = M_exited 0 \<and> length (ap_requests q) = n \<and>
      ap_shutdown q = S_polling \<and> ap_clock q < ap_deadline q"
    by (intro exI [of _ ?p7]) (simp add: start)
next
  show "run api_proc_step api_started p \<and> ap_main p = M_exited 0 \<longrightarrow> ap_signalled p \<and> list_all (\<lambda>st. st = NoConn) (ap_requests p)"
  proof
    assume "run api_proc_step api_started p \<and> ap_main p = M_exited 0"
    then have "ap_signalled p" "PgConn \<notin> set (ap_requests p)" "MongoConn \<notin> set (ap_requests p)"
      using api_process.reachable_inv [OF refl, of p] by (simp_all add: api_proc_ok_def)
    then show "ap_signalled p \<and> list_all (\<lambda>st. st = NoConn) (ap_requests p)"
      by (auto simp: list_all_iff) (metis req_state.exhaust)
  qed
qed

theorem api_exit_drops_requests_witness:
  "\<exists>q. run api_proc_step api_started q \<and> ap_main q = M_exited 0 \<and> ap_requests q = [NoConn, NoConn, NoConn] \<and>
     ap_signalled q \<and> ap_shutdown q = S_polling"
proof -
  obtain q where q: "run api_proc_step api_started q" "ap_main q = M_exited 0" "length (ap_requests q) = 3" "ap_shutdown q = S_polling"
    using api_exit_drops_requests [of 3 api_started] by blast
  with api_exit_drops_requests [of 0 q] have "ap_signalled q" "list_all (\<lambda>st. st = NoConn) (ap_requests q)" by blast+
  with q show ?thesis by (intro exI [of _ q]) (auto simp: length_Suc_conv numeral_3_eq_3)
qed

end
