(* ===== verification/Ingest_Shutdown.thy ===== *)
theory Ingest_Shutdown
  imports Ingest_Pool
begin

text \<open>
  What holds of the worker pool over its whole life, from the start to the end of the process and
  over every interleaving: a worker finishes every message whatever runs between its steps, the
  metrics agree with the log and with the workers, and after the signal nothing more is stored.
\<close>

subsection \<open>A worker finishes its message\<close>

text \<open>Where a phase stands: the call it is at, the attempts left, the decisions left of the attempt.\<close>

fun wphase_rank :: "wphase \<Rightarrow> nat \<times> nat \<times> nat" where
  "wphase_rank (PWrite cid msg) = (9, 0, 0)"
| "wphase_rank (PLastSeen cid msg) = (8, 0, 0)"
| "wphase_rank (PLastSeenExec cid msg now) = (7, 0, 0)"
| "wphase_rank (PLastSeenWarn cid msg now e) = (6, 0, 0)"
| "wphase_rank (PRules cid msg now) = (5, 0, 0)"
| "wphase_rank (PActive cid msg now rules) = (4, 0, 0)"
| "wphase_rank (PEvaluate cid msg now rules active) = (3, 0, 0)"
| "wphase_rank (PApply cid msg now ds todo attempt backoff) = (2, maxAttempts - attempt, length todo)"
| "wphase_rank (PCount cid msg ds) = (1, length ds, 0)"
| "wphase_rank (PLogDecision cid msg d ds) = (1, length ds, 1)"
| "wphase_rank (PDone r) = (0, 0, 0)"

abbreviation rank_order :: "((nat \<times> nat \<times> nat) \<times> (nat \<times> nat \<times> nat)) set" where
  "rank_order \<equiv> less_than <*lex*> less_than <*lex*> less_than"

definition phase_done :: "wphase \<Rightarrow> bool" where
  "phase_done ph \<longleftrightarrow> (\<exists>r. ph = PDone r)"

lemma pstep_rank: "\<not> phase_done ph \<Longrightarrow> (wphase_rank (fst (pstep E n t ph sv)), wphase_rank ph) \<in> rank_order"
  by (cases "(E, n, t, ph, sv)" rule: pstep.cases)
    (auto simp: phase_done_def Let_def split_beta diff_less_mono2 split: option.split sum.split)

lemma ctx_pstep_fst:
  "\<exists>sv'. fst (ctx_pstep m E n t ph sv) = fst (pstep E n t ph sv')"
  by (auto simp: ctx_pstep_def split_beta)

lemma ctx_pstep_rank:
  assumes "\<not> phase_done ph"
  shows "(wphase_rank (fst (ctx_pstep m E n t ph sv)), wphase_rank ph) \<in> rank_order"
  using ctx_pstep_fst [of m E n t ph sv] pstep_rank [OF assms, of E n t] by metis

text \<open>
  The phases of one worker when \<open>seen k\<close> is what it finds at its \<open>k\<close>-th step: how far \<open>main\<close> is, the
  clock, and the state all goroutines share, which others may have changed in any way in between.
\<close>

fun phase_after :: "pgenv \<Rightarrow> int \<Rightarrow> (nat \<Rightarrow> main_phase \<times> time \<times> Service) \<Rightarrow> wphase \<Rightarrow> nat \<Rightarrow> wphase" where
  "phase_after E n seen ph 0 = ph"
| "phase_after E n seen ph (Suc k) =
     (case seen k of (m, t, sv) \<Rightarrow> fst (ctx_pstep m E n t (phase_after E n seen ph k) sv))"

lemma phase_after_shift:
  "phase_after E n seen ph (Suc k) =
   phase_after E n (\<lambda>i. seen (Suc i)) (case seen 0 of (m, t, sv) \<Rightarrow> fst (ctx_pstep m E n t ph sv)) k"
  by (induction k) simp_all

lemma phase_after_done: "\<exists>k. phase_done (phase_after E n seen ph k)"
proof -
  have wf: "wf (inv_image rank_order wphase_rank)" by (intro wf_inv_image wf_lex_prod wf_less_than)
  show ?thesis
  proof (induction ph arbitrary: seen rule: wf_induct_rule [OF wf])
    case (1 ph)
    show ?case
    proof (cases "phase_done ph")
      case True
      then show ?thesis by (intro exI [of _ 0]) simp
    next
      case False
      let ?ph = "case seen 0 of (m, t, sv) \<Rightarrow> fst (ctx_pstep m E n t ph sv)"
      have "(wphase_rank ?ph, wphase_rank ph) \<in> rank_order" using ctx_pstep_rank [OF False] by (simp split: prod.split)
      then have "(?ph, ph) \<in> inv_image rank_order wphase_rank" by simp
      from 1 [OF this] obtain k where "phase_done (phase_after E n (\<lambda>i. seen (Suc i)) ?ph k)" by blast
      then show ?thesis by (intro exI [of _ "Suc k"]) (simp only: phase_after_shift)
    qed
  qed
qed

text \<open>C12: No worker can be kept from finishing a message: whatever the other workers, the API, the
  database and the shutdown do to the shared state between its steps, a worker that keeps being
  scheduled is done with the message after finitely many steps of its own. No step waits for another
  worker, and the retry loop cannot be prolonged.\<close>

theorem worker_wait_free:
  "\<exists>k r. phase_after E n seen (start_phase cd rnd j) k = PDone r"
  using phase_after_done [of E n seen "start_phase cd rnd j"]
  by (auto simp: phase_done_def)

subsection \<open>Metrics, log and workers agree\<close>

fun is_drop :: "log_line \<Rightarrow> bool" where
  "is_drop (LogQueueFull topic) \<longleftrightarrow> True"
| "is_drop l \<longleftrightarrow> False"

fun is_decision :: "string \<Rightarrow> log_line \<Rightarrow> bool" where
  "is_decision label (LogDecision cid dev rule action v) \<longleftrightarrow> action = label"
| "is_decision label l \<longleftrightarrow> False"

fun is_busy :: "worker \<Rightarrow> bool" where
  "is_busy (WBusy j start ph) \<longleftrightarrow> True"
| "is_busy w \<longleftrightarrow> False"

text \<open>The workers between the two statements of the decision loop: counted, not logged yet.\<close>

fun is_logging :: "string \<Rightarrow> worker \<Rightarrow> bool" where
  "is_logging label (WBusy j start (PLogDecision cid msg d ds)) \<longleftrightarrow> decisionLabel (rd_Decision d) = label"
| "is_logging label w \<longleftrightarrow> False"

abbreviation count_of :: "('a \<Rightarrow> bool) \<Rightarrow> 'a list \<Rightarrow> nat" where
  "count_of P xs \<equiv> length (filter P xs)"

definition accounted :: "pool \<Rightarrow> bool" where
  "accounted p \<longleftrightarrow>
     length (ch_buf (pl_chan p)) \<le> ch_cap (pl_chan p) \<and>
     sv_messagesReceived (pl_sv p) = length (sv_processingDuration (pl_sv p)) + count_of is_busy (pl_workers p) \<and>
     sv_messagesDropped (pl_sv p) = count_of is_drop (sv_log (pl_sv p)) + length (pl_dropped p) \<and>
     (\<forall>label. sv_alertDecisionsTotal (pl_sv p) label =
        count_of (is_decision label) (sv_log (pl_sv p)) + count_of (is_logging label) (pl_workers p))"

lemma count_update:
  "i < length ws \<Longrightarrow> count_of P (ws[i := w]) + of_bool (P (ws ! i)) = count_of P ws + of_bool (P w)"
proof (induction ws arbitrary: i)
  case (Cons x ws)
  then show ?case by (cases i) auto
qed simp

lemma count_same:
  "i < length ws \<Longrightarrow> \<not> P (ws ! i) \<Longrightarrow> \<not> P w \<Longrightarrow> count_of P (ws[i := w]) = count_of P ws"
  using count_update [of i ws P w] by simp

text \<open>What a step of a worker does to the counters and the log, and how its phase accounts for it.\<close>

lemma pstep_counters:
  "sv_messagesReceived (snd (pstep E n t ph sv)) = sv_messagesReceived sv"
  "sv_processingDuration (snd (pstep E n t ph sv)) = sv_processingDuration sv"
  "sv_messagesDropped (snd (pstep E n t ph sv)) = sv_messagesDropped sv"
  "count_of is_drop (sv_log (snd (pstep E n t ph sv))) = count_of is_drop (sv_log sv)"
  "sv_alertDecisionsTotal (snd (pstep E n t ph sv)) label + count_of (is_decision label) (sv_log sv) +
     of_bool (is_logging label (WBusy j start ph)) =
   sv_alertDecisionsTotal sv label + count_of (is_decision label) (sv_log (snd (pstep E n t ph sv))) +
     of_bool (is_logging label (WBusy j start (fst (pstep E n t ph sv))))"
  by (cases "(E, n, t, ph, sv)" rule: pstep.cases;
      simp add: Let_def split_beta count_inc_def count_log_def sv_logged_def split: option.split sum.split)+

lemma ctx_pstep_counters:
  assumes "ctx_pstep m E n t ph sv = (ph', sv')"
  shows "sv_messagesReceived sv' = sv_messagesReceived sv" "sv_processingDuration sv' = sv_processingDuration sv"
    "sv_messagesDropped sv' = sv_messagesDropped sv" "count_of is_drop (sv_log sv') = count_of is_drop (sv_log sv)"
    "sv_alertDecisionsTotal sv' label + count_of (is_decision label) (sv_log sv) + of_bool (is_logging label (WBusy j start ph)) =
     sv_alertDecisionsTotal sv label + count_of (is_decision label) (sv_log sv') + of_bool (is_logging label (WBusy j start ph'))"
proof -
  have out: "sv' = snd (ctx_pstep m E n t ph sv)" "ph' = fst (ctx_pstep m E n t ph sv)" using assms by simp_all
  note P = pstep_counters [of E n t ph "with_faults [Fail ''context canceled''] sv"] pstep_counters [of E n t ph sv]
  show "sv_messagesReceived sv' = sv_messagesReceived sv" "sv_processingDuration sv' = sv_processingDuration sv"
    "sv_messagesDropped sv' = sv_messagesDropped sv" "count_of is_drop (sv_log sv') = count_of is_drop (sv_log sv)"
    using P(1-4) P(6-9) by (simp_all add: out ctx_pstep_def split_beta with_faults_def)
  show "sv_alertDecisionsTotal sv' label + count_of (is_decision label) (sv_log sv) + of_bool (is_logging label (WBusy j start ph)) =
     sv_alertDecisionsTotal sv label + count_of (is_decision label) (sv_log sv') + of_bool (is_logging label (WBusy j start ph'))"
    using P(5) [of label j start] P(10) [of label j start] by (simp add: out ctx_pstep_def split_beta with_faults_def)
qed

lemma accounted_step:
  assumes "pool_step cd E n ext p q" "accounted p"
  shows "accounted q"
  using assms
proof (induction rule: pool_step.induct)
  case (arrive p topic payload dropped c' sv')
  then show ?case
    by (auto simp: accounted_def on_message_select_def chan_trySend_def split: option.splits if_splits)
next
  case (warn p ds topic ds')
  then show ?case by (simp add: accounted_def on_message_warn_def sv_logged_def)
next
  case (take p i j c')
  from take(4) have "length (ch_buf c') \<le> length (ch_buf (pl_chan p))" "ch_cap c' = ch_cap (pl_chan p)"
    by (auto simp: chan_recv_def split: list.splits)
  with take show ?case by (simp add: accounted_def count_same)
next
  case (receive p i j start rnd)
  have "\<not> is_logging label (WBusy j start (start_phase cd rnd j))" for label by (simp add: start_phase_def split: sum.split)
  with receive count_update [OF receive(2), of is_busy "WBusy j start (start_phase cd rnd j)"] show ?case
    by (simp add: accounted_def count_same)
next
  case (work p i j start ph t ph' sv')
  note C = ctx_pstep_counters [OF work(4)]
  have log: "sv_alertDecisionsTotal sv' label = count_of (is_decision label) (sv_log sv') +
      count_of (is_logging label) ((pl_workers p)[i := WBusy j start ph'])" for label
  proof -
    have "sv_alertDecisionsTotal (pl_sv p) label = count_of (is_decision label) (sv_log (pl_sv p)) + count_of (is_logging label) (pl_workers p)"
      using work(5) by (simp add: accounted_def)
    with C(5) [of label j start] count_update [OF work(2), of "is_logging label" "WBusy j start ph'", unfolded work(3)] show ?thesis by linarith
  qed
  have "count_of is_busy ((pl_workers p)[i := WBusy j start ph']) = count_of is_busy (pl_workers p)"
    using count_update [OF work(2), of is_busy "WBusy j start ph'"] work(3) by simp
  with work(5) C(1-4) log show ?case by (simp add: accounted_def)
next
  case (observe p i j start r stop)
  with count_update [OF observe(2), of is_busy "WTimed j r"] show ?case by (simp add: accounted_def count_same)
next
  case (report p i j r)
  then show ?case by (auto simp: accounted_def sv_logged_def count_same split: option.split)
next
  case (return p i)
  then show ?case by (simp add: accounted_def count_same)
qed (simp_all add: accounted_def)

lemma accounted_init: "accounted (NewPool cfg w)"
  by (auto simp: accounted_def NewPool_def NewService_def make_chan_def filter_empty_conv)

interpretation accounts: invariant_system "\<lambda>p. \<exists>cfg w. p = NewPool cfg w" "pool_step cd E n ext" accounted for cd E n ext
  by unfold_locales (auto intro: accounted_step accounted_init)

text \<open>C25: The counters run ahead of the log by exactly the goroutines between the two statements. At every
  moment of every interleaving, faults and shutdown included: the messages counted as received are
  those timed plus one per worker that is processing one; the drops counted are the drop lines of the
  log plus one per callback that has counted and not logged yet; for each label the decisions counted
  are its log lines plus one per worker that has counted a decision of that label and not logged it
  yet; and the queue never holds more than its size. So whenever no goroutine is between the two
  statements, metrics and log agree.\<close>

theorem metrics_match_log:
  assumes "run (pool_step cd E n ext) (NewPool cfg w) q"
  shows "sv_messagesReceived (pl_sv q) = length (sv_processingDuration (pl_sv q)) + count_of is_busy (pl_workers q) \<and>
    sv_messagesDropped (pl_sv q) = count_of is_drop (sv_log (pl_sv q)) + length (pl_dropped q) \<and>
    (\<forall>label. sv_alertDecisionsTotal (pl_sv q) label =
       count_of (is_decision label) (sv_log (pl_sv q)) + count_of (is_logging label) (pl_workers q)) \<and>
    length (ch_buf (pl_chan q)) \<le> ch_cap (pl_chan q)"
  using accounts.reachable_inv [OF _ assms] by (auto simp: accounted_def)

text \<open>The race stopped where one worker has counted its first decision and not logged it.\<close>

definition demo_counting :: "action list" where
  "demo_counting =
     replicate 3 (Arrive ''sitewatch/s1/d1/telemetry'' ''{}'') @
     demo_begin 0 @ demo_works 0 6 @ demo_end 0 @
     demo_begin 0 @ demo_works 0 5 @ demo_end 0 @
     demo_begin 0 @ demo_works 0 9"

theorem metrics_match_log_witness:
  "\<exists>q. run (pool_step demo_cd demo_env 3 (\<lambda>_ _. False)) demo_pool q \<and>
     sv_alertDecisionsTotal (pl_sv q) ''create'' = 1 \<and> count_of (is_logging ''create'') (pl_workers q) = 1 \<and>
     count_of (is_decision ''create'') (sv_log (pl_sv q)) = 0"
proof -
  have "map_option (\<lambda>p. sv_alertDecisionsTotal (pl_sv p) ''create'' = 1 \<and> count_of (is_logging ''create'') (pl_workers p) = 1)
      (sched demo_cd demo_env 3 demo_rand demo_counting demo_pool) = Some True"
    by code_simp
  then obtain q where q: "sched demo_cd demo_env 3 demo_rand demo_counting demo_pool = Some q"
    "sv_alertDecisionsTotal (pl_sv q) ''create'' = 1" "count_of (is_logging ''create'') (pl_workers q) = 1"
    by (auto simp: map_option_eq_Some)
  note r = sched_sound [OF q(1), of "\<lambda>_ _. False"]
  from metrics_match_log [OF r [unfolded demo_pool_def]] q(2,3) r show ?thesis by (intro exI [of _ q]) auto
qed

subsection \<open>Shutdown\<close>

lemma stopped_step:
  assumes "pool_step cd E n ext p q" "pl_main p \<noteq> MServing"
  shows "pl_main q \<noteq> MServing \<and> sv_telemetry (pl_sv q) = sv_telemetry (pl_sv p) \<and>
    (sv_db (pl_sv q) = sv_db (pl_sv p) \<or> ext (sv_db (pl_sv p)) (sv_db (pl_sv q)))"
  using assms
proof (induction rule: pool_step.induct)
  case (arrive p topic payload dropped c' sv')
  then have "sv_store sv' = sv_store (pl_sv p)" by (blast dest: on_message_select_store)
  with arrive show ?case by simp
next
  case (work p i j start ph t ph' sv')
  with ctx_pstep_stopped [OF work(5,4)] show ?case by simp
qed (auto split: option.split)

lemma stopped_run:
  "run (pool_step cd E n ext) p q \<Longrightarrow> pl_main p \<noteq> MServing \<Longrightarrow>
   pl_main q \<noteq> MServing \<and> sv_telemetry (pl_sv q) = sv_telemetry (pl_sv p) \<and> run ext (sv_db (pl_sv p)) (sv_db (pl_sv q))"
proof (induction rule: run.induct)
  case (run_step p q r)
  from stopped_step [OF run_step.hyps(2)] run_step.IH [OF run_step.prems] show ?case
    by (auto intro: run.run_step)
qed (simp add: run_refl)

text \<open>C17: A shutdown abandons what is queued and in flight: once the signal has arrived no message is
  stored any more and the service does not touch the database (whatever it becomes is the work of the
  other writers), so every message still in the queue or received but not yet written is lost although
  the subscription callback accepted it; and \<open>main\<close> waits for none of it: from every state of the
  serving process there is a run that ends the process with the queue and the workers as they were,
  without a drop counted or a line logged.\<close>

theorem shutdown_abandons_messages:
  assumes "pl_main p = MServing"
  shows "(\<forall>q. run (pool_step cd E n ext) (p\<lparr>pl_main := MStopping\<rparr>) q \<longrightarrow>
      sv_telemetry (pl_sv q) = sv_telemetry (pl_sv p) \<and> run ext (sv_db (pl_sv p)) (sv_db (pl_sv q))) \<and>
    run (pool_step cd E n ext) p (p\<lparr>pl_main := MExited\<rparr>)"
proof
  show "\<forall>q. run (pool_step cd E n ext) (p\<lparr>pl_main := MStopping\<rparr>) q \<longrightarrow>
      sv_telemetry (pl_sv q) = sv_telemetry (pl_sv p) \<and> run ext (sv_db (pl_sv p)) (sv_db (pl_sv q))"
    using stopped_run [of cd E n ext "p\<lparr>pl_main := MStopping\<rparr>"] by simp
  have "run (pool_step cd E n ext) p (p\<lparr>pl_main := MStopping\<rparr>)" by (rule run_one) (rule signal [OF assms])
  moreover have "pool_step cd E n ext (p\<lparr>pl_main := MStopping\<rparr>) (p\<lparr>pl_main := MDisconnected\<rparr>)"
    using disconnect [of "p\<lparr>pl_main := MStopping\<rparr>" cd E n ext] by simp
  moreover have "pool_step cd E n ext (p\<lparr>pl_main := MDisconnected\<rparr>) (p\<lparr>pl_main := MExited\<rparr>)"
    using exit [of "p\<lparr>pl_main := MDisconnected\<rparr>" cd E n ext] by simp
  ultimately show "run (pool_step cd E n ext) p (p\<lparr>pl_main := MExited\<rparr>)" by (meson run_step)
qed

text \<open>Four accepted messages, one of them already received, and a process that is gone.\<close>

theorem shutdown_abandons_messages_witness:
  "\<exists>p :: pool. length (ch_buf (pl_chan p)) = 3 \<and> filter is_busy (pl_workers p) \<noteq> [] \<and> sv_telemetry (pl_sv p) = [] \<and>
     run (pool_step demo_cd demo_env 3 (\<lambda>_ _. False)) demo_pool (p\<lparr>pl_main := MExited\<rparr>)"
proof -
  let ?as = "replicate 4 (Arrive ''sitewatch/s1/d1/telemetry'' ''{}'') @ demo_begin 0"
  have "map_option (\<lambda>p. length (ch_buf (pl_chan p)) = 3 \<and> filter is_busy (pl_workers p) \<noteq> [] \<and> sv_telemetry (pl_sv p) = [] \<and>
      pl_main p = MServing) (sched demo_cd demo_env 3 demo_rand ?as demo_pool) = Some True"
    by code_simp
  then obtain p where p: "sched demo_cd demo_env 3 demo_rand ?as demo_pool = Some p" "length (ch_buf (pl_chan p)) = 3"
    "filter is_busy (pl_workers p) \<noteq> []" "sv_telemetry (pl_sv p) = []" "pl_main p = MServing"
    by (auto simp: map_option_eq_Some)
  from sched_sound [OF p(1), of "\<lambda>_ _. False"] shutdown_abandons_messages [OF p(5), of demo_cd demo_env 3 "\<lambda>_ _. False"]
  have "run (pool_step demo_cd demo_env 3 (\<lambda>_ _. False)) demo_pool (p\<lparr>pl_main := MExited\<rparr>)" by (meson run_trans)
  with p show ?thesis by blast
qed

end
