(* ===== verification/Rate_Interleave.thy ===== *)
theory Rate_Interleave
  imports Rate_Limit
begin

text \<open>
  \<open>allow\<close> of \<open>api/ratelimit.go\<close> as concurrent requests run it: a section under the mutex that finds or
  makes the visitor and reads its limiter, and then, outside the mutex, \<open>limiter.Allow()\<close> on the
  limiter read. Limiters are heap cells, a visitor holds the address of its limiter, and between the
  two halves other requests and the cleanup may run. \<open>Allow\<close> reads its clock just before it locks the
  limiter; the moment the token is taken stands for both. Without interruption the two halves are \<open>allow\<close>
  of \<open>Rate_Limit\<close>; interrupted, the decisions are still those of the atomic limiter that never evicts.
\<close>

subsection \<open>The two halves of allow\<close>

definition allow_section ::
  "'l rate_api \<Rightarrow> time \<Rightarrow> string \<Rightarrow> nat ipRateLimiter \<Rightarrow> 'l list \<Rightarrow> nat \<times> nat ipRateLimiter \<times> 'l list" where
  "allow_section ra now ip l h =
     (let (v, h') = (case rl_visitors l ip of
            None \<Rightarrow> (\<lparr>vs_limiter = length h, vs_lastSeen = zero_lastSeen\<rparr>, h @ [NewLimiter ra (rl_rps l) (rl_burst l)])
          | Some v \<Rightarrow> (v, h));
          v' = v\<lparr>vs_lastSeen := now\<rparr>
      in (vs_limiter v', l\<lparr>rl_visitors := (rl_visitors l)(ip \<mapsto> v')\<rparr>, h'))"

definition take_token :: "'l rate_api \<Rightarrow> time \<Rightarrow> nat \<Rightarrow> 'l list \<Rightarrow> bool \<times> 'l list" where
  "take_token ra now p h = (case Allow ra (h ! p) now of (ok, b) \<Rightarrow> (ok, h[p := b]))"

subsection \<open>Interleaving\<close>

text \<open>
  \<open>lt_calls\<close> are the requests between the two halves: the client, the limiter read and the time of
  the first half. \<open>lt_log\<close> records the decisions in the order they are taken. A tick compares with the
  time the ticker sent, which may lie before the moment the cleanup gets the mutex.
\<close>

record 'l limiter_threads =
  lt_limiter :: "nat ipRateLimiter"
  lt_heap :: "'l list"
  lt_calls :: "(string \<times> nat \<times> time) list"
  lt_now :: time
  lt_log :: "(time \<times> string \<times> bool) list"

definition limiter_start :: "float64 \<Rightarrow> int \<Rightarrow> time \<Rightarrow> 'l limiter_threads" where
  "limiter_start rps burst t =
     \<lparr>lt_limiter = newIPRateLimiter rps burst, lt_heap = [], lt_calls = [], lt_now = t, lt_log = []\<rparr>"

inductive limiter_step :: "'l rate_api \<Rightarrow> duration \<Rightarrow> 'l limiter_threads \<Rightarrow> 'l limiter_threads \<Rightarrow> bool" for ra maxIdle where
  enter: "lt_now s \<le> t \<Longrightarrow> allow_section ra t ip (lt_limiter s) (lt_heap s) = (p, l', h') \<Longrightarrow>
    limiter_step ra maxIdle s
      (s\<lparr>lt_limiter := l', lt_heap := h', lt_calls := lt_calls s @ [(ip, p, t)], lt_now := t\<rparr>)"
| token: "lt_now s \<le> t \<Longrightarrow> lt_calls s = cs @ (ip, p, t0) # ds \<Longrightarrow> take_token ra t p (lt_heap s) = (ok, h') \<Longrightarrow>
    limiter_step ra maxIdle s
      (s\<lparr>lt_heap := h', lt_calls := cs @ ds, lt_now := t, lt_log := lt_log s @ [(t, ip, ok)]\<rparr>)"
| tick: "lt_now s \<le> t \<Longrightarrow> u \<le> t \<Longrightarrow>
    limiter_step ra maxIdle s (s\<lparr>lt_limiter := cleanup_tick maxIdle u (lt_limiter s), lt_now := t\<rparr>)"

text \<open>No request stays longer than \<open>delay\<close> between its two halves.\<close>

definition prompt_step :: "duration \<Rightarrow> 'l rate_api \<Rightarrow> duration \<Rightarrow> 'l limiter_threads \<Rightarrow> 'l limiter_threads \<Rightarrow> bool" where
  "prompt_step delay ra maxIdle s s' \<longleftrightarrow>
     limiter_step ra maxIdle s s' \<and> (\<forall>(ip, p, t0) \<in> set (lt_calls s). lt_now s' - t0 \<le> delay)"

subsection \<open>Uninterrupted, the halves are allow\<close>

text \<open>Addresses are in range and no two clients share one.\<close>

definition pointers_ok :: "nat ipRateLimiter \<Rightarrow> 'l list \<Rightarrow> bool" where
  "pointers_ok l h \<longleftrightarrow>
     (\<forall>ip v. rl_visitors l ip = Some v \<longrightarrow> vs_limiter v < length h) \<and>
     (\<forall>ip ip' v v'. rl_visitors l ip = Some v \<longrightarrow> rl_visitors l ip' = Some v' \<longrightarrow> vs_limiter v = vs_limiter v' \<longrightarrow> ip = ip')"

definition deref :: "nat ipRateLimiter \<Rightarrow> 'l list \<Rightarrow> 'l ipRateLimiter" where
  "deref l h =
     \<lparr>rl_visitors = (\<lambda>ip. map_option (\<lambda>v. \<lparr>vs_limiter = h ! vs_limiter v, vs_lastSeen = vs_lastSeen v\<rparr>) (rl_visitors l ip)),
      rl_rps = rl_rps l, rl_burst = rl_burst l\<rparr>"

lemma pointers_ok_lt: "pointers_ok l h \<Longrightarrow> rl_visitors l ip = Some v \<Longrightarrow> vs_limiter v < length h"
  by (simp add: pointers_ok_def)

lemma pointers_ok_inj:
  "pointers_ok l h \<Longrightarrow> rl_visitors l ip = Some v \<Longrightarrow> rl_visitors l ip' = Some v' \<Longrightarrow> vs_limiter v = vs_limiter v' \<Longrightarrow> ip = ip'"
  by (simp add: pointers_ok_def)

lemma allow_section_cases:
  assumes "allow_section ra t ip l h = (p, l', h')"
  obtains (new) "rl_visitors l ip = None" "p = length h" "h' = h @ [NewLimiter ra (rl_rps l) (rl_burst l)]"
      "l' = l\<lparr>rl_visitors := (rl_visitors l)(ip \<mapsto> \<lparr>vs_limiter = length h, vs_lastSeen = t\<rparr>)\<rparr>"
    | (known) v where "rl_visitors l ip = Some v" "p = vs_limiter v" "h' = h"
      "l' = l\<lparr>rl_visitors := (rl_visitors l)(ip \<mapsto> v\<lparr>vs_lastSeen := t\<rparr>)\<rparr>"
  using assms by (cases "rl_visitors l ip") (auto simp: allow_section_def Let_def)

lemma pointers_ok_section:
  assumes "pointers_ok l h" "allow_section ra t ip l h = (p, l', h')"
  shows "pointers_ok l' h'"
  using assms(2)
proof (cases rule: allow_section_cases)
  case new
  have "vs_limiter v \<noteq> length h" if "rl_visitors l i = Some v" for i v using pointers_ok_lt [OF assms(1) that] by simp
  with new assms(1) show ?thesis by (fastforce simp: pointers_ok_def less_Suc_eq)
next
  case (known v)
  with assms(1) show ?thesis by (auto simp: pointers_ok_def)
qed

lemma pointers_ok_token: "pointers_ok l (h[p := b]) \<longleftrightarrow> pointers_ok l h"
  by (simp add: pointers_ok_def)

lemma pointers_ok_tick: "pointers_ok l h \<Longrightarrow> pointers_ok (cleanup_tick m t l) h"
  by (fastforce simp: pointers_ok_def cleanup_tick_def split: option.splits if_splits)

text \<open>The two halves without a step between them are one call of \<open>allow\<close> on the limiters pointed to.\<close>

theorem allow_halves:
  assumes "pointers_ok l h"
  shows "(case allow_section ra t ip l h of (p, l', h') \<Rightarrow> case take_token ra t p h' of (ok, h'') \<Rightarrow> (ok, deref l' h'')) =
    allow ra t ip (deref l h)"
proof -
  obtain p l' h' where s: "allow_section ra t ip l h = (p, l', h')" using prod_cases3 by blast
  have other: "h[vs_limiter v := b] ! vs_limiter v' = h ! vs_limiter v'"
    if "rl_visitors l ip = Some v" "rl_visitors l ip' = Some v'" "ip' \<noteq> ip" for v v' ip' b
    using pointers_ok_inj [OF assms that(1,2)] that(3) by (metis nth_list_update_neq)
  from s show ?thesis
  proof (cases rule: allow_section_cases)
    case new
    with s show ?thesis
      by (auto simp: take_token_def deref_def allow_def split_beta fun_eq_iff nth_append dest: pointers_ok_lt [OF assms]
        intro!: option.map_cong0)
  next
    case (known v)
    with s pointers_ok_lt [OF assms known(1)] show ?thesis
      by (auto simp: take_token_def deref_def allow_def split_beta fun_eq_iff other intro!: option.map_cong0)
  qed
qed

subsection \<open>The invariant of the interleaving\<close>

text \<open>A bucket that is new or whose last token was asked for at \<open>u\<close> or before.\<close>

definition quiet_since :: "'l rate_api \<Rightarrow> float64 \<Rightarrow> int \<Rightarrow> time \<Rightarrow> 'l \<Rightarrow> bool" where
  "quiet_since ra rps burst u b \<longleftrightarrow> b = NewLimiter ra rps burst \<or> (\<exists>b' t. b = snd (Allow ra b' t) \<and> t \<le> u)"

text \<open>
  A request between its halves holds the limiter its client's visitor still points to, and the last
  token of a bucket was asked for at most \<open>delay\<close> after its visitor was last seen.
\<close>

definition limiter_inv :: "'l rate_api \<Rightarrow> float64 \<Rightarrow> int \<Rightarrow> duration \<Rightarrow> 'l limiter_threads \<Rightarrow> bool" where
  "limiter_inv ra rps burst delay s \<longleftrightarrow>
     rl_rps (lt_limiter s) = rps \<and> rl_burst (lt_limiter s) = burst \<and> pointers_ok (lt_limiter s) (lt_heap s) \<and>
     (\<forall>ip v. rl_visitors (lt_limiter s) ip = Some v \<longrightarrow>
        vs_lastSeen v \<le> lt_now s \<and> quiet_since ra rps burst (vs_lastSeen v + delay) (lt_heap s ! vs_limiter v)) \<and>
     (\<forall>(ip, p, t0) \<in> set (lt_calls s). \<exists>v. rl_visitors (lt_limiter s) ip = Some v \<and> vs_limiter v = p \<and> t0 \<le> vs_lastSeen v)"

lemma limiter_invD:
  assumes "limiter_inv ra rps burst delay s"
  shows "rl_rps (lt_limiter s) = rps" "rl_burst (lt_limiter s) = burst" "pointers_ok (lt_limiter s) (lt_heap s)"
    and "rl_visitors (lt_limiter s) ip = Some v \<Longrightarrow> vs_lastSeen v \<le> lt_now s"
    and "rl_visitors (lt_limiter s) ip = Some v \<Longrightarrow> quiet_since ra rps burst (vs_lastSeen v + delay) (lt_heap s ! vs_limiter v)"
    and "(ip, p, t0) \<in> set (lt_calls s) \<Longrightarrow> \<exists>v. rl_visitors (lt_limiter s) ip = Some v \<and> vs_limiter v = p \<and> t0 \<le> vs_lastSeen v"
  using assms unfolding limiter_inv_def by blast+

lemma limiter_invI:
  assumes "rl_rps (lt_limiter s) = rps" "rl_burst (lt_limiter s) = burst" "pointers_ok (lt_limiter s) (lt_heap s)"
    and "\<And>ip v. rl_visitors (lt_limiter s) ip = Some v \<Longrightarrow>
      vs_lastSeen v \<le> lt_now s \<and> quiet_since ra rps burst (vs_lastSeen v + delay) (lt_heap s ! vs_limiter v)"
    and "\<And>ip p t0. (ip, p, t0) \<in> set (lt_calls s) \<Longrightarrow> \<exists>v. rl_visitors (lt_limiter s) ip = Some v \<and> vs_limiter v = p \<and> t0 \<le> vs_lastSeen v"
  shows "limiter_inv ra rps burst delay s"
  using assms unfolding limiter_inv_def by blast

lemma quiet_since_mono: "quiet_since ra rps burst t b \<Longrightarrow> t \<le> u \<Longrightarrow> quiet_since ra rps burst u b"
  unfolding quiet_since_def by (blast intro: order_trans)

lemma limiter_inv_enter:
  assumes "limiter_inv ra rps burst delay s" "lt_now s \<le> t" "allow_section ra t ip (lt_limiter s) (lt_heap s) = (p, l', h')"
  shows "limiter_inv ra rps burst delay (s\<lparr>lt_limiter := l', lt_heap := h', lt_calls := lt_calls s @ [(ip, p, t)], lt_now := t\<rparr>)"
    (is "limiter_inv _ _ _ _ ?s")
proof -
  note inv = limiter_invD [OF assms(1)]
  have old: "vs_lastSeen v \<le> t" "quiet_since ra rps burst (vs_lastSeen v + delay) (lt_heap s ! vs_limiter v)"
    "vs_limiter v < length (lt_heap s)" if "rl_visitors (lt_limiter s) i = Some v" for i v
    using inv(4,5) [OF that] pointers_ok_lt [OF inv(3) that] assms(2) by auto
  have grown: "quiet_since ra rps burst (t + delay) (lt_heap s ! vs_limiter v)" if "rl_visitors (lt_limiter s) i = Some v" for i v
    using old(1,2) [OF that] by (auto elim: quiet_since_mono)
  have new: "quiet_since ra rps burst u (NewLimiter ra rps burst)" for u by (simp add: quiet_since_def)
  show ?thesis
  proof (rule limiter_invI)
    show "pointers_ok (lt_limiter ?s) (lt_heap ?s)" using pointers_ok_section [OF inv(3) assms(3)] by simp
  next
    fix i v assume v: "rl_visitors (lt_limiter ?s) i = Some v"
    from assms(3) show "vs_lastSeen v \<le> lt_now ?s \<and> quiet_since ra rps burst (vs_lastSeen v + delay) (lt_heap ?s ! vs_limiter v)"
      by (cases rule: allow_section_cases)
        (use v in \<open>auto simp: inv(1,2) new nth_append split: if_splits dest: old intro: grown\<close>)
  next
    fix i q t0 assume "(i, q, t0) \<in> set (lt_calls ?s)"
    then consider "(i, q, t0) = (ip, p, t)" | "(i, q, t0) \<in> set (lt_calls s)" by auto
    then show "\<exists>v. rl_visitors (lt_limiter ?s) i = Some v \<and> vs_limiter v = q \<and> t0 \<le> vs_lastSeen v"
    proof cases
      case 1
      from assms(3) show ?thesis by (cases rule: allow_section_cases) (use 1 in auto)
    next
      case 2
      from inv(6) [OF this] obtain v where v: "rl_visitors (lt_limiter s) i = Some v" "vs_limiter v = q" "t0 \<le> vs_lastSeen v" by blast
      from assms(3) show ?thesis by (cases rule: allow_section_cases) (use v old(1) [OF v(1)] in auto)
    qed
  qed (use assms(3) inv(1,2) in \<open>auto elim: allow_section_cases\<close>)
qed

lemma limiter_inv_token:
  assumes "limiter_inv ra rps burst delay s" "lt_now s \<le> t" "lt_calls s = cs @ (ip, p, t0) # ds" "t - t0 \<le> delay"
  shows "limiter_inv ra rps burst delay
    (s\<lparr>lt_heap := (lt_heap s)[p := snd (Allow ra (lt_heap s ! p) t)], lt_calls := cs @ ds, lt_now := t, lt_log := lg\<rparr>)"
    (is "limiter_inv _ _ _ _ ?s")
proof -
  note inv = limiter_invD [OF assms(1)]
  obtain w where w: "rl_visitors (lt_limiter s) ip = Some w" "vs_limiter w = p" "t0 \<le> vs_lastSeen w"
    using inv(6) [of ip p t0] assms(3) by auto
  have used: "quiet_since ra rps burst (vs_lastSeen w + delay) (snd (Allow ra b t))" for b
    using w(3) assms(4) unfolding quiet_since_def by (intro disjI2 exI [of _ b] exI [of _ t]) simp
  show ?thesis
  proof (rule limiter_invI)
    fix i v assume "rl_visitors (lt_limiter ?s) i = Some v"
    then have v: "rl_visitors (lt_limiter s) i = Some v" by simp
    have "quiet_since ra rps burst (vs_lastSeen v + delay) (lt_heap ?s ! vs_limiter v)"
    proof (cases "vs_limiter v = p")
      case True
      with pointers_ok_inj [OF inv(3) v w(1)] v w have "v = w" by simp
      with used w pointers_ok_lt [OF inv(3) w(1)] show ?thesis by simp
    next
      case False
      with inv(5) [OF v] show ?thesis by simp
    qed
    with inv(4) [OF v] assms(2)
    show "vs_lastSeen v \<le> lt_now ?s \<and> quiet_since ra rps burst (vs_lastSeen v + delay) (lt_heap ?s ! vs_limiter v)" by simp
  next
    fix i q t1 assume "(i, q, t1) \<in> set (lt_calls ?s)"
    then have "(i, q, t1) \<in> set (lt_calls s)" using assms(3) by auto
    from inv(6) [OF this] show "\<exists>v. rl_visitors (lt_limiter ?s) i = Some v \<and> vs_limiter v = q \<and> t1 \<le> vs_lastSeen v" by simp
  qed (use inv(1-3) in \<open>simp_all add: pointers_ok_token\<close>)
qed

text \<open>The cleanup evicts no client with a request between its halves.\<close>

lemma tick_keeps_calls:
  assumes "limiter_inv ra rps burst delay s" "(ip, p, t0) \<in> set (lt_calls s)" "u - t0 \<le> delay" "delay \<le> idle" "0 \<le> idle" "idle < max_int64"
  shows "rl_visitors (cleanup_tick idle u (lt_limiter s)) ip = rl_visitors (lt_limiter s) ip"
proof -
  obtain v where v: "rl_visitors (lt_limiter s) ip = Some v" "t0 \<le> vs_lastSeen v" using limiter_invD(6) [OF assms(1,2)] by blast
  then have "\<not> idle < time_Sub u (vs_lastSeen v)" using assms(3-) by (simp add: time_Sub_gt_iff)
  with v show ?thesis by (simp add: cleanup_tick_def)
qed

lemma limiter_inv_tick:
  assumes "limiter_inv ra rps burst delay s" "lt_now s \<le> t" "u \<le> t" "\<forall>(ip, p, t0) \<in> set (lt_calls s). t - t0 \<le> delay"
    and "delay \<le> idle" "0 \<le> idle" "idle < max_int64"
  shows "limiter_inv ra rps burst delay (s\<lparr>lt_limiter := cleanup_tick idle u (lt_limiter s), lt_now := t\<rparr>)"
proof -
  note inv = limiter_invD [OF assms(1)]
  have kept: "rl_visitors (lt_limiter s) i = Some v" if "rl_visitors (cleanup_tick idle u (lt_limiter s)) i = Some v" for i v
    using that by (auto simp: cleanup_tick_def split: option.splits if_splits)
  show ?thesis
  proof (rule limiter_invI, goal_cases)
    case (4 i v)
    with kept [of i v] inv(4,5) [of i v] assms(2) show ?case by auto
  next
    case (5 i q t0)
    then have c: "(i, q, t0) \<in> set (lt_calls s)" by simp
    with assms(4) have "t - t0 \<le> delay" by blast
    then have "u - t0 \<le> delay" using assms(3) by simp
    with tick_keeps_calls [OF assms(1) c _ assms(5-)] inv(6) [OF c] show ?case by simp
  qed (use inv(1-3) in \<open>simp_all add: pointers_ok_tick\<close>)
qed

subsection \<open>Simulation by the atomic limiter\<close>

text \<open>The requests of a log, in its order, and the state of the atomic limiter after them.\<close>

definition log_requests :: "(time \<times> string \<times> bool) list \<Rightarrow> rl_event list" where
  "log_requests lg = map (\<lambda>(t, ip, ok). Request t ip) lg"

definition log_decisions :: "(time \<times> string \<times> bool) list \<Rightarrow> (string \<times> bool) list" where
  "log_decisions lg = map (\<lambda>(t, ip, ok). (ip, ok)) lg"

definition log_state :: "'l rate_api \<Rightarrow> 'l ipRateLimiter \<Rightarrow> (time \<times> string \<times> bool) list \<Rightarrow> 'l ipRateLimiter" where
  "log_state ra l lg = fold (\<lambda>(t, ip, ok) l. snd (allow ra t ip l)) lg l"

lemma rl_run_log_snoc:
  "rl_run ra m (log_requests (lg @ [(t, ip, ok)])) l =
     rl_run ra m (log_requests lg) l @ [(ip, fst (allow ra t ip (log_state ra l lg)))]"
  by (induction lg arbitrary: l) (auto simp: log_requests_def log_state_def split_beta)

lemma log_state_config [simp]:
  "rl_rps (log_state ra l lg) = rl_rps l" "rl_burst (log_state ra l lg) = rl_burst l"
  by (induction lg arbitrary: l) (auto simp: log_state_def)

text \<open>The bucket a client's next request will use.\<close>

definition bucket_now :: "'l rate_api \<Rightarrow> 'l limiter_threads \<Rightarrow> string \<Rightarrow> 'l" where
  "bucket_now ra s ip = bucket_of ra (deref (lt_limiter s) (lt_heap s)) ip"

lemma bucket_now_alt:
  "bucket_now ra s ip = (case rl_visitors (lt_limiter s) ip of
     None \<Rightarrow> NewLimiter ra (rl_rps (lt_limiter s)) (rl_burst (lt_limiter s)) | Some v \<Rightarrow> lt_heap s ! vs_limiter v)"
  by (simp add: bucket_now_def bucket_of_def deref_def split: option.split)

lemma bucket_now_enter:
  assumes "pointers_ok (lt_limiter s) (lt_heap s)" "allow_section ra t ip (lt_limiter s) (lt_heap s) = (p, l', h')"
  shows "bucket_now ra (s\<lparr>lt_limiter := l', lt_heap := h', lt_calls := cs, lt_now := t\<rparr>) i = bucket_now ra s i"
  using assms(2)
  by (cases rule: allow_section_cases)
    (auto simp: bucket_now_alt nth_append dest: pointers_ok_lt [OF assms(1)] split: option.split)

lemma bucket_now_token:
  assumes "pointers_ok (lt_limiter s) (lt_heap s)" "rl_visitors (lt_limiter s) ip = Some v"
  shows "bucket_now ra (s\<lparr>lt_heap := (lt_heap s)[vs_limiter v := b], lt_calls := cs, lt_now := t, lt_log := lg\<rparr>) i =
    (if i = ip then b else bucket_now ra s i)"
proof (cases "rl_visitors (lt_limiter s) i")
  case None
  with assms(2) show ?thesis by (auto simp: bucket_now_alt)
next
  case (Some w)
  show ?thesis
  proof (cases "i = ip")
    case True
    with Some assms(2) pointers_ok_lt [OF assms] show ?thesis by (simp add: bucket_now_alt)
  next
    case False
    then have "vs_limiter v \<noteq> vs_limiter w" using pointers_ok_inj [OF assms(1,2) Some] by blast
    with False Some show ?thesis by (simp add: bucket_now_alt)
  qed
qed

lemma bucket_now_tick:
  assumes inv: "limiter_inv ra rps burst delay s" and laws: "bucket_laws ra rps burst refill same"
    and idle: "refill + delay \<le> idle" "0 \<le> idle" "idle < max_int64"
  shows "same t (bucket_now ra (s\<lparr>lt_limiter := cleanup_tick idle t (lt_limiter s), lt_now := u\<rparr>) i) (bucket_now ra s i)"
proof (cases "rl_visitors (lt_limiter s) i")
  case None
  with laws show ?thesis by (simp add: bucket_now_alt cleanup_tick_def bucket_laws_def)
next
  case (Some v)
  show ?thesis
  proof (cases "time_Sub t (vs_lastSeen v) > idle")
    case True
    then have "t - vs_lastSeen v > idle" using idle by (simp add: time_Sub_gt_iff)
    then have late: "t - u > refill" if "u \<le> vs_lastSeen v + delay" for u using that idle(1) by linarith
    have refilled: "same t x (NewLimiter ra rps burst)" if "x = snd (Allow ra b u)" "u \<le> vs_lastSeen v + delay" for x b u
      using late [OF that(2)] laws that(1) unfolding bucket_laws_def by blast
    have refl: "same t x x" for x using laws by (simp add: bucket_laws_def)
    have sym: "same t y x" if "same t x y" for x y using that laws unfolding bucket_laws_def by blast
    have "same t (lt_heap s ! vs_limiter v) (NewLimiter ra rps burst)"
      using limiter_invD(5) [OF inv Some] refilled refl unfolding quiet_since_def by auto
    then have "same t (NewLimiter ra rps burst) (lt_heap s ! vs_limiter v)" by (rule sym)
    with Some True limiter_invD(1,2) [OF inv] show ?thesis by (simp add: bucket_now_alt cleanup_tick_def)
  next
    case False
    with Some laws show ?thesis by (simp add: bucket_now_alt cleanup_tick_def bucket_laws_def)
  qed
qed

text \<open>The interleaving and the atomic limiter agree: on the buckets, as of now, and on the log.\<close>

definition simulated ::
  "'l rate_api \<Rightarrow> float64 \<Rightarrow> int \<Rightarrow> duration \<Rightarrow> duration \<Rightarrow> (time \<Rightarrow> 'l \<Rightarrow> 'l \<Rightarrow> bool) \<Rightarrow> 'l limiter_threads \<Rightarrow> bool" where
  "simulated ra rps burst delay idle same s \<longleftrightarrow>
     limiter_inv ra rps burst delay s \<and>
     (\<forall>ip. same (lt_now s) (bucket_now ra s ip) (bucket_of ra (log_state ra (newIPRateLimiter rps burst) (lt_log s)) ip)) \<and>
     log_decisions (lt_log s) = rl_run ra idle (log_requests (lt_log s)) (newIPRateLimiter rps burst)"

lemma simulatedD:
  assumes "simulated ra rps burst delay idle same s"
  shows "limiter_inv ra rps burst delay s"
    and "same (lt_now s) (bucket_now ra s ip) (bucket_of ra (log_state ra (newIPRateLimiter rps burst) (lt_log s)) ip)"
    and "log_decisions (lt_log s) = rl_run ra idle (log_requests (lt_log s)) (newIPRateLimiter rps burst)"
  using assms by (simp_all add: simulated_def)

lemma bucket_laws_mono: "bucket_laws ra rps burst refill same \<Longrightarrow> same t x y \<Longrightarrow> t \<le> u \<Longrightarrow> same u x y"
  unfolding bucket_laws_def by blast

lemma bucket_laws_trans: "bucket_laws ra rps burst refill same \<Longrightarrow> same t x y \<Longrightarrow> same t y z \<Longrightarrow> same t x z"
  unfolding bucket_laws_def by blast

lemma bucket_laws_cong:
  assumes "bucket_laws ra rps burst refill same" "same t x y"
  shows "fst (Allow ra x t) = fst (Allow ra y t)" "same t (snd (Allow ra x t)) (snd (Allow ra y t))"
  using assms unfolding bucket_laws_def by blast+

lemma simulated_token:
  assumes s: "simulated ra rps burst delay idle same s" and laws: "bucket_laws ra rps burst refill same"
    and t: "lt_now s \<le> t" "lt_calls s = cs @ (ip, p, t0) # ds" "take_token ra t p (lt_heap s) = (ok, h')" "t - t0 \<le> delay"
  shows "simulated ra rps burst delay idle same
    (s\<lparr>lt_heap := h', lt_calls := cs @ ds, lt_now := t, lt_log := lt_log s @ [(t, ip, ok)]\<rparr>)"
    (is "simulated _ _ _ _ _ _ ?s")
proof -
  let ?L = "log_state ra (newIPRateLimiter rps burst)"
  note inv = simulatedD(1) [OF s]
  obtain v where v: "rl_visitors (lt_limiter s) ip = Some v" "vs_limiter v = p"
    using limiter_invD(6) [OF inv, of ip p t0] t(2) by auto
  then have b: "bucket_now ra s ip = lt_heap s ! p" by (simp add: bucket_now_alt)
  have now: "same t (bucket_now ra s i) (bucket_of ra (?L (lt_log s)) i)" for i
    using bucket_laws_mono [OF laws simulatedD(2) [OF s] t(1)] .
  have tk: "ok = fst (Allow ra (lt_heap s ! p) t)" "h' = (lt_heap s)[p := snd (Allow ra (lt_heap s ! p) t)]"
    using t(3) by (auto simp: take_token_def split: prod.splits)
  have ok: "ok = fst (allow ra t ip (?L (lt_log s)))"
    using bucket_laws_cong(1) [OF laws now [of ip]] b tk(1) by (simp add: allow_bucket)
  have "limiter_inv ra rps burst delay ?s" using limiter_inv_token [OF inv t(1,2,4)] tk by simp
  moreover have "same t (bucket_now ra ?s i) (bucket_of ra (?L (lt_log ?s)) i)" for i
    using bucket_now_token [OF limiter_invD(3) [OF inv] v(1)] now [of i] bucket_laws_cong(2) [OF laws now [of ip]] b v(2) tk
    by (simp add: log_state_def allow_bucket)
  moreover have "log_decisions (lt_log ?s) = rl_run ra idle (log_requests (lt_log ?s)) (newIPRateLimiter rps burst)"
    using simulatedD(3) [OF s] ok by (simp add: rl_run_log_snoc) (simp add: log_decisions_def)
  ultimately show ?thesis by (simp add: simulated_def)
qed

lemma simulated_step:
  assumes "prompt_step delay ra idle s s'" and s: "simulated ra rps burst delay idle same s"
    and laws: "bucket_laws ra rps burst refill same"
    and idle: "refill + delay \<le> idle" "0 \<le> refill" "0 \<le> delay" "idle < max_int64"
  shows "simulated ra rps burst delay idle same s'"
proof -
  note inv = simulatedD(1) [OF s] and mono = bucket_laws_mono [OF laws simulatedD(2) [OF s]]
  from assms(1) have st: "limiter_step ra idle s s'" and prompt: "\<forall>(ip, p, t0) \<in> set (lt_calls s). lt_now s' - t0 \<le> delay"
    by (simp_all add: prompt_step_def)
  from st show ?thesis
  proof cases
    case (enter t ip p l' h')
    with inv simulatedD(3) [OF s] mono show ?thesis
      by (auto simp: simulated_def limiter_inv_enter bucket_now_enter [OF limiter_invD(3) [OF inv]])
  next
    case (token t cs ip p t0 ds ok h')
    with simulated_token [OF s laws token(2-4)] prompt show ?thesis by simp
  next
    case (tick t u)
    have "same u (bucket_now ra s' i) (bucket_now ra s i)" for i
      using bucket_now_tick [OF inv laws idle(1) _ idle(4)] idle tick(1) by simp
    from bucket_laws_trans [OF laws bucket_laws_mono [OF laws this tick(3)] mono [OF tick(2)]]
    have "same t (bucket_now ra s' i) (bucket_of ra (log_state ra (newIPRateLimiter rps burst) (lt_log s)) i)" for i .
    moreover have "limiter_inv ra rps burst delay s'"
      using limiter_inv_tick [OF inv tick(2,3), of idle] prompt tick(1) idle by simp
    ultimately show ?thesis using tick(1) simulatedD(3) [OF s] by (simp add: simulated_def)
  qed
qed

subsection \<open>Properties\<close>

text \<open>C9: Concurrent requests are limited as if one after the other: over every interleaving of the two
  halves of \<open>allow\<close> of any number of requests with the ticks of the cleanup, the decisions, in the order
  the tokens are taken, are exactly those of the atomic limiter on these requests without any
  eviction. Relied on are the bucket's documented refill within \<open>refill\<close>, and that no request is held up
  between its halves for longer than \<open>delay\<close>, the two together within the ten minutes of idleness.\<close>

theorem interleaved_limiter_atomic:
  assumes "bucket_laws ra rps burst refill same" and "refill + delay \<le> 10 * minute" and "0 \<le> refill" and "0 \<le> delay"
    and "run (prompt_step delay ra (10 * minute)) (limiter_start rps burst t) s"
  shows "log_decisions (lt_log s) = rl_run ra (10 * minute) (log_requests (lt_log s)) (newIPRateLimiter rps burst)"
proof -
  have idle: "10 * minute < max_int64" by simp
  have "same u x x" for u x using assms(1) by (simp add: bucket_laws_def)
  then have "simulated ra rps burst delay (10 * minute) same (limiter_start rps burst t)"
    by (auto simp: simulated_def limiter_inv_def limiter_start_def newIPRateLimiter_def pointers_ok_def bucket_now_alt
      bucket_of_def log_state_def log_decisions_def log_requests_def)
  with assms(5) have "simulated ra rps burst delay (10 * minute) same s"
  proof (induction rule: run.induct)
    case (run_step s' s'')
    from simulated_step [OF run_step.hyps(2) run_step.IH [OF run_step.prems] assms(1-4) idle] show ?case .
  qed
  then show ?thesis by (simp add: simulated_def)
qed

text \<open>Two requests of one client that cross, with a tick of the cleanup inside both windows.\<close>

definition demo_crossed :: "(int \<times> time) limiter_threads" where
  "demo_crossed =
     \<lparr>lt_limiter = \<lparr>rl_visitors = [''a'' \<mapsto> \<lparr>vs_limiter = 0, vs_lastSeen = 2\<rparr>], rl_rps = Finite 20, rl_burst = 40\<rparr>,
      lt_heap = [(38 * second + 20, 5)], lt_calls = [], lt_now = 5, lt_log = [(4, ''a'', True), (5, ''a'', True)]\<rparr>"

lemma demo_crossed_run: "run (prompt_step minute demo_rate (10 * minute)) (limiter_start (Finite 20) 40 0) demo_crossed"
proof -
  let ?st = "prompt_step minute demo_rate (10 * minute)"
  define v where "v t = \<lparr>rl_visitors = [''a'' \<mapsto> \<lparr>vs_limiter = 0 :: nat, vs_lastSeen = t\<rparr>], rl_rps = Finite 20, rl_burst = 40\<rparr>" for t :: time
  define s where "s t t' cs h lg = \<lparr>lt_limiter = v t, lt_heap = [h], lt_calls = cs, lt_now = t', lt_log = lg\<rparr>"
    for t t' :: time and cs and h :: "int \<times> time" and lg
  note defs = s_def v_def prompt_step_def
  have "?st (limiter_start (Finite 20) 40 0) (s 1 1 [(''a'', 0, 1)] (40 * second, 0) [])"
    using enter [of "limiter_start (Finite 20) 40 0" 1 demo_rate "''a''"]
    by (simp add: defs limiter_start_def allow_section_def newIPRateLimiter_def demo_rate_def)
  moreover have "?st (s 1 1 [(''a'', 0, 1)] (40 * second, 0) []) (s 2 2 [(''a'', 0, 1), (''a'', 0, 2)] (40 * second, 0) [])"
    using enter [of "s 1 1 [(''a'', 0, 1)] (40 * second, 0) []" 2 demo_rate "''a''"]
    by (simp add: defs allow_section_def)
  moreover have "?st (s 2 2 [(''a'', 0, 1), (''a'', 0, 2)] (40 * second, 0) []) (s 2 3 [(''a'', 0, 1), (''a'', 0, 2)] (40 * second, 0) [])"
    using tick [of "s 2 2 [(''a'', 0, 1), (''a'', 0, 2)] (40 * second, 0) []" 3 3 demo_rate "10 * minute"]
    by (simp add: defs cleanup_tick_def time_Sub_def fun_upd_def if_distrib cong: if_cong)
  moreover have "?st (s 2 3 [(''a'', 0, 1), (''a'', 0, 2)] (40 * second, 0) []) (s 2 4 [(''a'', 0, 1)] (39 * second, 4) [(4, ''a'', True)])"
    using token [of "s 2 3 [(''a'', 0, 1), (''a'', 0, 2)] (40 * second, 0) []" 4 "[(''a'', 0, 1)]" "''a''" 0 2 "[]" demo_rate]
    by (simp add: defs take_token_def demo_rate_def demo_avail_def)
  moreover have "?st (s 2 4 [(''a'', 0, 1)] (39 * second, 4) [(4, ''a'', True)]) demo_crossed"
    using token [of "s 2 4 [(''a'', 0, 1)] (39 * second, 4) [(4, ''a'', True)]" 5 "[]" "''a''" 0 1 "[]" demo_rate]
    by (simp add: defs demo_crossed_def take_token_def demo_rate_def demo_avail_def)
  ultimately show ?thesis by (meson run_refl run_step)
qed

theorem interleaved_limiter_atomic_witness:
  "run (prompt_step minute demo_rate (10 * minute)) (limiter_start (Finite 20) 40 0) demo_crossed \<and>
   [(''a'', True), (''a'', True)] = rl_run demo_rate (10 * minute) [Request 4 ''a'', Request 5 ''a''] (newIPRateLimiter (Finite 20) 40)"
  using interleaved_limiter_atomic [OF demo_bucket_laws [of "9 * minute"], of minute 0 demo_crossed] demo_crossed_run
  by (simp add: demo_crossed_def log_decisions_def log_requests_def)

end
