(* ===== verification/Simulator.thy ===== *)
theory Simulator
  imports Ingest_Process
begin

text \<open>
  The device simulator (\<open>simulator/src\<close>): its devices, the random walk of each metric with spikes and
  offline periods, and the messages it publishes, against the ingestion service that reads them; and
  the seed data of \<open>infra/postgres/init.sql\<close>, whose devices the simulator must know. JavaScript numbers
  are the rationals a double can hold: \<open>rd\<close> rounds the exact result of an operation and is a parameter,
  of which only monotonicity and exactness on small integers are used. \<open>Math.random()\<close> is the sequence
  \<open>rng\<close>, read by position. \<open>JSON.stringify\<close> and \<open>toISOString\<close> are parameters.
\<close>

subsection \<open>Devices\<close>

datatype DeviceType = smart_meter | temp_sensor | humidity_sensor | ups | hvac

fun type_name :: "DeviceType \<Rightarrow> string" where
  "type_name smart_meter = ''smart_meter''"
| "type_name temp_sensor = ''temp_sensor''"
| "type_name humidity_sensor = ''humidity_sensor''"
| "type_name ups = ''ups''"
| "type_name hvac = ''hvac''"

record DeviceProfile =
  dp_id :: string
  dp_siteId :: string
  dp_name :: string
  dp_type :: DeviceType

definition sim_devices :: "DeviceProfile list" where
  "sim_devices =
     [\<lparr>dp_id = ''a1111111-0000-0000-0000-000000000001'', dp_siteId = ''11111111-1111-1111-1111-111111111111'',
       dp_name = ''smart-meter-01'', dp_type = smart_meter\<rparr>,
      \<lparr>dp_id = ''a1111111-0000-0000-0000-000000000002'', dp_siteId = ''11111111-1111-1111-1111-111111111111'',
       dp_name = ''temp-sensor-01'', dp_type = temp_sensor\<rparr>,
      \<lparr>dp_id = ''a1111111-0000-0000-0000-000000000003'', dp_siteId = ''11111111-1111-1111-1111-111111111111'',
       dp_name = ''humidity-sensor-01'', dp_type = humidity_sensor\<rparr>,
      \<lparr>dp_id = ''a1111111-0000-0000-0000-000000000004'', dp_siteId = ''11111111-1111-1111-1111-111111111111'',
       dp_name = ''ups-01'', dp_type = ups\<rparr>,
      \<lparr>dp_id = ''a2222222-0000-0000-0000-000000000001'', dp_siteId = ''22222222-2222-2222-2222-222222222222'',
       dp_name = ''smart-meter-02'', dp_type = smart_meter\<rparr>,
      \<lparr>dp_id = ''a2222222-0000-0000-0000-000000000002'', dp_siteId = ''22222222-2222-2222-2222-222222222222'',
       dp_name = ''temp-sensor-02'', dp_type = temp_sensor\<rparr>,
      \<lparr>dp_id = ''a2222222-0000-0000-0000-000000000003'', dp_siteId = ''22222222-2222-2222-2222-222222222222'',
       dp_name = ''hvac-01'', dp_type = hvac\<rparr>]"

subsection \<open>Metrics\<close>

record MetricSpec =
  sp_base :: rat
  sp_volatility :: rat
  sp_min :: rat
  sp_max :: rat
  sp_spikeTo :: "rat option"
  sp_spikeChance :: "rat option"

abbreviation spec :: "rat \<Rightarrow> rat \<Rightarrow> rat \<Rightarrow> rat \<Rightarrow> MetricSpec" where
  "spec b v lo hi \<equiv> \<lparr>sp_base = b, sp_volatility = v, sp_min = lo, sp_max = hi, sp_spikeTo = None, sp_spikeChance = None\<rparr>"

definition METRIC_SPECS :: "(rat \<Rightarrow> rat) \<Rightarrow> (string \<times> MetricSpec) list" where
  "METRIC_SPECS rd =
     [(''power_kw'', (spec 40 2 20 48)\<lparr>sp_spikeTo := Some 58, sp_spikeChance := Some (rd (3 / 100))\<rparr>),
      (''voltage'', spec 230 (rd (3 / 2)) 215 240),
      (''current'', spec 50 3 30 65),
      (''temperature_c'', (spec 24 (rd (6 / 10)) 18 27)\<lparr>sp_spikeTo := Some 33, sp_spikeChance := Some (rd (3 / 100))\<rparr>),
      (''humidity_pct'', spec 55 2 35 70),
      (''battery_pct'', spec 98 (rd (3 / 10)) 90 100),
      (''load_pct'', spec 40 4 10 75),
      (''setpoint_c'', spec 24 0 24 24)]"

definition spec_of :: "(rat \<Rightarrow> rat) \<Rightarrow> string \<Rightarrow> MetricSpec" where
  "spec_of rd metric = the (map_of (METRIC_SPECS rd) metric)"

fun READINGS_BY_TYPE :: "DeviceType \<Rightarrow> string list" where
  "READINGS_BY_TYPE smart_meter = [''power_kw'', ''voltage'', ''current'']"
| "READINGS_BY_TYPE temp_sensor = [''temperature_c'']"
| "READINGS_BY_TYPE humidity_sensor = [''humidity_pct'']"
| "READINGS_BY_TYPE ups = [''battery_pct'', ''load_pct'']"
| "READINGS_BY_TYPE hvac = [''temperature_c'', ''setpoint_c'']"

definition OFFLINE_CHANCE :: "(rat \<Rightarrow> rat) \<Rightarrow> rat" where "OFFLINE_CHANCE rd = rd (1 / 100)"

definition OFFLINE_MIN_TICKS :: int where "OFFLINE_MIN_TICKS = 5"

definition OFFLINE_MAX_TICKS :: int where "OFFLINE_MAX_TICKS = 15"

subsection \<open>One tick of a device\<close>

definition clamp :: "rat \<Rightarrow> rat \<Rightarrow> rat \<Rightarrow> rat" where
  "clamp v lo hi = min hi (max lo v)"

definition randomStep :: "(rat \<Rightarrow> rat) \<Rightarrow> rat \<Rightarrow> rat \<Rightarrow> rat" where
  "randomStep rd r volatility = rd (rd (rd (r * 2) - 1) * volatility)"

definition Math_round :: "rat \<Rightarrow> rat" where
  "Math_round x = of_int \<lfloor>x + 1 / 2\<rfloor>"

definition round2 :: "(rat \<Rightarrow> rat) \<Rightarrow> rat \<Rightarrow> rat" where
  "round2 rd x = rd (Math_round (rd (x * 100)) / 100)"

record DeviceSimulator =
  ds_metrics :: "string list"
  ds_values :: "string \<Rightarrow> rat option"
  ds_offlineTicksRemaining :: int

definition newDeviceSimulator :: "(rat \<Rightarrow> rat) \<Rightarrow> DeviceProfile \<Rightarrow> DeviceSimulator" where
  "newDeviceSimulator rd profile =
     (let metrics = READINGS_BY_TYPE (dp_type profile) in
      \<lparr>ds_metrics = metrics, ds_values = map_of (map (\<lambda>m. (m, sp_base (spec_of rd m))) metrics), ds_offlineTicksRemaining = 0\<rparr>)"

text \<open>The next value of a metric; a spike is drawn only for a metric that has one.\<close>

definition next_value :: "(rat \<Rightarrow> rat) \<Rightarrow> (nat \<Rightarrow> rat) \<Rightarrow> string \<Rightarrow> nat \<Rightarrow> rat \<Rightarrow> rat \<times> nat" where
  "next_value rd rng metric k v =
     (let sp = spec_of rd metric;
          walk = (\<lambda>k. (clamp (rd (v + randomStep rd (rng k) (sp_volatility sp))) (sp_min sp) (sp_max sp), Suc k))
      in case sp_spikeTo sp of
           None \<Rightarrow> walk k
         | Some s \<Rightarrow> if rng k < (case sp_spikeChance sp of None \<Rightarrow> 0 | Some c \<Rightarrow> c) then (s, Suc k) else walk (Suc k))"

fun tick_metrics ::
  "(rat \<Rightarrow> rat) \<Rightarrow> (nat \<Rightarrow> rat) \<Rightarrow> string list \<Rightarrow> nat \<Rightarrow> (string \<Rightarrow> rat option) \<Rightarrow>
   (string \<times> rat) list \<times> nat \<times> (string \<Rightarrow> rat option)" where
  "tick_metrics rd rng [] k vals = ([], k, vals)"
| "tick_metrics rd rng (m # ms) k vals =
     (case next_value rd rng m k (the (vals m)) of (x, k1) \<Rightarrow>
       (case tick_metrics rd rng ms k1 (vals(m \<mapsto> x)) of (rs, k2, vals') \<Rightarrow> ((m, round2 rd x) # rs, k2, vals')))"

definition tick ::
  "(rat \<Rightarrow> rat) \<Rightarrow> (nat \<Rightarrow> rat) \<Rightarrow> nat \<Rightarrow> DeviceSimulator \<Rightarrow> (string \<times> rat) list option \<times> nat \<times> DeviceSimulator" where
  "tick rd rng k s =
     (if ds_offlineTicksRemaining s > 0
      then (None, k, s\<lparr>ds_offlineTicksRemaining := ds_offlineTicksRemaining s - 1\<rparr>)
      else if rng k < OFFLINE_CHANCE rd
      then (None, Suc (Suc k), s\<lparr>ds_offlineTicksRemaining :=
              OFFLINE_MIN_TICKS + \<lfloor>rd (rng (Suc k) * of_int (OFFLINE_MAX_TICKS - OFFLINE_MIN_TICKS))\<rfloor>\<rparr>)
      else (case tick_metrics rd rng (ds_metrics s) (Suc k) (ds_values s) of
              (readings, k', vals) \<Rightarrow> (Some readings, k', s\<lparr>ds_values := vals\<rparr>)))"

subsection \<open>Publishing\<close>

text \<open>One callback of \<open>setInterval\<close>: each device in turn, an offline one is skipped.\<close>

fun sim_round ::
  "(rat \<Rightarrow> rat) \<Rightarrow> (nat \<Rightarrow> rat) \<Rightarrow> DeviceProfile list \<Rightarrow> nat \<Rightarrow> (string \<Rightarrow> DeviceSimulator option) \<Rightarrow>
   (DeviceProfile \<times> (string \<times> rat) list) list \<times> nat \<times> (string \<Rightarrow> DeviceSimulator option)" where
  "sim_round rd rng [] k sims = ([], k, sims)"
| "sim_round rd rng (d # ds) k sims =
     (case tick rd rng k (the (sims (dp_id d))) of (r, k1, s) \<Rightarrow>
       (case sim_round rd rng ds k1 (sims(dp_id d \<mapsto> s)) of (out, k2, sims') \<Rightarrow>
         (case r of None \<Rightarrow> (out, k2, sims') | Some readings \<Rightarrow> ((d, readings) # out, k2, sims'))))"

definition sims_start :: "(rat \<Rightarrow> rat) \<Rightarrow> string \<Rightarrow> DeviceSimulator option" where
  "sims_start rd = map_of (map (\<lambda>d. (dp_id d, newDeviceSimulator rd d)) sim_devices)"

fun sim_rounds ::
  "(rat \<Rightarrow> rat) \<Rightarrow> (nat \<Rightarrow> rat) \<Rightarrow> nat \<Rightarrow> nat \<Rightarrow> (string \<Rightarrow> DeviceSimulator option) \<Rightarrow>
   (DeviceProfile \<times> (string \<times> rat) list) list" where
  "sim_rounds rd rng 0 k sims = []"
| "sim_rounds rd rng (Suc n) k sims =
     (case sim_round rd rng sim_devices k sims of (out, k', sims') \<Rightarrow> out @ sim_rounds rd rng n k' sims')"

text \<open>The message of one device: topic and payload; \<open>now\<close> is what \<open>new Date()\<close> read.\<close>

definition sim_message :: "time \<Rightarrow> DeviceProfile \<times> (string \<times> rat) list \<Rightarrow> TelemetryMessage" where
  "sim_message now dr =
     (case dr of (d, readings) \<Rightarrow>
       \<lparr>tm_DeviceID = dp_id d, tm_SiteID = dp_siteId d, tm_DeviceType = type_name (dp_type d),
        tm_Readings = map (\<lambda>(m, x). (m, Finite x)) readings, tm_Ts = now\<rparr>)"

definition sim_publish :: "(json \<Rightarrow> string) \<Rightarrow> (time \<Rightarrow> string) \<Rightarrow> time \<Rightarrow> DeviceProfile \<times> (string \<times> rat) list \<Rightarrow> job" where
  "sim_publish stringify fmt now dr =
     \<lparr>job_topic = telemetryTopic (dp_siteId (fst dr)) (dp_id (fst dr)),
      job_payload = stringify (telemetry_payload fmt (sim_message now dr))\<rparr>"

subsection \<open>The seed data\<close>

text \<open>The rows of \<open>init.sql\<close>; rules get generated ids.\<close>

definition seed_rule :: "pgenv \<Rightarrow> nat \<Rightarrow> string \<Rightarrow> string \<Rightarrow> rat \<Rightarrow> string \<Rightarrow> AlertRule" where
  "seed_rule E n device metric threshold severity =
     \<lparr>ar_ID = gen_random_uuid E n, ar_DeviceID = device, ar_Metric = metric, ar_Operator = ''gt'',
      ar_Threshold = Finite threshold, ar_Severity = severity, ar_Enabled = True\<rparr>"

definition seed_device :: "string \<Rightarrow> string \<Rightarrow> string \<Rightarrow> string \<Rightarrow> Device" where
  "seed_device i site nm ty = \<lparr>dev_ID = i, dev_SiteID = site, dev_Name = nm, dev_Type = ty, dev_LastSeenAt = None\<rparr>"

definition seed_db :: "pgenv \<Rightarrow> pgdb" where
  "seed_db E =
     \<lparr>sites =
        [\<lparr>sr_id = ''11111111-1111-1111-1111-111111111111'', sr_name = ''Bangkok Data Center'', sr_type = ''data_center'',
          sr_location = Some ''Bangkok, TH''\<rparr>,
         \<lparr>sr_id = ''22222222-2222-2222-2222-222222222222'', sr_name = ''Rayong Factory'', sr_type = ''factory'',
          sr_location = Some ''Rayong, TH''\<rparr>],
      devices =
        [seed_device ''a1111111-0000-0000-0000-000000000001'' ''11111111-1111-1111-1111-111111111111'' ''smart-meter-01'' ''smart_meter'',
         seed_device ''a1111111-0000-0000-0000-000000000002'' ''11111111-1111-1111-1111-111111111111'' ''temp-sensor-01'' ''temp_sensor'',
         seed_device ''a1111111-0000-0000-0000-000000000003'' ''11111111-1111-1111-1111-111111111111'' ''humidity-sensor-01'' ''humidity_sensor'',
         seed_device ''a1111111-0000-0000-0000-000000000004'' ''11111111-1111-1111-1111-111111111111'' ''ups-01'' ''ups'',
         seed_device ''a2222222-0000-0000-0000-000000000001'' ''22222222-2222-2222-2222-222222222222'' ''smart-meter-02'' ''smart_meter'',
         seed_device ''a2222222-0000-0000-0000-000000000002'' ''22222222-2222-2222-2222-222222222222'' ''temp-sensor-02'' ''temp_sensor'',
         seed_device ''a2222222-0000-0000-0000-000000000003'' ''22222222-2222-2222-2222-222222222222'' ''hvac-01'' ''hvac''],
      alert_rules =
        [seed_rule E 0 ''a1111111-0000-0000-0000-000000000002'' ''temperature_c'' 28 ''warning'',
         seed_rule E 1 ''a1111111-0000-0000-0000-000000000002'' ''temperature_c'' 32 ''critical'',
         seed_rule E 2 ''a1111111-0000-0000-0000-000000000001'' ''power_kw'' 50 ''warning''],
      users = [''33333333-0000-0000-0000-000000000001''], alerts = [], uuids_drawn = 3\<rparr>"

subsection \<open>Lemmas: vals stay in their bounds\<close>

text \<open>The documented bounds of the simulator's tests, spikes included.\<close>

definition BOUNDS :: "(string \<times> int \<times> int) list" where
  "BOUNDS =
     [(''power_kw'', 20, 58), (''voltage'', 215, 240), (''current'', 30, 65), (''temperature_c'', 18, 33),
      (''humidity_pct'', 35, 70), (''battery_pct'', 90, 100), (''load_pct'', 10, 75), (''setpoint_c'', 24, 24)]"

definition in_bounds :: "string \<Rightarrow> rat \<Rightarrow> bool" where
  "in_bounds m x \<longleftrightarrow> (case map_of BOUNDS m of None \<Rightarrow> False | Some (lo, hi) \<Rightarrow> of_int lo \<le> x \<and> x \<le> of_int hi)"

definition rounding_ok :: "(rat \<Rightarrow> rat) \<Rightarrow> bool" where
  "rounding_ok rd \<longleftrightarrow> (\<forall>x y. x \<le> y \<longrightarrow> rd x \<le> rd y) \<and> (\<forall>n :: int. \<bar>n\<bar> \<le> 2 ^ 53 \<longrightarrow> rd (of_int n) = of_int n)"

lemma rounding_between:
  assumes "rounding_ok rd" "of_int lo \<le> x" "x \<le> of_int hi" "\<bar>lo\<bar> \<le> 2 ^ 53" "\<bar>hi\<bar> \<le> 2 ^ 53"
  shows "of_int lo \<le> rd x" "rd x \<le> of_int hi"
proof -
  have mono: "rd y \<le> rd z" if "y \<le> z" for y z using assms(1) that by (simp add: rounding_ok_def)
  have exact: "rd (of_int n) = of_int n" if "\<bar>n\<bar> \<le> 2 ^ 53" for n using assms(1) that by (simp add: rounding_ok_def)
  show "of_int lo \<le> rd x" using mono [OF assms(2)] exact [OF assms(4)] by simp
  show "rd x \<le> of_int hi" using mono [OF assms(3)] exact [OF assms(5)] by simp
qed

lemma Math_round_between:
  assumes "of_int lo \<le> x" "x \<le> of_int hi"
  shows "of_int lo \<le> Math_round x" "Math_round x \<le> of_int hi"
proof -
  have "lo \<le> \<lfloor>x + 1 / 2\<rfloor>" using assms(1) by (simp add: le_floor_iff)
  moreover have "\<lfloor>x + 1 / 2\<rfloor> \<le> hi" using assms(2) by (simp add: floor_le_iff)
  ultimately show "of_int lo \<le> Math_round x" "Math_round x \<le> of_int hi" by (simp_all add: Math_round_def)
qed

lemma round2_between:
  assumes rd: "rounding_ok rd" and x: "of_int lo \<le> x" "x \<le> of_int hi" and small: "\<bar>lo\<bar> \<le> 1000" "\<bar>hi\<bar> \<le> 1000"
  shows "of_int lo \<le> round2 rd x" "round2 rd x \<le> of_int hi"
proof -
  have "of_int (lo * 100) \<le> rd (x * 100)" "rd (x * 100) \<le> of_int (hi * 100)"
    using rounding_between [OF rd, of "lo * 100" "x * 100" "hi * 100"] x small by simp_all
  from Math_round_between [OF this] have m: "of_int lo \<le> Math_round (rd (x * 100)) / 100" "Math_round (rd (x * 100)) / 100 \<le> of_int hi"
    by simp_all
  show "of_int lo \<le> round2 rd x" "round2 rd x \<le> of_int hi"
    using rounding_between [OF rd m] small by (simp_all add: round2_def)
qed

lemma clamp_between: "lo \<le> hi \<Longrightarrow> lo \<le> clamp v lo hi \<and> clamp v lo hi \<le> hi"
  by (simp add: clamp_def)

definition known_metrics :: "string list" where
  "known_metrics = map fst BOUNDS"

lemma known_metrics_cases:
  "m \<in> set known_metrics \<Longrightarrow> m = ''power_kw'' \<or> m = ''voltage'' \<or> m = ''current'' \<or> m = ''temperature_c'' \<or>
     m = ''humidity_pct'' \<or> m = ''battery_pct'' \<or> m = ''load_pct'' \<or> m = ''setpoint_c''"
  by (simp add: known_metrics_def BOUNDS_def)

lemma spec_of_bounds:
  assumes "m \<in> set known_metrics"
  shows "sp_min (spec_of rd m) \<le> sp_max (spec_of rd m)" "in_bounds m (sp_min (spec_of rd m))" "in_bounds m (sp_max (spec_of rd m))"
    "sp_spikeTo (spec_of rd m) = Some s \<Longrightarrow> in_bounds m s"
proof -
  note m = known_metrics_cases [OF assms]
  from m show "sp_min (spec_of rd m) \<le> sp_max (spec_of rd m)" by (elim disjE; simp add: spec_of_def METRIC_SPECS_def)
  from m show "in_bounds m (sp_min (spec_of rd m))" by (elim disjE; simp add: spec_of_def METRIC_SPECS_def in_bounds_def BOUNDS_def)
  from m show "in_bounds m (sp_max (spec_of rd m))" by (elim disjE; simp add: spec_of_def METRIC_SPECS_def in_bounds_def BOUNDS_def)
  from m show "sp_spikeTo (spec_of rd m) = Some s \<Longrightarrow> in_bounds m s"
    by (elim disjE; simp add: spec_of_def METRIC_SPECS_def in_bounds_def BOUNDS_def)
qed

text \<open>The limits and spikes are small whole numbers.\<close>

definition small_int :: "rat \<Rightarrow> bool" where
  "small_int x \<longleftrightarrow> x \<in> \<int> \<and> \<bar>x\<bar> \<le> 1000"

lemma small_intE: "small_int x \<Longrightarrow> (\<And>n. x = of_int n \<Longrightarrow> \<bar>n\<bar> \<le> 1000 \<Longrightarrow> P) \<Longrightarrow> P"
  by (auto simp: small_int_def elim!: Ints_cases)

lemma spec_of_ints:
  assumes "m \<in> set known_metrics"
  shows "small_int (sp_min (spec_of rd m))" "small_int (sp_max (spec_of rd m))"
    "sp_spikeTo (spec_of rd m) = Some x \<Longrightarrow> small_int x"
proof -
  note m = known_metrics_cases [OF assms]
  from m show "small_int (sp_min (spec_of rd m))" by (elim disjE; simp add: spec_of_def METRIC_SPECS_def small_int_def)
  from m show "small_int (sp_max (spec_of rd m))" by (elim disjE; simp add: spec_of_def METRIC_SPECS_def small_int_def)
  from m show "sp_spikeTo (spec_of rd m) = Some x \<Longrightarrow> small_int x"
    by (elim disjE; auto simp: spec_of_def METRIC_SPECS_def small_int_def)
qed

lemma in_bounds_between: "in_bounds m lo \<Longrightarrow> in_bounds m hi \<Longrightarrow> lo \<le> x \<Longrightarrow> x \<le> hi \<Longrightarrow> in_bounds m x"
  by (auto simp: in_bounds_def split: option.splits)

text \<open>A value of a metric: its spike, or a step of the walk, which is clamped.\<close>

definition good_value :: "(rat \<Rightarrow> rat) \<Rightarrow> string \<Rightarrow> rat \<Rightarrow> bool" where
  "good_value rd m x \<longleftrightarrow>
     sp_spikeTo (spec_of rd m) = Some x \<or> sp_min (spec_of rd m) \<le> x \<and> x \<le> sp_max (spec_of rd m)"

lemma good_value_in_bounds: "m \<in> set known_metrics \<Longrightarrow> good_value rd m x \<Longrightarrow> in_bounds m x"
  using spec_of_bounds [of m rd] by (auto simp: good_value_def intro: in_bounds_between)

lemma next_value_good:
  assumes "m \<in> set known_metrics"
  shows "good_value rd m (fst (next_value rd rng m k v))"
  using clamp_between [OF spec_of_bounds(1) [OF assms]]
  by (auto simp: next_value_def good_value_def Let_def split: option.split)

lemma round2_good:
  assumes "rounding_ok rd" "m \<in> set known_metrics" "good_value rd m x"
  shows "good_value rd m (round2 rd x)"
proof -
  obtain lo hi where c: "sp_min (spec_of rd m) = of_int lo" "sp_max (spec_of rd m) = of_int hi" "\<bar>lo\<bar> \<le> 1000" "\<bar>hi\<bar> \<le> 1000"
    using spec_of_ints(1,2) [OF assms(2), of rd] by (blast elim: small_intE)
  show ?thesis
  proof (cases "sp_spikeTo (spec_of rd m) = Some x")
    case True
    from spec_of_ints(3) [OF assms(2) True] obtain s where "x = of_int s" "\<bar>s\<bar> \<le> 1000" by (rule small_intE)
    with round2_between [OF assms(1), of s x s] have "round2 rd x = x" by simp
    with True show ?thesis by (simp add: good_value_def)
  next
    case False
    with assms(3) have "of_int lo \<le> x" "x \<le> of_int hi" by (simp_all add: good_value_def c)
    from round2_between [OF assms(1) this c(3,4)] show ?thesis by (simp add: good_value_def c)
  qed
qed

lemma tick_metrics_readings:
  assumes "rounding_ok rd" "set ms \<subseteq> set known_metrics"
  shows "map fst (fst (tick_metrics rd rng ms k vals)) = ms \<and>
    (\<forall>(m, x) \<in> set (fst (tick_metrics rd rng ms k vals)). good_value rd m x)"
  using assms(2)
proof (induction ms arbitrary: k vals)
  case (Cons m ms)
  obtain x k1 where x: "next_value rd rng m k (the (vals m)) = (x, k1)" by force
  have "good_value rd m (round2 rd x)"
    using next_value_good [of m rd rng k "the (vals m)"] x Cons.prems assms(1) by (simp add: round2_good)
  moreover obtain rs k2 v where rest: "tick_metrics rd rng ms k1 (vals(m \<mapsto> x)) = (rs, k2, v)" using prod_cases3 by blast
  moreover have "map fst rs = ms \<and> (\<forall>(m, x) \<in> set rs. good_value rd m x)"
    using Cons.IH [where k = k1 and vals = "vals(m \<mapsto> x)"] Cons.prems unfolding rest by simp
  ultimately show ?case by (simp add: x)
qed simp

definition good_readings :: "(rat \<Rightarrow> rat) \<Rightarrow> DeviceProfile \<Rightarrow> (string \<times> rat) list \<Rightarrow> bool" where
  "good_readings rd d rs \<longleftrightarrow> map fst rs = READINGS_BY_TYPE (dp_type d) \<and> (\<forall>(m, x) \<in> set rs. good_value rd m x)"

lemma READINGS_known: "set (READINGS_BY_TYPE ty) \<subseteq> set known_metrics" "distinct (READINGS_BY_TYPE ty)" "READINGS_BY_TYPE ty \<noteq> []"
  by (cases ty; simp add: known_metrics_def BOUNDS_def)+

lemma tick_metrics_kept: "ds_metrics (snd (snd (tick rd rng k s))) = ds_metrics s"
  by (simp add: tick_def split_beta)

lemma tick_readings:
  assumes "rounding_ok rd" "ds_metrics s = READINGS_BY_TYPE (dp_type d)" "tick rd rng k s = (Some rs, k', s')"
  shows "good_readings rd d rs"
  using assms tick_metrics_readings [OF assms(1) READINGS_known(1), of rng "dp_type d" "Suc k" "ds_values s"]
  by (auto simp: tick_def good_readings_def split: if_splits prod.splits)

subsection \<open>Lemmas: rounds\<close>

definition sims_ok :: "(string \<Rightarrow> DeviceSimulator option) \<Rightarrow> bool" where
  "sims_ok sims \<longleftrightarrow> (\<forall>d \<in> set sim_devices. \<exists>s. sims (dp_id d) = Some s \<and> ds_metrics s = READINGS_BY_TYPE (dp_type d))"

lemma sim_ids_distinct: "distinct (map dp_id sim_devices)"
  by (simp add: sim_devices_def)

lemma sim_devices_distinct: "d \<in> set sim_devices \<Longrightarrow> e \<in> set sim_devices \<Longrightarrow> dp_id d = dp_id e \<Longrightarrow> d = e"
  by (rule distinct_map_eqD [OF sim_ids_distinct])

lemma sims_ok_update:
  assumes "sims_ok sims" "d \<in> set sim_devices" "ds_metrics s = READINGS_BY_TYPE (dp_type d)"
  shows "sims_ok (sims(dp_id d \<mapsto> s))"
  using assms sim_devices_distinct [OF assms(2)] unfolding sims_ok_def by (metis fun_upd_apply)

lemma sim_round_good:
  assumes "rounding_ok rd" "set ds \<subseteq> set sim_devices" "sims_ok sims" "sim_round rd rng ds k sims = (out, k', sims')"
  shows "sims_ok sims' \<and> (\<forall>(d, rs) \<in> set out. d \<in> set ds \<and> good_readings rd d rs)"
  using assms(2-)
proof (induction ds arbitrary: k sims out k' sims')
  case (Cons d ds)
  from Cons.prems obtain s where s: "sims (dp_id d) = Some s" "ds_metrics s = READINGS_BY_TYPE (dp_type d)"
    unfolding sims_ok_def by auto
  obtain r k1 s1 where t: "tick rd rng k s = (r, k1, s1)" using prod_cases3 by blast
  obtain o2 k2 sims2 where rest: "sim_round rd rng ds k1 (sims(dp_id d \<mapsto> s1)) = (o2, k2, sims2)" using prod_cases3 by blast
  have "ds_metrics s1 = READINGS_BY_TYPE (dp_type d)" using tick_metrics_kept [of rd rng k s] t s(2) by simp
  with Cons.prems have "sims_ok (sims(dp_id d \<mapsto> s1))" by (intro sims_ok_update) simp_all
  from Cons.IH [OF _ this rest] Cons.prems have ih: "sims_ok sims2" "\<forall>(d, rs) \<in> set o2. d \<in> set ds \<and> good_readings rd d rs" by simp_all
  have "good_readings rd d rs" if "r = Some rs" for rs using tick_readings [OF assms(1) s(2)] t that by simp
  with ih Cons.prems(3) s(1) t rest show ?case by (cases r) auto
qed simp

lemma sim_rounds_good:
  assumes "rounding_ok rd" "sims_ok sims" "(d, rs) \<in> set (sim_rounds rd rng n k sims)"
  shows "d \<in> set sim_devices \<and> good_readings rd d rs"
  using assms(2,3)
proof (induction n arbitrary: k sims)
  case (Suc n)
  obtain out k' sims' where r: "sim_round rd rng sim_devices k sims = (out, k', sims')" using prod_cases3 by blast
  from sim_round_good [OF assms(1) subset_refl Suc.prems(1) r] Suc r show ?case by auto
qed simp

lemma sims_start_ok: "sims_ok (sims_start rd)"
proof -
  have "map_of (map (\<lambda>d. (dp_id d, newDeviceSimulator rd d)) sim_devices) (dp_id d) = Some (newDeviceSimulator rd d)"
    if "d \<in> set sim_devices" for d
    using that sim_ids_distinct by (intro map_of_is_SomeI) (simp_all add: comp_def)
  then show ?thesis by (simp add: sims_ok_def sims_start_def newDeviceSimulator_def Let_def)
qed

subsection \<open>Properties\<close>

text \<open>The simulator publishes what its documentation promises: over any number of rounds, whatever is
  drawn, every published message belongs to a device of the list, carries exactly the readings the
  message contract lists for the type of the device, and each value lies within the documented bounds
  of its metric, spikes and rounding to two decimals included.\<close>

theorem simulator_readings_documented:
  assumes "rounding_ok rd" and "(d, rs) \<in> set (sim_rounds rd rng n k (sims_start rd))"
  shows "d \<in> set sim_devices \<and> map fst rs = READINGS_BY_TYPE (dp_type d) \<and> list_all (\<lambda>(m, x). in_bounds m x) rs"
proof -
  from sim_rounds_good [OF assms(1) sims_start_ok assms(2)] have d: "d \<in> set sim_devices"
    and rs: "map fst rs = READINGS_BY_TYPE (dp_type d)" "\<forall>(m, x) \<in> set rs. good_value rd m x" by (simp_all add: good_readings_def)
  have "fst p \<in> set known_metrics" if "p \<in> set rs" for p
    using READINGS_known(1) [of "dp_type d"] that unfolding rs(1) [symmetric] by auto
  with rs(2) have "list_all (\<lambda>(m, x). in_bounds m x) rs" by (fastforce simp: list_all_iff intro: good_value_in_bounds)
  with d rs(1) show ?thesis by blast
qed

lemma id_rounding_ok: "rounding_ok (\<lambda>x. x)"
  by (simp add: rounding_ok_def)

text \<open>Draws that keep every device online and make every metric with a spike spike.\<close>

definition demo_rng :: "nat \<Rightarrow> rat" where
  "demo_rng k = 1 / 50"

lemma demo_spike:
  "(sim_devices ! 1, [(''temperature_c'', 33)]) \<in> set (sim_rounds (\<lambda>x. x) demo_rng 1 0 (sims_start (\<lambda>x. x)))"
  by code_simp

theorem simulator_readings_documented_witness:
  "in_bounds ''temperature_c'' 33 \<and> map fst [(''temperature_c'', 33 :: rat)] = READINGS_BY_TYPE (dp_type (sim_devices ! 1))"
  using simulator_readings_documented [OF id_rounding_ok demo_spike] by simp

lemma sim_message_sel [simp]:
  "tm_DeviceID (sim_message now (d, rs)) = dp_id d" "tm_SiteID (sim_message now (d, rs)) = dp_siteId d"
  "tm_DeviceType (sim_message now (d, rs)) = type_name (dp_type d)"
  "tm_Readings (sim_message now (d, rs)) = map (\<lambda>(m, x). (m, Finite x)) rs" "tm_Ts (sim_message now (d, rs)) = now"
  by (simp_all add: sim_message_def)

lemma sim_device_ids:
  "d \<in> set sim_devices \<Longrightarrow> CHR ''/'' \<notin> set (dp_siteId d) \<and> CHR ''/'' \<notin> set (dp_id d) \<and> dp_siteId d \<noteq> [] \<and> dp_id d \<noteq> []"
  by (auto simp: sim_devices_def)

lemma type_name_nonempty: "type_name ty \<noteq> []"
  by (cases ty) simp_all

text \<open>C14: Publisher and subscriber agree: whatever text \<open>JSON.stringify\<close> and \<open>toISOString\<close> produce, if the
  JSON and time layers of the ingestion service read it back, then every message the simulator
  publishes in any number of rounds is accepted by the ingestion service, which recovers the device,
  the site, the type, the readings and the time as published.\<close>

theorem simulator_messages_accepted:
  assumes "rounding_ok rd" and "dr \<in> set (sim_rounds rd rng n k (sims_start rd))"
    and "parse_all cd (job_payload (sim_publish stringify fmt now dr)) = Some (telemetry_payload fmt (sim_message now dr))"
    and "strict_RFC3339 cd (fmt now) = Some now"
  shows "check_message cd (sim_publish stringify fmt now dr) = Inr (sim_message now dr)"
proof -
  obtain d rs where dr: "dr = (d, rs)" by (cases dr)
  from sim_rounds_good [OF assms(1) sims_start_ok] assms(2) dr have d: "d \<in> set sim_devices" and rs: "map fst rs = READINGS_BY_TYPE (dp_type d)"
    by (auto simp: good_readings_def)
  have keys: "map fst (tm_Readings (sim_message now dr)) = READINGS_BY_TYPE (dp_type d)"
    using rs by (simp add: dr comp_def split_beta)
  then have readings: "distinct (map fst (tm_Readings (sim_message now dr)))" "tm_Readings (sim_message now dr) \<noteq> []"
    using READINGS_known(2,3) [of "dp_type d"] by auto
  have topic: "parseTopic (job_topic (sim_publish stringify fmt now dr)) = Inr (dp_siteId d, dp_id d)"
    using sim_device_ids [OF d] by (simp add: sim_publish_def dr parseTopic_iff)
  have "parseTelemetryMessage cd (job_payload (sim_publish stringify fmt now dr)) = Inr (sim_message now dr)"
    using assms(3) decode_telemetry_payload [of cd fmt "sim_message now dr"] assms(4) readings sim_device_ids [OF d]
      type_name_nonempty [of "dp_type d"]
    by (simp add: parseTelemetryMessage_Inr unmarshal_telemetry_def dr)
  with topic show ?thesis by (simp add: check_message_def dr)
qed

definition demo_stringify :: "json \<Rightarrow> string" where
  "demo_stringify j = (case j of JObj ((_, JStr s) # _) \<Rightarrow> s | _ \<Rightarrow> [])"

theorem simulator_messages_accepted_witness:
  "check_message (demo_codec [(dp_id (sim_devices ! 1), telemetry_payload demo_fmt (sim_message 7 (sim_devices ! 1, [(''temperature_c'', 33)])))])
     (sim_publish demo_stringify demo_fmt 7 (sim_devices ! 1, [(''temperature_c'', 33)])) =
   Inr (sim_message 7 (sim_devices ! 1, [(''temperature_c'', 33)]))"
  by (rule simulator_messages_accepted [OF id_rounding_ok demo_spike])
    (simp_all add: sim_publish_def demo_stringify_def telemetry_payload_def demo_codec_def demo_fmt_def)

text \<open>The fixed ids of the seed data.\<close>

definition seed_ids :: "string list" where
  "seed_ids =
     [''11111111-1111-1111-1111-111111111111'', ''22222222-2222-2222-2222-222222222222'',
      ''33333333-0000-0000-0000-000000000001''] @ map dp_id sim_devices"

lemma seed_schema:
  assumes "pgenv_ok E" "inj (gen_random_uuid E)" "list_all (\<lambda>i. uuid_parse E i = Some i) seed_ids"
  shows "schema_ok E (seed_db E)"
proof -
  have gen: "gen_random_uuid E i = gen_random_uuid E j \<longleftrightarrow> i = j" for i j using assms(2) by (simp add: inj_eq)
  have canon: "uuid_parse E (gen_random_uuid E i) = Some (gen_random_uuid E i)" for i using assms(1) by (simp add: pgenv_ok_def)
  have ids: "list_all (\<lambda>i. uuid_parse E i = Some i) (all_ids (seed_db E))"
    using assms(3) by (simp add: all_ids_def seed_db_def seed_ids_def sim_devices_def seed_device_def seed_rule_def canon)
  have dist: "distinct (map sr_id (sites (seed_db E)))" "distinct (map dev_ID (devices (seed_db E)))"
    "distinct (map ar_ID (alert_rules (seed_db E)))" "distinct (users (seed_db E))" "alerts (seed_db E) = []"
    by (simp_all add: seed_db_def seed_device_def seed_rule_def gen)
  have rows: "list_all (\<lambda>s. sr_type s \<in> set site_types) (sites (seed_db E))"
    "list_all (device_row_ok (sites (seed_db E))) (devices (seed_db E))"
    "list_all (rule_row_ok (seed_db E)) (alert_rules (seed_db E))"
    by (simp_all add: seed_db_def seed_device_def seed_rule_def device_row_ok_def rule_row_ok_def site_types_def device_types_def
        operators_def severities_def)
  from ids dist rows show ?thesis by (simp add: schema_ok_def)
qed

text \<open>C34: The seed data is a legal start: the database \<open>init.sql\<close> creates satisfies its own constraints and
  the invariants the services keep (unique ids, foreign keys, checks, at most one active alert per
  rule, fresh ids), and its devices are exactly the devices of the simulator, with the same site, name
  and type, as the simulator's source demands.\<close>

theorem seed_data_ok:
  assumes "pgenv_ok E" and "inj (gen_random_uuid E)" and "list_all (\<lambda>i. uuid_parse E i = Some i) seed_ids"
  shows "db_ok E (seed_db E) \<and> ids_fresh E (seed_db E) \<and> one_active (seed_db E) \<and>
    map (\<lambda>d. (dev_ID d, dev_SiteID d, dev_Name d, dev_Type d)) (devices (seed_db E)) =
    map (\<lambda>d. (dp_id d, dp_siteId d, dp_name d, type_name (dp_type d))) sim_devices"
proof -
  have "ids_fresh E (seed_db E)"
    using assms(2) by (auto simp: ids_fresh_def seed_db_def seed_rule_def inj_eq)
  moreover have "db_ok E (seed_db E)" "one_active (seed_db E)"
    using seed_schema [OF assms] by (simp_all add: db_ok_def alert_devices_ok_def one_active_def active_count_def seed_db_def)
  moreover have "map (\<lambda>d. (dev_ID d, dev_SiteID d, dev_Name d, dev_Type d)) (devices (seed_db E)) =
      map (\<lambda>d. (dp_id d, dp_siteId d, dp_name d, type_name (dp_type d))) sim_devices"
    by (simp add: seed_db_def seed_device_def sim_devices_def)
  ultimately show ?thesis by blast
qed

lemma demo_gen_inj: "inj (gen_random_uuid demo_env)"
  by (rule injI) (simp add: demo_env_def)

theorem seed_data_ok_witness: "db_ok demo_env (seed_db demo_env) \<and> ids_fresh demo_env (seed_db demo_env)"
  using seed_data_ok [OF demo_env_ok demo_gen_inj] by (simp add: seed_ids_def sim_devices_def demo_env_def)

lemma seed_rules_cases:
  assumes "r \<in> set (alert_rules (seed_db E))"
  shows "ar_Operator r = ''gt'' \<and>
    (ar_Metric r = ''temperature_c'' \<and> (ar_Threshold r = Finite 28 \<or> ar_Threshold r = Finite 32) \<or>
     ar_Metric r = ''power_kw'' \<and> ar_Threshold r = Finite 50)"
proof -
  from assms have "r = seed_rule E 0 ''a1111111-0000-0000-0000-000000000002'' ''temperature_c'' 28 ''warning'' \<or>
      r = seed_rule E 1 ''a1111111-0000-0000-0000-000000000002'' ''temperature_c'' 32 ''critical'' \<or>
      r = seed_rule E 2 ''a1111111-0000-0000-0000-000000000001'' ''power_kw'' 50 ''warning''"
    by (simp add: seed_db_def)
  then show ?thesis by (elim disjE; simp add: seed_rule_def)
qed

text \<open>C35: The simulator exercises the seeded rules as intended: whenever a seeded rule applies to a
  reading the simulator publishes, being a rule of that device and that metric, the reading breaches
  it if and only if it is the metric's spike value; the ordinary walk never breaches a seeded rule.
  (The devices without a seeded rule for their metric can spike without breaching any.)\<close>

theorem spikes_exercise_seeded_rules:
  assumes "rounding_ok rd" and "(d, rs) \<in> set (sim_rounds rd rng n k (sims_start rd))" and "(m, x) \<in> set rs"
    and "r \<in> set (alert_rules (seed_db E))" and "ar_DeviceID r = dp_id d" and "ar_Metric r = m"
  shows "compareThreshold (Finite x) (ar_Operator r) (ar_Threshold r) \<longleftrightarrow> sp_spikeTo (spec_of rd m) = Some x"
proof -
  have g: "good_value rd m x" using sim_rounds_good [OF assms(1) sims_start_ok assms(2)] assms(3) by (auto simp: good_readings_def)
  have t: "sp_max (spec_of rd ''temperature_c'') = 27" "sp_spikeTo (spec_of rd ''temperature_c'') = Some 33"
    "sp_max (spec_of rd ''power_kw'') = 48" "sp_spikeTo (spec_of rd ''power_kw'') = Some 58"
    by (simp_all add: spec_of_def METRIC_SPECS_def)
  have gt: "compareThreshold (Finite z) ''gt'' (Finite y) \<longleftrightarrow> y < z" for y z by (simp add: compareThreshold_def less_float64_def)
  from seed_rules_cases [OF assms(4)] g show ?thesis
    unfolding good_value_def assms(6) [symmetric] by (elim conjE disjE) (auto simp: t gt)
qed

theorem spikes_exercise_seeded_rules_witness:
  "dp_id (sim_devices ! 1) = ''a1111111-0000-0000-0000-000000000002'' \<and>
   compareThreshold (Finite 33) ''gt'' (Finite 32) \<and> sp_spikeTo (spec_of (\<lambda>x. x) ''temperature_c'') = Some 33"
proof -
  have r: "seed_rule demo_env 1 ''a1111111-0000-0000-0000-000000000002'' ''temperature_c'' 32 ''critical'' \<in> set (alert_rules (seed_db demo_env))"
    by (simp add: seed_db_def)
  have d: "dp_id (sim_devices ! 1) = ''a1111111-0000-0000-0000-000000000002''" by (simp add: sim_devices_def)
  have s: "sp_spikeTo (spec_of (\<lambda>x. x) ''temperature_c'') = Some 33" by (simp add: spec_of_def METRIC_SPECS_def)
  have "compareThreshold (Finite 33) ''gt'' (Finite 32) \<longleftrightarrow> sp_spikeTo (spec_of (\<lambda>x. x) ''temperature_c'') = Some 33"
    using spikes_exercise_seeded_rules [OF id_rounding_ok demo_spike _ r, of "''temperature_c''" 33] d by (simp add: seed_rule_def)
  with s d show ?thesis by simp
qed

end
