(* ===== verification/Spec2Isabelle.thy ===== *)
theory Spec2Isabelle
  imports Startup Ingest_Shutdown Rate_Interleave Simulator
begin

text \<open>
  SiteWatch monitors devices at sites. The simulator publishes telemetry over MQTT; the \<^emph>\<open>ingestion\<close>
  service (\<open>src/ingestion\<close>) stores every message in MongoDB, evaluates the alert rules of the device
  and writes alerts to PostgreSQL; the \<^emph>\<open>API\<close> (\<open>src/api\<close>) serves sites, devices, telemetry, alerts and
  alert rules over HTTP; \<open>src/shared\<close> holds the code both use. This development models the Go code of
  the two services and of the shared module, the simulator that feeds them and the seed data they start
  from, and proves what makes them correct alone and together.

  \<^bold>\<open>Parts and theories.\<close>

  \<^item> \<^bold>\<open>Prelude, GoStd, Float64, Json.\<close> What the Go code uses of its language: 64-bit integers with
    wrap-around, instants and saturating differences, map reads with zero values, \<open>strings\<close>,
    \<open>strconv\<close>, \<open>net.SplitHostPort\<close>, \<open>encoding/hex\<close>, header keys, IEEE comparison of \<open>float64\<close>, and the
    decoding of a parsed JSON value into a struct. \<open>Prelude\<close> also holds the two state-machine
    interfaces \<open>invariant_system\<close> and \<open>monotone_system\<close>.
  \<^item> \<^bold>\<open>Alert_Engine\<close> (\<open>ingestion/alerts.go\<close>, decision logic): \<open>compareThreshold\<close>, \<open>EvaluateRules\<close> and the
    \<open>BreachTracker\<close>. Shown: the documented decision table, exactness of the debounce over any
    sequence of calls, liveness under a sustained breach, no decision under oscillation.
  \<^item> \<^bold>\<open>Contract\<close> (\<open>ingestion/contract.go\<close>): topic and payload, with round trips against the
    simulator's topic builder and the documented payload.
  \<^item> \<^bold>\<open>Models, Postgres\<close> (\<open>api/models.go\<close>, \<open>infra/postgres/init.sql\<close>): the rows, the constraints of
    the schema (\<open>schema_ok\<close>, \<open>db_ok\<close>), the life cycle of an alert (\<open>alert_evolves\<close>) and how a
    statement or query runs, faults included. \<^bold>\<open>Demo_Data\<close> is a small site for the witnesses.
  \<^item> \<^bold>\<open>Ingest_Store, Ingest_Apply, Ingest_Decide\<close> (\<open>ingestion/store.go\<close>, the database half of
    \<open>alerts.go\<close>): \<open>Store\<close>, the telemetry document, the debounced \<open>last_seen_at\<close>, loading rules and
    active alerts, \<open>ApplyDecisions\<close> and its bounded retry. The interface \<open>alert_sink\<close> states what
    applying decisions promises; PostgreSQL's statements interpret it.
  \<^item> \<^bold>\<open>Ingest_Process, Ingest_Queue, Ingest_Steps, Ingest_Pool, Ingest_Shutdown\<close> (\<open>ingestion/main.go\<close>):
    configuration, \<open>process\<close> on every branch, the job queue (interface \<open>bounded_buffer\<close>), one worker
    iteration, \<open>process\<close> in steps of one database call, one section under a mutex, one increment or one
    log line, and the pool as a step relation of that grain from the start to the end of the process:
    arriving messages, workers, the signal, the cancelled context, the broker's disconnection and the
    exit. Shown: the uninterrupted steps of
    a worker are \<open>process\<close>; which messages are accepted; telemetry before evaluation; the target number
    of active alerts after a message; order and accounting of the queue; a worker always finishes its
    message; the metrics run ahead of the log by exactly the goroutines between counting and
    logging; one evaluation and one pass keep at most one active alert per rule; the race of two workers; what a shutdown loses.
  \<^item> \<^bold>\<open>Api_Core, Api_Alerts, Api_Alert_List, Api_Rules, Api_Devices\<close> (\<open>api/db.go\<close>, \<open>alerts.go\<close>,
    \<open>alert_rules.go\<close>, \<open>devices.go\<close>, \<open>sites.go\<close>): response writers and the twelve handlers. The interface
    \<open>api_handler\<close> is the contract of a handler (one status, a JSON content type, alerts only evolve,
    the schema is kept); every handler interprets it. The alert query is built as text, as in the code,
    and the server's side reads that text (\<open>parse_alert_query\<close>, for the fragment of SQL the builder can
    produce). Shown: the outcome of creating a rule and of the two transitions on every branch and
    under every fault, that of updating and deleting without faults; exact listing and paging; the
    query text is one of eight constants and all values are arguments.
  \<^item> \<^bold>\<open>Rate_Limit, Rate_Interleave, Api_Http\<close> (\<open>api/ratelimit.go\<close>, \<open>main.go\<close>, \<open>metrics.go\<close>): the limiter
    per client and its eviction, routing, CORS, correlation ids, instrumentation and the handler
    chain. \<open>Rate_Interleave\<close> splits \<open>allow\<close> where the code leaves the mutex, with limiters on a heap, and
    refines it to the atomic \<open>allow\<close> the handler chain uses.
  \<^item> \<^bold>\<open>Shared\<close> (\<open>shared/*.go\<close>): correlation ids, pool sizes, client construction, the telemetry
    index, the pool collector.
  \<^item> \<^bold>\<open>Simulator\<close> (\<open>simulator/src/*.ts\<close>, the seed data of \<open>init.sql\<close>): the random walk of each metric with
    its spikes and offline periods, the published messages and the first contents of the database.
    Shown: readings and bounds as documented; every published message is accepted by ingestion; the
    seed data satisfies the invariants of the services and matches the simulator; a reading
    breaches a seeded rule of its device and metric exactly when it is a spike.
  \<^item> \<^bold>\<open>System\<close>: both services on one database. The API interprets \<open>quiet_writer\<close>, the interface between
    the workers and any other writer; over all interleavings alerts only move forward, and with at
    most one message per device being processed and no faults on the ingestion side every rule has at
    most one active alert.
  \<^item> \<^bold>\<open>Startup\<close>: the environment file, the metrics server, the start of both processes, the callbacks of
    the broker client, and the end of the API process: \<open>main\<close> from \<open>ListenAndServe\<close> through its deferred
    calls, the goroutine that calls \<open>Shutdown\<close>, and the requests being served.

  \<^bold>\<open>State and operations.\<close> A Go struct is a record with the struct's fields, a method a function that
  takes and returns that record, an error an \<open>Inl\<close> or a \<open>Some\<close>. \<open>world\<close> is what lies outside a process:
  both databases, the faults still to come and the pauses taken. \<open>Service\<close> is what the goroutines of
  the ingestion service share (store, tracker, metrics, log), \<open>pool\<close> adds the queue, the workers, the
  callbacks yet to log a drop and how far \<open>main\<close> is, \<open>limiter_threads\<close> is the limiter with its heap and the requests inside \<open>allow\<close>,
  \<open>App\<close> and \<open>server\<close> are the API's. The clock is an argument wherever the code reads it.

  \<^bold>\<open>Parameters.\<close> Code outside the repository is an argument: the JSON and time syntax (\<open>codec\<close>), what the
  database server decides (\<open>pgenv\<close>, with \<open>pgenv_ok\<close> for what is relied on: one canonical text per
  UUID, generated ids are canonical, rows come back once each), freshness of generated ids
  (\<open>ids_fresh\<close>), the token bucket (\<open>rate_api\<close> with \<open>bucket_laws\<close>), the random sources, the rounding of JavaScript numbers (\<open>rounding_ok\<close>), the Prometheus
  and pprof handlers, the drivers and the broker client. A database call meets a \<open>fault\<close>: none, a
  failure without effect, a lost reply after the effect, a stream that breaks off, or a row that cannot
  be scanned. Faults come from a list, so a statement about every list covers every pattern.

  \<^bold>\<open>Bounds.\<close> No fuel is used: the retry loop has a measure (three attempts), the swap loop of the
  telemetry handler the distance of its indices, all other recursions are structural. Debounce counts
  are stated for histories below the 64-bit counter's bound. The refinement of the limiter assumes that
  a bucket refills within \<open>refill\<close> and that a request is not held up inside \<open>allow\<close> for longer than
  \<open>delay\<close>, the two together within the ten minutes after which a client is evicted; with the default
  configuration a bucket refills in two seconds.

  \<^bold>\<open>What the code does not keep.\<close> Proved alongside: two workers can create two active alerts for one
  rule (\<open>worker_pool_race\<close>); the retry repeats committed inserts (\<open>retry_duplicates_created_alert\<close>);
  list handlers hide broken result streams (\<open>listAlerts_hides_stream_errors\<close>); \<open>PATCH\<close> replaces the
  whole rule (\<open>updateAlertRule_replaces\<close>); the API exits without waiting for accepted requests
  (\<open>api_exit_drops_requests\<close>); a rule can be stored although its creation is answered 400
  (\<open>createAlertRule_outcome\<close>), and an alert in the wrong status answered 404 when the follow-up lookup
  fails (\<open>transition_outcome\<close>); the ingestion service exits without draining its queue
  (\<open>shutdown_abandons_messages\<close>); the failure of a message is logged without its id
  (\<open>message_log_correlated\<close>).

  \<^bold>\<open>Not modelled.\<close> The frontend (TypeScript), the simulator's connection and console, dashboards and containers;
  the text of log lines beyond what is compared; the help texts and buckets of the request metrics;
  the \<open>Allow\<close> header of a 405 and the redirects of unclean paths; closing rows; the
  cancellation of a request's context; how the broker client reconnects (its callbacks are modelled).
\<close>

end
